(* ===== verification/Go_Prelude.thy ===== *)
theory Go_Prelude
  imports Main "HOL-Library.AList"
begin

section \<open>What the model uses of Go: integers, strings, decoded JSON\<close>

text \<open>
  The gateway is one Go package. This theory holds the parts of the language and its standard
  library that several components use, and the generic lemmas their proofs share.
  \<^item> A Go \<open>string\<close> is a sequence of bytes: here \<open>string\<close>, a list of \<open>char\<close>, one \<open>char\<close> per byte.
    A literal that is not ASCII is written byte by byte.
  \<^item> A Go \<open>int\<close> is 64 bits wide. Where a sum or a product can leave that range the model writes
    the wrap-around out with \<open>wrap64\<close>; counters and lengths that cannot are \<open>int\<close> or \<open>nat\<close>.
  \<^item> A value decoded by \<open>encoding/json\<close> into \<open>interface{}\<close> is a \<open>json\<close>. A decoded
    object is an association list of which only the first entry of a key is ever read; its
    order carries no meaning, as a Go map's does not.
  \<^item> Instants are \<open>int\<close> nanoseconds since Go's zero \<open>time.Time\<close>, so the zero time is 0;
    durations are \<open>int\<close> nanoseconds.
\<close>

named_theorems json_access \<comment> \<open>reading and writing decoded objects\<close>
named_theorems go_strings \<comment> \<open>evaluation of the string functions on literals\<close>

subsection \<open>Integers\<close>

definition wrap64 :: "int \<Rightarrow> int" where
  "wrap64 x = (x + 2 ^ 63) mod 2 ^ 64 - 2 ^ 63"

definition in_int64 :: "int \<Rightarrow> bool" where
  "in_int64 x \<longleftrightarrow> - (2 ^ 63) \<le> x \<and> x < 2 ^ 63"

lemma wrap64_id: "in_int64 x \<Longrightarrow> wrap64 x = x"
  by (simp add: wrap64_def in_int64_def)

lemma wrap64_range: "in_int64 (wrap64 x)"
proof -
  have "0 \<le> (x + 2 ^ 63) mod 2 ^ 64" and "(x + 2 ^ 63) mod 2 ^ 64 < (2::int) ^ 64"
    by (simp_all add: pos_mod_bound)
  then show ?thesis by (simp add: wrap64_def in_int64_def)
qed

lemma wrap64_wrap64 [simp]: "wrap64 (wrap64 x) = wrap64 x"
  by (simp add: wrap64_id wrap64_range)

lemma wrap64_add_left [simp]: "wrap64 (wrap64 x + y) = wrap64 (x + y)"
  by (simp add: wrap64_def algebra_simps mod_simps)

lemma wrap64_add_right [simp]: "wrap64 (x + wrap64 y) = wrap64 (x + y)"
  using wrap64_add_left [of y x] by (simp add: add.commute)

text \<open>Go's integer division truncates towards zero.\<close>

definition go_div :: "int \<Rightarrow> int \<Rightarrow> int" where
  "go_div a b = sgn a * sgn b * (\<bar>a\<bar> div \<bar>b\<bar>)"

lemma go_div_nonneg: "0 \<le> a \<Longrightarrow> 0 < b \<Longrightarrow> go_div a b = a div b"
  by (cases "a = 0") (simp_all add: go_div_def)

subsection \<open>Durations\<close>

definition ns_second :: int where "ns_second = 1000000000"
definition ns_minute :: int where "ns_minute = 60 * ns_second"

subsection \<open>Bytes and strings\<close>

abbreviation byte :: "char \<Rightarrow> nat" where
  "byte c \<equiv> of_char c"

text \<open>\<open>utf8.RuneStart\<close>: not a continuation byte \<open>10xxxxxx\<close>.\<close>

definition rune_start :: "char \<Rightarrow> bool" where
  "rune_start c \<longleftrightarrow> \<not> (128 \<le> byte c \<and> byte c < 192)"

definition has_prefix :: "string \<Rightarrow> string \<Rightarrow> bool" where
  "has_prefix s p \<longleftrightarrow> take (length p) s = p"

definition has_suffix :: "string \<Rightarrow> string \<Rightarrow> bool" where
  "has_suffix s p \<longleftrightarrow> has_prefix (rev s) (rev p)"

definition cut_prefix :: "string \<Rightarrow> string \<Rightarrow> string option" where
  "cut_prefix s p = (if has_prefix s p then Some (drop (length p) s) else None)"

definition trim_prefix :: "string \<Rightarrow> string \<Rightarrow> string" where
  "trim_prefix s p = (if has_prefix s p then drop (length p) s else s)"

definition trim_suffix :: "string \<Rightarrow> string \<Rightarrow> string" where
  "trim_suffix s p = (if has_suffix s p then take (length s - length p) s else s)"

text \<open>\<open>strings.TrimRight(s, c)\<close> for a cutset of one byte.\<close>

definition trim_right_char :: "char \<Rightarrow> string \<Rightarrow> string" where
  "trim_right_char c s = rev (dropWhile (\<lambda>x. x = c) (rev s))"

text \<open>\<open>strings.Cut\<close>: the text before and after the first occurrence of \<open>sep\<close>.\<close>

fun cut :: "string \<Rightarrow> string \<Rightarrow> (string \<times> string) option" where
  "cut [] sep = (if sep = [] then Some ([], []) else None)"
| "cut (c # cs) sep =
     (if has_prefix (c # cs) sep then Some ([], drop (length sep) (c # cs))
      else map_option (\<lambda>(b, a). (c # b, a)) (cut cs sep))"

definition contains :: "string \<Rightarrow> string \<Rightarrow> bool" where
  "contains s sub \<longleftrightarrow> cut s sub \<noteq> None"

text \<open>\<open>strings.Split\<close> and \<open>strings.SplitN\<close> for a separator of one byte.\<close>

fun split_on :: "char \<Rightarrow> string \<Rightarrow> string list" where
  "split_on d [] = [[]]"
| "split_on d (c # cs) =
     (if c = d then [] # split_on d cs
      else (case split_on d cs of [] \<Rightarrow> [[c]] | w # ws \<Rightarrow> (c # w) # ws))"

fun split_n :: "nat \<Rightarrow> char \<Rightarrow> string \<Rightarrow> string list" where
  "split_n 0 d s = []"
| "split_n (Suc 0) d s = [s]"
| "split_n (Suc (Suc n)) d s =
     (case cut s [d] of None \<Rightarrow> [s] | Some (b, a) \<Rightarrow> b # split_n (Suc n) d a)"

fun join :: "string \<Rightarrow> string list \<Rightarrow> string" where
  "join sep [] = []"
| "join sep [w] = w"
| "join sep (w # ws) = w @ sep @ join sep ws"

text \<open>
  \<open>strings.TrimSpace\<close>: the white-space runes at either end, ASCII and the Unicode
  ones in their UTF-8 encoding (U+0085, U+00A0, U+1680, U+2000 to U+200A, U+2028, U+2029,
  U+202F, U+205F, U+3000).
\<close>

definition ascii_space :: "char \<Rightarrow> bool" where
  "ascii_space c \<longleftrightarrow> byte c \<in> {9, 10, 11, 12, 13, 32}"

definition space2 :: "char \<Rightarrow> char \<Rightarrow> bool" where
  "space2 a b \<longleftrightarrow> byte a = 0xC2 \<and> (byte b = 0x85 \<or> byte b = 0xA0)"

definition space3 :: "char \<Rightarrow> char \<Rightarrow> char \<Rightarrow> bool" where
  "space3 a b c \<longleftrightarrow>
     byte a = 0xE1 \<and> byte b = 0x9A \<and> byte c = 0x80 \<or>
     byte a = 0xE2 \<and> byte b = 0x80 \<and>
       (0x80 \<le> byte c \<and> byte c \<le> 0x8A \<or> byte c = 0xA8 \<or> byte c = 0xA9 \<or> byte c = 0xAF) \<or>
     byte a = 0xE2 \<and> byte b = 0x81 \<and> byte c = 0x9F \<or>
     byte a = 0xE3 \<and> byte b = 0x80 \<and> byte c = 0x80"

fun trim_left_space :: "string \<Rightarrow> string" where
  "trim_left_space (a # b # c # s) =
     (if ascii_space a then trim_left_space (b # c # s)
      else if space2 a b then trim_left_space (c # s)
      else if space3 a b c then trim_left_space s
      else a # b # c # s)"
| "trim_left_space (a # b # s) =
     (if ascii_space a then trim_left_space (b # s)
      else if space2 a b then trim_left_space s
      else a # b # s)"
| "trim_left_space (a # s) = (if ascii_space a then trim_left_space s else a # s)"
| "trim_left_space [] = []"

text \<open>The same on the reversed string, where a rune's bytes come last byte first.\<close>

fun trim_right_space_rev :: "string \<Rightarrow> string" where
  "trim_right_space_rev (c # b # a # s) =
     (if ascii_space c then trim_right_space_rev (b # a # s)
      else if space2 b c then trim_right_space_rev (a # s)
      else if space3 a b c then trim_right_space_rev s
      else c # b # a # s)"
| "trim_right_space_rev (c # b # s) =
     (if ascii_space c then trim_right_space_rev (b # s)
      else if space2 b c then trim_right_space_rev s
      else c # b # s)"
| "trim_right_space_rev (c # s) = (if ascii_space c then trim_right_space_rev s else c # s)"
| "trim_right_space_rev [] = []"

definition trim_space :: "string \<Rightarrow> string" where
  "trim_space s = rev (trim_right_space_rev (rev (trim_left_space s)))"

lemmas trim_space_eval [go_strings] =
  trim_space_def ascii_space_def space2_def space3_def

lemmas prefix_eval [go_strings] =
  has_prefix_def has_suffix_def cut_prefix_def trim_prefix_def trim_suffix_def
  trim_right_char_def contains_def rune_start_def

lemma length_trim_left_space: "length (trim_left_space s) \<le> length s"
  by (induction s rule: trim_left_space.induct) auto

lemma length_trim_right_space_rev: "length (trim_right_space_rev s) \<le> length s"
  by (induction s rule: trim_right_space_rev.induct) auto

lemma length_trim_space: "length (trim_space s) \<le> length s"
  using length_trim_left_space [of s]
    length_trim_right_space_rev [of "rev (trim_left_space s)"]
  by (simp add: trim_space_def)

lemma has_prefix_iff: "has_prefix s p \<longleftrightarrow> (\<exists>r. s = p @ r)"
proof
  assume "has_prefix s p"
  then have "s = p @ drop (length p) s"
    by (metis append_take_drop_id has_prefix_def)
  then show "\<exists>r. s = p @ r" by blast
next
  assume "\<exists>r. s = p @ r"
  then show "has_prefix s p" by (auto simp: has_prefix_def)
qed

lemma has_prefix_append [simp]: "has_prefix (p @ r) p"
  by (auto simp: has_prefix_iff)

lemma cut_Some: "cut s sep = Some (b, a) \<Longrightarrow> s = b @ sep @ a"
proof (induction s arbitrary: b)
  case Nil
  then show ?case by (simp split: if_splits)
next
  case (Cons c cs)
  show ?case
  proof (cases "has_prefix (c # cs) sep")
    case True
    with Cons.prems have b: "b = []" and a: "a = drop (length sep) (c # cs)" by simp_all
    from True have "take (length sep) (c # cs) = sep" by (simp add: has_prefix_def)
    then have "c # cs = sep @ drop (length sep) (c # cs)" by (metis append_take_drop_id)
    with a b show ?thesis by simp
  next
    case False
    with Cons.prems obtain b' where "cut cs sep = Some (b', a)" and "b = c # b'"
      by (auto split: prod.splits)
    with Cons.IH show ?thesis by simp
  qed
qed

subsection \<open>Decimal integers\<close>

definition digit_char :: "nat \<Rightarrow> char" where
  "digit_char d = ''0123456789'' ! d"

function show_nat :: "nat \<Rightarrow> string" where
  "show_nat n =
     (if n < 10 then [digit_char n] else show_nat (n div 10) @ [digit_char (n mod 10)])"
  by pat_completeness auto
termination
  by (relation "measure id") auto

declare show_nat.simps [simp del]

text \<open>\<open>strconv.Itoa\<close>, also the effect of \<open>fmt\<close>'s \<open>%d\<close>.\<close>

definition itoa :: "int \<Rightarrow> string" where
  "itoa n = (if n < 0 then CHR ''-'' # show_nat (nat (- n)) else show_nat (nat n))"

fun atoi_digits :: "nat \<Rightarrow> string \<Rightarrow> nat option" where
  "atoi_digits acc [] = Some acc"
| "atoi_digits acc (c # cs) =
     (if 48 \<le> byte c \<and> byte c \<le> 57 then atoi_digits (10 * acc + (byte c - 48)) cs else None)"

text \<open>
  \<open>strconv.Atoi\<close>: an optional sign and at least one digit, \<open>None\<close> for its error, a value
  outside the 64-bit range included.
\<close>

definition atoi :: "string \<Rightarrow> int option" where
  "atoi s =
     (let (neg, ds) =
        (case s of [] \<Rightarrow> (False, [])
         | c # cs \<Rightarrow> if c = CHR ''-'' then (True, cs) else if c = CHR ''+'' then (False, cs)
                    else (False, s))
      in if ds = [] then None
         else (case atoi_digits 0 ds of None \<Rightarrow> None
               | Some n \<Rightarrow> (let v = (if neg then - int n else int n)
                           in if in_int64 v then Some v else None)))"

lemma byte_digit_char: "d < 10 \<Longrightarrow> byte (digit_char d) = 48 + d"
proof -
  assume "d < 10"
  then have "d \<in> {0, 1, 2, 3, 4, 5, 6, 7, 8, 9}" by auto
  then show ?thesis by (auto simp: digit_char_def)
qed

lemma show_nat_not_Nil [simp]: "show_nat n \<noteq> []"
  by (subst show_nat.simps) simp

lemma atoi_digits_append:
  "atoi_digits acc (xs @ ys) = (case atoi_digits acc xs of None \<Rightarrow> None | Some a \<Rightarrow> atoi_digits a ys)"
  by (induction xs arbitrary: acc) auto

lemma atoi_digits_show_nat: "atoi_digits 0 (show_nat n) = Some n"
proof (induction n rule: show_nat.induct)
  case (1 n)
  show ?case
  proof (cases "n < 10")
    case True
    then show ?thesis by (subst show_nat.simps) (simp add: byte_digit_char)
  next
    case False
    with "1.IH" have "atoi_digits 0 (show_nat (n div 10)) = Some (n div 10)" by simp
    with False show ?thesis
      by (subst show_nat.simps) (simp add: atoi_digits_append byte_digit_char)
  qed
qed

lemma show_nat_inj: "show_nat m = show_nat n \<Longrightarrow> m = n"
  using atoi_digits_show_nat by (metis option.inject)

lemma show_nat_hd: "byte (hd (show_nat n)) \<in> {48..57}"
proof (induction n rule: show_nat.induct)
  case (1 n)
  show ?case
  proof (cases "n < 10")
    case True
    then show ?thesis by (subst show_nat.simps) (simp add: byte_digit_char)
  next
    case False
    with "1.IH" show ?thesis by (subst show_nat.simps) simp
  qed
qed

lemma show_nat_hd_not_sign: "hd (show_nat n) \<noteq> CHR ''-''" "hd (show_nat n) \<noteq> CHR ''+''"
  using show_nat_hd [of n] by auto

lemma itoa_inj: "itoa a = itoa b \<longleftrightarrow> a = b"
proof
  assume eq: "itoa a = itoa b"
  show "a = b"
  proof (cases "a < 0"; cases "b < 0")
    assume "a < 0" "b < 0"
    with eq show ?thesis by (auto simp: itoa_def dest!: show_nat_inj)
  next
    assume "a < 0" "\<not> b < 0"
    with eq have "hd (show_nat (nat b)) = CHR ''-''" by (simp add: itoa_def) (metis list.sel(1))
    then show ?thesis by (simp add: show_nat_hd_not_sign)
  next
    assume "\<not> a < 0" "b < 0"
    with eq have "hd (show_nat (nat a)) = CHR ''-''" by (simp add: itoa_def)
    then show ?thesis by (simp add: show_nat_hd_not_sign)
  next
    assume "\<not> a < 0" "\<not> b < 0"
    with eq show ?thesis by (auto simp: itoa_def dest!: show_nat_inj)
  qed
qed simp

lemma atoi_itoa: "in_int64 n \<Longrightarrow> atoi (itoa n) = Some n"
proof (cases "n < 0")
  case True
  moreover assume "in_int64 n"
  ultimately show ?thesis by (simp add: atoi_def itoa_def atoi_digits_show_nat)
next
  case False
  moreover assume "in_int64 n"
  moreover obtain c cs where "show_nat (nat n) = c # cs" and "c \<noteq> CHR ''-''" "c \<noteq> CHR ''+''"
    using show_nat_hd_not_sign [of "nat n"] by (cases "show_nat (nat n)") auto
  ultimately show ?thesis
    using atoi_digits_show_nat [of "nat n"] by (simp add: atoi_def itoa_def)
qed

subsection \<open>Decoded JSON\<close>

text \<open>
  \<open>JNum m e\<close> is the number \<open>m * 10 ^ e\<close>; every finite \<open>float64\<close> has this form.
\<close>

datatype json =
    JNull
  | JBool bool
  | JNum int int
  | JStr string
  | JArr "json list"
  | JObj "(string \<times> json) list"

type_synonym obj = "(string \<times> json) list"

text \<open>
  The two-result type assertions \<open>x, _ := v.(T)\<close>: the zero value of \<open>T\<close> on a mismatch,
  a nil map or slice being the empty one.
\<close>

fun as_str :: "json \<Rightarrow> string" where
  "as_str (JStr s) = s"
| "as_str _ = []"

fun as_bool :: "json \<Rightarrow> bool" where
  "as_bool (JBool b) = b"
| "as_bool _ = False"

fun as_arr :: "json \<Rightarrow> json list" where
  "as_arr (JArr xs) = xs"
| "as_arr _ = []"

fun as_obj :: "json \<Rightarrow> obj" where
  "as_obj (JObj m) = m"
| "as_obj _ = []"

fun is_str :: "json \<Rightarrow> bool" where
  "is_str (JStr _) = True"
| "is_str _ = False"

fun is_arr :: "json \<Rightarrow> bool" where
  "is_arr (JArr _) = True"
| "is_arr _ = False"

fun is_obj :: "json \<Rightarrow> bool" where
  "is_obj (JObj _) = True"
| "is_obj _ = False"

text \<open>The one-result index \<open>m[k]\<close>: nil for a missing key.\<close>

definition idx :: "obj \<Rightarrow> string \<Rightarrow> json" where
  "idx m k = (case map_of m k of None \<Rightarrow> JNull | Some v \<Rightarrow> v)"

definition obj_set :: "string \<Rightarrow> json \<Rightarrow> obj \<Rightarrow> obj" where
  "obj_set k v m = AList.update k v m"

lemma map_of_obj_set [simp, json_access]: "map_of (obj_set k v m) = (map_of m)(k \<mapsto> v)"
  by (simp add: obj_set_def update_conv')

lemma idx_obj_set [simp, json_access]: "idx (obj_set k v m) k' = (if k = k' then v else idx m k')"
  by (simp add: idx_def)

lemma idx_Nil [simp, json_access]: "idx [] k = JNull"
  by (simp add: idx_def)

lemma idx_Cons [simp, json_access]: "idx ((k, v) # m) k' = (if k = k' then v else idx m k')"
  by (simp add: idx_def)

lemma obj_set_Nil [json_access]: "obj_set k v [] = [(k, v)]"
  by (simp add: obj_set_def)

lemma obj_set_not_Nil [simp]: "obj_set k v m \<noteq> []"
  by (cases m) (auto simp: obj_set_def)

lemma distinct_obj_set: "distinct (map fst m) \<Longrightarrow> distinct (map fst (obj_set k v m))"
  by (simp add: obj_set_def distinct_update)

text \<open>An entry that is written only when there is a value for it.\<close>

definition obj_opt :: "string \<Rightarrow> json option \<Rightarrow> obj \<Rightarrow> obj" where
  "obj_opt k v m = (case v of None \<Rightarrow> m | Some x \<Rightarrow> obj_set k x m)"

lemma map_of_obj_opt [simp, json_access]:
  "map_of (obj_opt k v m) k' =
     (if k = k' then (case v of None \<Rightarrow> map_of m k' | Some x \<Rightarrow> Some x) else map_of m k')"
  by (simp add: obj_opt_def split: option.split)

lemma idx_obj_opt [simp, json_access]:
  "idx (obj_opt k v m) k' =
     (if k = k' then (case v of None \<Rightarrow> idx m k' | Some x \<Rightarrow> x) else idx m k')"
  by (simp add: idx_def split: option.split)

text \<open>
  \<open>int(n)\<close> of a \<open>float64\<close> drops the fraction. Where the integer does not fit, the Go
  specification leaves the result to the implementation: an unspecified 64-bit value.
\<close>

definition num_trunc :: "int \<Rightarrow> int \<Rightarrow> int" where
  "num_trunc m e = (if 0 \<le> e then m * 10 ^ nat e else sgn m * (\<bar>m\<bar> div 10 ^ nat (- e)))"

definition float_to_int :: "int \<Rightarrow> int \<Rightarrow> int" where
  "float_to_int m e =
     (let t = num_trunc m e in if in_int64 t then t else wrap64 (undefined m e))"

lemma float_to_int_range: "in_int64 (float_to_int m e)"
  by (simp add: float_to_int_def Let_def wrap64_range)

end
