(* ===== verification/Admin_Session.thy ===== *)
theory Admin_Session
  imports Go_Prelude
begin

section \<open>main.go and handlers.go: the admin session and the shape of an admin handler\<close>

text \<open>
  The session cookie's values, the queue of flash messages it carries as JSON text, and the
  result every admin handler ends in: a redirect with at most one flash. \<open>decode\<close> and
  \<open>encode\<close> are \<open>encoding/json\<close> on the flash list.
\<close>

record flash_msg =
  fm_category :: string
  fm_message :: string

record session =
  sn_admin :: bool
  sn_csrf :: string
  sn_flashes :: string
  sn_exported :: "int set" \<comment> \<open>the users whose \<open>exported_\<close> flag is set\<close>

definition queued :: "(string \<Rightarrow> flash_msg list option) \<Rightarrow> session \<Rightarrow> flash_msg list" where
  "queued decode s =
     (if sn_flashes s = [] then []
      else case decode (sn_flashes s) of None \<Rightarrow> [] | Some fs \<Rightarrow> fs)"

definition add_flash ::
  "(string \<Rightarrow> flash_msg list option) \<Rightarrow> (flash_msg list \<Rightarrow> string) \<Rightarrow> string \<Rightarrow> string \<Rightarrow> session \<Rightarrow> session" where
  "add_flash decode encode category msg s =
     s\<lparr>sn_flashes := encode (queued decode s @ [\<lparr>fm_category = category, fm_message = msg\<rparr>])\<rparr>"

definition consume_flashes ::
  "(string \<Rightarrow> flash_msg list option) \<Rightarrow> session \<Rightarrow> flash_msg list \<times> session" where
  "consume_flashes decode s =
     (if sn_flashes s = [] then ([], s) else (queued decode s, s\<lparr>sn_flashes := []\<rparr>))"

text \<open>A sequence of messages added between two page renders.\<close>

fun add_flashes ::
  "(string \<Rightarrow> flash_msg list option) \<Rightarrow> (flash_msg list \<Rightarrow> string) \<Rightarrow> flash_msg list \<Rightarrow> session \<Rightarrow> session" where
  "add_flashes decode encode [] s = s"
| "add_flashes decode encode (f # fs) s =
     add_flashes decode encode fs (add_flash decode encode (fm_category f) (fm_message f) s)"

text \<open>For a codec that reads back what it wrote, and never writes the empty text:\<close>

definition flash_codec ::
  "(string \<Rightarrow> flash_msg list option) \<Rightarrow> (flash_msg list \<Rightarrow> string) \<Rightarrow> bool" where
  "flash_codec decode encode \<longleftrightarrow> (\<forall>fs. decode (encode fs) = Some fs \<and> encode fs \<noteq> [])"

lemma queued_adds:
  "flash_codec decode encode \<Longrightarrow>
   queued decode (add_flashes decode encode fs s) = queued decode s @ fs"
  by (induction fs arbitrary: s) (simp_all add: flash_codec_def queued_def add_flash_def)

lemma consumed_once:
  assumes "consume_flashes decode s = (fs, s')"
  shows "fs = queued decode s" and "consume_flashes decode s' = ([], s')"
  using assms by (auto simp: consume_flashes_def queued_def split: if_splits)

text \<open>
  A codec that meets this, for the concrete runs below: every byte of the messages is kept,
  with the lengths in front.
\<close>

definition put_text :: "string \<Rightarrow> string" where
  "put_text t = replicate (length t) CHR ''1'' @ CHR '','' # t"

definition get_text :: "string \<Rightarrow> (string \<times> string) option" where
  "get_text s =
     (let n = length (takeWhile (\<lambda>c. c = CHR ''1'') s); r = drop (Suc n) s
      in if length s \<le> n \<or> length r < n then None else Some (take n r, drop n r))"

lemma takeWhile_replicate_sep:
  "a \<noteq> b \<Longrightarrow> takeWhile (\<lambda>c. c = a) (replicate n a @ b # r) = replicate n a"
  by (induction n) auto

lemma get_put: "get_text (put_text t @ r) = Some (t, r)"
proof -
  have "takeWhile (\<lambda>c. c = CHR ''1'') (put_text t @ r) = replicate (length t) CHR ''1''"
    by (simp add: put_text_def takeWhile_replicate_sep)
  moreover have "drop (Suc (length t)) (put_text t @ r) = t @ r" by (simp add: put_text_def)
  moreover have "length (put_text t @ r) = Suc (length t + length t + length r)" by (simp add: put_text_def)
  ultimately show ?thesis by (simp add: get_text_def Let_def)
qed

fun plain_encode :: "flash_msg list \<Rightarrow> string" where
  "plain_encode [] = ''.''"
| "plain_encode (f # fs) = CHR ''+'' # put_text (fm_category f) @ put_text (fm_message f) @ plain_encode fs"

lemma get_text_shorter: "get_text s = Some (t, r) \<Longrightarrow> length r < length s"
  by (auto simp: get_text_def Let_def split: if_splits)

function plain_decode :: "string \<Rightarrow> flash_msg list option" where
  "plain_decode s =
     (if s = ''.'' then Some []
      else case s of
        [] \<Rightarrow> None
      | c # cs \<Rightarrow>
          (case get_text cs of
             None \<Rightarrow> None
           | Some (cat, r) \<Rightarrow>
               (case get_text r of
                  None \<Rightarrow> None
                | Some (msg, r') \<Rightarrow>
                    map_option (\<lambda>fs. \<lparr>fm_category = cat, fm_message = msg\<rparr> # fs) (plain_decode r'))))"
  by pat_completeness auto
termination
  by (relation "measure length") (auto dest!: get_text_shorter)

declare plain_decode.simps [simp del]

lemma plain_codec: "flash_codec plain_decode plain_encode"
  unfolding flash_codec_def
proof (intro allI conjI)
  fix fs
  show "plain_decode (plain_encode fs) = Some fs"
  proof (induction fs)
    case Nil
    show ?case by (subst plain_decode.simps) simp
  next
    case (Cons f fs)
    then show ?case by (subst plain_decode.simps) (simp add: get_put)
  qed
  show "plain_encode fs \<noteq> []" by (cases fs) simp_all
qed

text \<open>
  Flash messages reach the next page once, in the order they were added, after those
  already queued; a queue that does not decode is dropped without losing the new messages;
  and the page after the next finds none.
\<close>

theorem flashes_shown_once:
  assumes "flash_codec decode encode"
  shows "let (shown, s1) = consume_flashes decode (add_flashes decode encode fs s)
         in shown = queued decode s @ fs \<and> consume_flashes decode s1 = ([], s1) \<and>
            sn_admin s1 = sn_admin s \<and> sn_csrf s1 = sn_csrf s"
proof -
  obtain shown s1 where c: "consume_flashes decode (add_flashes decode encode fs s) = (shown, s1)" by fastforce
  have "sn_admin (add_flashes decode encode fs s) = sn_admin s \<and> sn_csrf (add_flashes decode encode fs s) = sn_csrf s"
    by (induction fs arbitrary: s) (simp_all add: add_flash_def)
  with c have "sn_admin s1 = sn_admin s \<and> sn_csrf s1 = sn_csrf s"
    by (auto simp: consume_flashes_def split: if_splits)
  with c consumed_once [OF c] queued_adds [OF assms, of fs s] show ?thesis by simp
qed

lemma flashes_shown_once_witness:
  "fst (consume_flashes plain_decode (add_flashes plain_decode plain_encode
     [\<lparr>fm_category = ''info'', fm_message = ''a''\<rparr>] \<lparr>sn_admin = True, sn_csrf = [], sn_flashes = [], sn_exported = {}\<rparr>)) =
   [\<lparr>fm_category = ''info'', fm_message = ''a''\<rparr>]"
  using flashes_shown_once [OF plain_codec, of "[\<lparr>fm_category = ''info'', fm_message = ''a''\<rparr>]"
     "\<lparr>sn_admin = True, sn_csrf = [], sn_flashes = [], sn_exported = {}\<rparr>"]
  by (auto simp: queued_def case_prod_beta Let_def)

subsection \<open>Requests and replies\<close>

record admin_request =
  rq_admin :: bool \<comment> \<open>\<open>isAdminSession\<close>\<close>
  rq_form :: "(string \<Rightarrow> string) option" \<comment> \<open>\<open>FormValue\<close>; \<open>None\<close>: \<open>ParseForm\<close> failed\<close>

datatype reply = Redirect string "flash_msg option"

definition redirect :: "string \<Rightarrow> reply" where
  "redirect to = Redirect to None"

definition flash_to :: "string \<Rightarrow> string \<Rightarrow> string \<Rightarrow> reply" where
  "flash_to category msg to = Redirect to (Some \<lparr>fm_category = category, fm_message = msg\<rparr>)"

text \<open>The two guards every form handler starts with: the admin session, then the parse.\<close>

definition with_admin_form ::
  "admin_request \<Rightarrow> string \<Rightarrow> 's \<Rightarrow> ((string \<Rightarrow> string) \<Rightarrow> 's \<times> reply) \<Rightarrow> 's \<times> reply" where
  "with_admin_form rq back s body =
     (if \<not> rq_admin rq then (s, redirect ''/'')
      else case rq_form rq of
        None \<Rightarrow> (s, flash_to ''error'' ''Could not read the submitted form. Please try again.'' back)
      | Some f \<Rightarrow> body f)"

end
