(* ===== verification/Concurrency.thy ===== *)
theory Concurrency
  imports Go_Prelude
begin

section \<open>engine.go: the upstream concurrency limiter\<close>

text \<open>
  \<open>concurrencyLimiter\<close> is a buffered channel used as a semaphore: its capacity and how many
  tokens are in it. A \<open>select\<close> with both cases ready picks one at random: \<open>pick\<close> is that
  choice. The slot protocol of the API handlers (one release per successful acquire) is a
  step relation, and the locale \<open>slots\<close> states what its clients rely on.
\<close>

record limiter =
  lm_cap :: nat
  lm_used :: nat

definition new_limiter :: "int \<Rightarrow> limiter" where
  "new_limiter n = \<lparr>lm_cap = nat (if n \<le> 0 then 8 else n), lm_used = 0\<rparr>"

text \<open>\<open>None\<close>: neither case of the \<open>select\<close> is ready and the call blocks.\<close>

definition try_acquire :: "bool \<Rightarrow> bool \<Rightarrow> limiter \<Rightarrow> (limiter \<times> bool) option" where
  "try_acquire ctx_done pick l =
     (let slot = lm_used l < lm_cap l in
      if slot \<and> (\<not> ctx_done \<or> pick) then Some (l\<lparr>lm_used := lm_used l + 1\<rparr>, True)
      else if ctx_done then Some (l, False)
      else None)"

definition release :: "limiter \<Rightarrow> limiter" where
  "release l = (if 0 < lm_used l then l\<lparr>lm_used := lm_used l - 1\<rparr> else l)"

subsection \<open>The contract of a slot pool\<close>

text \<open>
  The runs of the requests that share a pool. A state is the pool and the ids of the requests
  holding a slot, one entry per slot taken.
\<close>

inductive slot_step ::
  "(bool \<Rightarrow> bool \<Rightarrow> 'l \<Rightarrow> ('l \<times> bool) option) \<Rightarrow> ('l \<Rightarrow> 'l) \<Rightarrow> 'l \<times> nat list \<Rightarrow> 'l \<times> nat list \<Rightarrow> bool"
  for acquire give_back where
  take_slot: "acquire d p l = Some (l', True) \<Longrightarrow> slot_step acquire give_back (l, hs) (l', i # hs)"
| refuse: "acquire d p l = Some (l', False) \<Longrightarrow> slot_step acquire give_back (l, hs) (l', hs)"
| finish: "i \<in> set hs \<Longrightarrow> slot_step acquire give_back (l, hs) (give_back l, remove1 i hs)"

inductive_cases slot_stepE: "slot_step acquire give_back (l, hs) s'"

locale slots =
  fixes acquire :: "bool \<Rightarrow> bool \<Rightarrow> 'l \<Rightarrow> ('l \<times> bool) option"
    and give_back :: "'l \<Rightarrow> 'l"
    and used :: "'l \<Rightarrow> nat"
    and capacity :: "'l \<Rightarrow> nat"
  assumes acquire_ok: "acquire d p l = Some (l', True) \<Longrightarrow> used l < capacity l \<and> used l' = Suc (used l) \<and> capacity l' = capacity l"
    and acquire_no: "acquire d p l = Some (l', False) \<Longrightarrow> l' = l \<and> d"
    and acquire_blocks: "acquire d p l = None \<Longrightarrow> capacity l \<le> used l \<and> \<not> d"
    and give_back_one: "0 < used l \<Longrightarrow> used (give_back l) = used l - 1 \<and> capacity (give_back l) = capacity l"
begin

lemma step_keeps:
  assumes "slot_step acquire give_back (l, hs) (l', hs')" and "used l = length hs" and "used l \<le> capacity l"
  shows "used l' = length hs' \<and> used l' \<le> capacity l' \<and> capacity l' = capacity l"
  using assms(1)
proof (rule slot_stepE)
  fix d p l1 i
  assume "(l', hs') = (l1, i # hs)" "acquire d p l = Some (l1, True)"
  with assms acquire_ok [of d p l l1] show ?thesis by auto
next
  fix d p l1
  assume "(l', hs') = (l1, hs)" "acquire d p l = Some (l1, False)"
  with assms acquire_no [of d p l l1] show ?thesis by auto
next
  fix i
  assume "(l', hs') = (give_back l, remove1 i hs)" "i \<in> set hs"
  moreover from this assms have "0 < used l" by (cases hs) auto
  ultimately show ?thesis using assms give_back_one [of l] by (auto simp: length_remove1)
qed

lemma reachable_keeps:
  assumes "(slot_step acquire give_back)\<^sup>*\<^sup>* (l, []) (l', hs)" and "used l = 0"
  shows "used l' = length hs \<and> length hs \<le> capacity l \<and> capacity l' = capacity l"
  using assms(1)
proof (induction "(l', hs)" arbitrary: l' hs rule: rtranclp_induct)
  case base
  then show ?case using assms(2) by simp
next
  case (step y)
  obtain l1 hs1 where "y = (l1, hs1)" by fastforce
  with step step_keeps show ?case by (metis le_trans order_refl)
qed

end

lemma try_acquire_cases:
  "try_acquire d p l = Some (l', b) \<longleftrightarrow>
     (if lm_used l < lm_cap l \<and> (\<not> d \<or> p) then l' = l\<lparr>lm_used := lm_used l + 1\<rparr> \<and> b
      else d \<and> l' = l \<and> \<not> b)"
  by (auto simp: try_acquire_def Let_def)

interpretation lm: slots try_acquire release lm_used lm_cap
  by unfold_locales
    (auto simp: try_acquire_cases release_def, auto simp: try_acquire_def Let_def split: if_splits)

text \<open>
  However acquires, refusals and releases interleave, the number of requests holding a
  slot of an engine is the number of tokens taken and never exceeds the configured limit
  (8 when the limit is not positive); an attempt blocks only while every slot is taken, and
  succeeds at once otherwise unless its context is already done.
\<close>

theorem inflight_bounded:
  assumes "(slot_step try_acquire release)\<^sup>*\<^sup>* (new_limiter n, []) (l, holders)"
  shows "lm_used l = length holders \<and> length holders \<le> (if n \<le> 0 then 8 else nat n) \<and>
    (try_acquire False pick l = None \<longleftrightarrow> length holders = (if n \<le> 0 then 8 else nat n))"
proof -
  have "lm_used l = length holders \<and> length holders \<le> lm_cap (new_limiter n) \<and>
      lm_cap l = lm_cap (new_limiter n)"
    using lm.reachable_keeps [OF assms] by (simp add: new_limiter_def)
  moreover have "lm_cap (new_limiter n) = (if n \<le> 0 then 8 else nat n)" by (simp add: new_limiter_def)
  ultimately show ?thesis by (auto simp: try_acquire_def Let_def)
qed

lemma inflight_bounded_witness:
  "length [7 :: nat] \<le> nat 2"
proof -
  have "slot_step try_acquire release (new_limiter 2, []) (\<lparr>lm_cap = 2, lm_used = 1\<rparr>, [7])"
    by (rule slot_step.take_slot [where d = False and p = False]) (simp add: new_limiter_def try_acquire_def Let_def)
  then have "(slot_step try_acquire release)\<^sup>*\<^sup>* (new_limiter 2, []) (\<lparr>lm_cap = 2, lm_used = 1\<rparr>, [7])" by simp
  from inflight_bounded [OF this] show ?thesis by simp
qed

end
