(* ===== verification/Engine_Config.thy ===== *)
theory Engine_Config
  imports Admin_Session Concurrency
begin

section \<open>engine.go and handlers.go: engine configurations, their store and their cache\<close>

text \<open>
  The engine list is one JSON value in the settings table; \<open>decode\<close> and \<open>encode\<close> are
  \<open>encoding/json\<close> on it. The cache is the snapshot behind \<open>engineCachePtr\<close>. A database call
  that can fail takes its outcome from \<open>faults\<close>. \<open>es_changes\<close> counts the calls of
  \<open>onEnginesChanged\<close>, whose effect is in the probe cache's theory.
\<close>

definition engine_ollama :: string where "engine_ollama = ''ollama''"
definition engine_openai_compat :: string where "engine_openai_compat = ''openai_compat''"

record engine_config =
  ec_id :: int
  ec_name :: string
  ec_type :: string
  ec_base_url :: string
  ec_port :: int
  ec_api_key :: string

subsection \<open>Endpoints\<close>

definition has_scheme :: "string \<Rightarrow> bool" where
  "has_scheme u \<longleftrightarrow> has_prefix u ''http://'' \<or> has_prefix u ''https://''"

definition with_scheme :: "string \<Rightarrow> string" where
  "with_scheme u = (if has_scheme u then u else ''http://'' @ u)"

text \<open>\<open>net.SplitHostPort\<close>, as far as its error is concerned.\<close>

definition last_colon :: "string \<Rightarrow> nat option" where
  "last_colon s =
     (if CHR '':'' \<in> set s
      then Some (length s - 1 - length (takeWhile (\<lambda>c. c \<noteq> CHR '':'') (rev s))) else None)"

definition split_host_port_ok :: "string \<Rightarrow> bool" where
  "split_host_port_ok s =
     (case last_colon s of
        None \<Rightarrow> False
      | Some i \<Rightarrow>
          if hd s = CHR ''['' then
            (let e = length (takeWhile (\<lambda>c. c \<noteq> CHR '']'') s) in
             e + 1 = i \<and> CHR ''['' \<notin> set (drop 1 s) \<and> CHR '']'' \<notin> set (drop (e + 1) s))
          else CHR '':'' \<notin> set (take i s) \<and> CHR ''['' \<notin> set s \<and> CHR '']'' \<notin> set s)"

definition strip_scheme :: "string \<Rightarrow> string" where
  "strip_scheme u = trim_prefix (trim_prefix u ''http://'') ''https://''"

definition ollama_endpoint :: "engine_config \<Rightarrow> string" where
  "ollama_endpoint cf =
     (let u = with_scheme (trim_right_char CHR ''/'' (trim_space (ec_base_url cf))) in
      if split_host_port_ok (strip_scheme u) then u
      else u @ '':'' @ itoa (if ec_port cf = 0 then 11434 else ec_port cf))"

definition upstream_url :: "engine_config \<Rightarrow> string \<Rightarrow> string" where
  "upstream_url cf path =
     (let u = trim_suffix (trim_right_char CHR ''/'' (with_scheme (trim_space (ec_base_url cf)))) ''/v1'' in
      if path = [] \<or> path = ''/'' then u
      else u @ (if has_prefix path ''/'' then path else ''/'' @ path))"

definition engine_base_url :: "engine_config \<Rightarrow> string" where
  "engine_base_url cf =
     (if ec_type cf = engine_ollama then ollama_endpoint cf
      else trim_right_char CHR ''/'' (upstream_url cf []))"

text \<open>The endpoint column of the dashboard.\<close>

definition engine_endpoint :: "engine_config \<Rightarrow> string" where
  "engine_endpoint cf =
     (if ec_type cf = engine_ollama then ollama_endpoint cf
      else trim_right_char CHR ''/'' (with_scheme (ec_base_url cf)))"

definition get_engine_urls :: "engine_config list \<Rightarrow> (string \<rightharpoonup> string)" where
  "get_engine_urls es = foldl (\<lambda>m e. m(itoa (ec_id e) \<mapsto> engine_endpoint e)) Map.empty es"

subsection \<open>Adapters, the store and the cache\<close>

record adapter =
  ad_cfg :: engine_config
  ad_limiter :: limiter

text \<open>\<open>None\<close>: the error for an unknown engine type.\<close>

definition new_engine :: "int \<Rightarrow> engine_config \<Rightarrow> adapter option" where
  "new_engine concurrency cf =
     (if ec_type cf = engine_ollama \<or> ec_type cf = engine_openai_compat
      then Some \<lparr>ad_cfg = cf, ad_limiter = new_limiter concurrency\<rparr> else None)"

record engine_cache =
  ch_engines :: "engine_config list"
  ch_adapters :: "int \<rightharpoonup> adapter"

record engine_store =
  es_row :: "string option" \<comment> \<open>the settings row \<open>engines\<close>\<close>
  es_cache :: "engine_cache option" \<comment> \<open>\<open>None\<close>: the pointer is nil\<close>
  es_changes :: nat

record db_faults =
  df_read :: bool
  df_write :: bool
  df_reload :: bool

definition get_engines ::
  "(string \<Rightarrow> engine_config list option) \<Rightarrow> bool \<Rightarrow> string option \<Rightarrow> engine_config list option" where
  "get_engines decode fault row =
     (if fault then None
      else case row of
        None \<Rightarrow> Some []
      | Some v \<Rightarrow> if v = [] then Some [] else decode v)"

fun adapters_of :: "int \<Rightarrow> engine_config list \<Rightarrow> (int \<rightharpoonup> adapter) \<Rightarrow> (int \<rightharpoonup> adapter)" where
  "adapters_of concurrency [] m = m"
| "adapters_of concurrency (e # es) m =
     adapters_of concurrency es
       (case new_engine concurrency e of None \<Rightarrow> m | Some a \<Rightarrow> m(ec_id e \<mapsto> a))"

definition reload_engine_cache ::
  "(string \<Rightarrow> engine_config list option) \<Rightarrow> int \<Rightarrow> bool \<Rightarrow> engine_store \<Rightarrow> engine_store \<times> bool" where
  "reload_engine_cache decode concurrency fault st =
     (case get_engines decode fault (es_row st) of
        None \<Rightarrow> (st\<lparr>es_cache := Some \<lparr>ch_engines = [], ch_adapters = Map.empty\<rparr>\<rparr>, False)
      | Some es \<Rightarrow>
          (st\<lparr>es_cache := Some \<lparr>ch_engines = es, ch_adapters = adapters_of concurrency es Map.empty\<rparr>\<rparr>, True))"

definition cached_engines :: "engine_store \<Rightarrow> engine_config list" where
  "cached_engines st = (case es_cache st of None \<Rightarrow> [] | Some c \<Rightarrow> ch_engines c)"

definition cached_adapter :: "engine_store \<Rightarrow> int \<Rightarrow> adapter option" where
  "cached_adapter st i = (case es_cache st of None \<Rightarrow> None | Some c \<Rightarrow> ch_adapters c i)"

definition cached_adapters_by_type :: "engine_store \<Rightarrow> string \<Rightarrow> adapter list" where
  "cached_adapters_by_type st t =
     (case es_cache st of
        None \<Rightarrow> []
      | Some c \<Rightarrow> List.map_filter (\<lambda>e. if ec_type e = t then ch_adapters c (ec_id e) else None) (ch_engines c))"

definition save_engines ::
  "(engine_config list \<Rightarrow> string) \<Rightarrow> (string \<Rightarrow> engine_config list option) \<Rightarrow> int \<Rightarrow> db_faults \<Rightarrow>
   engine_config list \<Rightarrow> engine_store \<Rightarrow> engine_store \<times> bool" where
  "save_engines encode decode concurrency faults es st =
     (if df_write faults then (st, False)
      else (let (st1, ok) = reload_engine_cache decode concurrency (df_reload faults)
                              (st\<lparr>es_row := Some (encode es)\<rparr>)
            in if ok then (st1\<lparr>es_changes := es_changes st1 + 1\<rparr>, True) else (st1, False)))"

definition find_ollama_engine :: "engine_store \<Rightarrow> int \<Rightarrow> engine_config option" where
  "find_ollama_engine st want =
     List.find (\<lambda>e. ec_type e = engine_ollama \<and> (want = 0 \<or> ec_id e = want)) (cached_engines st)"

subsection \<open>The engine form\<close>

datatype engine_fields = BadField string | Fields string string int

definition engine_form_fields :: "(string \<Rightarrow> string) \<Rightarrow> engine_fields" where
  "engine_form_fields f =
     (let ty = f ''engine_type''; url = trim_space (f ''base_url''); port = trim_space (f ''port'') in
      if ty \<noteq> engine_ollama \<and> ty \<noteq> engine_openai_compat then BadField ''Invalid engine type''
      else if url = [] then BadField ''Base URL is required''
      else if ty = engine_ollama then
        (if port = [] then BadField ''Port is required for Ollama engines''
         else case atoi port of
           None \<Rightarrow> BadField ''Port must be a number between 1 and 65535''
         | Some p \<Rightarrow> if p < 1 \<or> 65535 < p then BadField ''Port must be a number between 1 and 65535''
                    else Fields ty url p)
      else Fields ty url 11434)"

definition apply_engine_edit ::
  "string \<Rightarrow> string \<Rightarrow> string \<Rightarrow> int \<Rightarrow> string \<Rightarrow> engine_config \<Rightarrow> engine_config" where
  "apply_engine_edit ty name url port key e =
     (let e1 = e\<lparr>ec_type := ty, ec_base_url := url\<rparr>;
          e2 = (if name \<noteq> [] then e1\<lparr>ec_name := name\<rparr> else e1);
          e3 = (if key \<noteq> [] then e2\<lparr>ec_api_key := key\<rparr> else e2)
      in if ty = engine_ollama then e3\<lparr>ec_port := port, ec_api_key := []\<rparr>
         else if ty = engine_openai_compat then e3\<lparr>ec_port := 0\<rparr>
         else e3)"

text \<open>The loop that edits the first engine with the id; \<open>None\<close>: not found.\<close>

fun edit_first :: "int \<Rightarrow> (engine_config \<Rightarrow> engine_config) \<Rightarrow> engine_config list \<Rightarrow> engine_config list option" where
  "edit_first i g [] = None"
| "edit_first i g (e # es) =
     (if ec_id e = i then Some (g e # es) else map_option (\<lambda>r. e # r) (edit_first i g es))"

definition new_engine_id :: "engine_config list \<Rightarrow> int" where
  "new_engine_id es = foldl (\<lambda>n e. if n \<le> ec_id e then wrap64 (ec_id e + 1) else n) 1 es"

definition settings_page :: string where "settings_page = ''/admin/settings-page''"

definition flash_error :: "string \<Rightarrow> reply" where
  "flash_error msg = flash_to ''error'' msg settings_page"

definition handle_engine_settings ::
  "(engine_config list \<Rightarrow> string) \<Rightarrow> (string \<Rightarrow> engine_config list option) \<Rightarrow> int \<Rightarrow> db_faults \<Rightarrow>
   admin_request \<Rightarrow> engine_store \<Rightarrow> engine_store \<times> reply" where
  "handle_engine_settings encode decode concurrency faults rq st =
     with_admin_form rq settings_page st (\<lambda>f.
       let name = trim_space (f ''engine_name''); key = f ''api_key''; edit = f ''engine_id'' in
       case engine_form_fields f of
         BadField msg \<Rightarrow> (st, flash_error msg)
       | Fields ty url port \<Rightarrow>
           if edit \<noteq> [] \<and> atoi edit = None then (st, flash_error ''Invalid engine ID'')
           else case get_engines decode (df_read faults) (es_row st) of
             None \<Rightarrow> (st, flash_error ''Could not read the current engine list; nothing was changed'')
           | Some es \<Rightarrow>
               let edited =
                 (if edit \<noteq> [] then
                    (case edit_first (the (atoi edit)) (apply_engine_edit ty name url port key) es of
                       None \<Rightarrow> Inl ''Engine not found'' | Some es' \<Rightarrow> Inr es')
                  else if name = [] then Inl ''Engine name is required''
                  else Inr (es @ [\<lparr>ec_id = new_engine_id es, ec_name = name, ec_type = ty, ec_base_url = url,
                                  ec_port = (if ty = engine_ollama then port else 0),
                                  ec_api_key = (if ty = engine_ollama then [] else key)\<rparr>]))
               in case edited of
                 Inl msg \<Rightarrow> (st, flash_error msg)
               | Inr es' \<Rightarrow>
                   let (st', ok) = save_engines encode decode concurrency faults es' st in
                   if \<not> ok then (st', flash_error ''Failed to save engine config'')
                   else (st', flash_to ''success''
                           (''Engine '' @ (if edit \<noteq> [] then ''updated'' else ''created'')) settings_page))"

definition handle_remove_engine ::
  "(engine_config list \<Rightarrow> string) \<Rightarrow> (string \<Rightarrow> engine_config list option) \<Rightarrow> int \<Rightarrow> db_faults \<Rightarrow>
   admin_request \<Rightarrow> engine_store \<Rightarrow> engine_store \<times> reply" where
  "handle_remove_engine encode decode concurrency faults rq st =
     with_admin_form rq settings_page st (\<lambda>f.
       let edit = f ''engine_id'' in
       if edit = [] then (st, flash_error ''Engine ID required'')
       else case atoi edit of
         None \<Rightarrow> (st, flash_error ''Invalid engine ID'')
       | Some i \<Rightarrow>
           (case get_engines decode (df_read faults) (es_row st) of
              None \<Rightarrow> (st, flash_error ''Could not read the current engine list; nothing was changed'')
            | Some es \<Rightarrow>
                let filtered = filter (\<lambda>e. ec_id e \<noteq> i) es in
                if length filtered = length es then (st, flash_error ''Engine not found'')
                else let (st', ok) = save_engines encode decode concurrency faults filtered st in
                  if \<not> ok then (st', flash_error ''Failed to remove engine'')
                  else (st', flash_to ''success'' ''Engine removed'' settings_page)))"

subsection \<open>The list after an edit\<close>

definition wf_engines :: "engine_config list \<Rightarrow> bool" where
  "wf_engines es \<longleftrightarrow> distinct (map ec_id es) \<and> list_all (\<lambda>e. 0 < ec_id e \<and> ec_id e < 2 ^ 63 - 1) es"

lemma edit_first_Some:
  assumes "edit_first i g es = Some es'"
  obtains pre e post where "es = pre @ e # post" "es' = pre @ g e # post" "ec_id e = i"
proof -
  have "\<exists>pre e post. es = pre @ e # post \<and> es' = pre @ g e # post \<and> ec_id e = i"
    using assms
  proof (induction es arbitrary: es')
    case Nil
    then show ?case by simp
  next
    case (Cons a es)
    show ?case
    proof (cases "ec_id a = i")
      case True
      with Cons.prems have "a # es = [] @ a # es \<and> es' = [] @ g a # es" by simp
      with True show ?thesis by blast
    next
      case False
      with Cons.prems obtain r where "edit_first i g es = Some r" "es' = a # r" by auto
      with Cons.IH obtain pre e post where "es = pre @ e # post" "r = pre @ g e # post" "ec_id e = i" by blast
      then have "a # es = (a # pre) @ e # post \<and> es' = (a # pre) @ g e # post \<and> ec_id e = i"
        using \<open>es' = a # r\<close> by simp
      then show ?thesis by blast
    qed
  qed
  then show thesis using that by blast
qed

lemma edit_first_None: "edit_first i g es = None \<longleftrightarrow> i \<notin> ec_id ` set es"
  by (induction es) auto

lemma new_engine_id_above:
  assumes "list_all (\<lambda>e. 0 < ec_id e \<and> ec_id e < 2 ^ 63 - 1) es"
  shows "1 \<le> new_engine_id es \<and> (\<forall>e \<in> set es. ec_id e < new_engine_id es)"
proof -
  let ?f = "\<lambda>n e. if n \<le> ec_id e then wrap64 (ec_id e + 1) else n"
  have "1 \<le> n \<Longrightarrow> list_all (\<lambda>e. 0 < ec_id e \<and> ec_id e < 2 ^ 63 - 1) es \<Longrightarrow>
      n \<le> foldl ?f n es \<and> (\<forall>e \<in> set es. ec_id e < foldl ?f n es)" for n
  proof (induction es arbitrary: n)
    case Nil
    then show ?case by simp
  next
    case (Cons e es)
    have "wrap64 (ec_id e + 1) = ec_id e + 1"
      using Cons.prems by (intro wrap64_id) (simp add: in_int64_def)
    then have step: "n \<le> ?f n e" "ec_id e < ?f n e" "1 \<le> ?f n e" using Cons.prems by auto
    with Cons have rest: "?f n e \<le> foldl ?f (?f n e) es" "\<forall>x \<in> set es. ec_id x < foldl ?f (?f n e) es"
      by (simp_all del: if_split)
    have fold: "foldl ?f n (e # es) = foldl ?f (?f n e) es" by (simp del: if_split)
    have "ec_id x < foldl ?f (?f n e) es" if "x \<in> set (e # es)" for x
      using that step(2) rest by (cases "x = e") (simp_all del: if_split)
    then show ?case unfolding fold using step(1) rest(1) by (blast intro: order_trans)
  qed
  from this [of 1] assms show ?thesis by (simp add: new_engine_id_def)
qed

lemma apply_engine_edit_id [simp]: "ec_id (apply_engine_edit ty name url port key e) = ec_id e"
  by (simp add: apply_engine_edit_def Let_def)

lemma save_engines_outcome:
  assumes "save_engines encode decode concurrency faults es st = (st', ok)"
  shows "(st' = st \<and> \<not> ok) \<or>
    (es_row st' = Some (encode es) \<and>
     (if ok then es_changes st' = es_changes st + 1 \<and>
        es_cache st' = map_option (\<lambda>es. \<lparr>ch_engines = es, ch_adapters = adapters_of concurrency es Map.empty\<rparr>)
          (get_engines decode (df_reload faults) (es_row st')) \<and> es_cache st' \<noteq> None
      else get_engines decode (df_reload faults) (es_row st') = None \<and> cached_engines st' = [] \<and>
        es_changes st' = es_changes st))"
  using assms
  by (auto simp: save_engines_def reload_engine_cache_def cached_engines_def Let_def split: if_splits option.splits)

text \<open>The cases in which the settings handler gets as far as saving.\<close>

lemma engine_settings_cases:
  assumes "handle_engine_settings encode decode concurrency faults rq st = (st', r)"
  shows "(st' = st \<and> (\<forall>m. r \<noteq> Redirect settings_page (Some \<lparr>fm_category = ''success'', fm_message = m\<rparr>))) \<or>
    (\<exists>f ty url port es es' ok.
       rq_admin rq \<and> rq_form rq = Some f \<and> engine_form_fields f = Fields ty url port \<and>
       get_engines decode (df_read faults) (es_row st) = Some es \<and>
       (if f ''engine_id'' \<noteq> []
        then \<exists>i. atoi (f ''engine_id'') = Some i \<and>
               edit_first i (apply_engine_edit ty (trim_space (f ''engine_name'')) url port (f ''api_key'')) es = Some es'
        else trim_space (f ''engine_name'') \<noteq> [] \<and>
             es' = es @ [\<lparr>ec_id = new_engine_id es, ec_name = trim_space (f ''engine_name''), ec_type = ty,
                ec_base_url = url, ec_port = (if ty = engine_ollama then port else 0),
                ec_api_key = (if ty = engine_ollama then [] else f ''api_key'')\<rparr>]) \<and>
       save_engines encode decode concurrency faults es' st = (st', ok) \<and>
       (ok \<longleftrightarrow> (\<exists>m. r = Redirect settings_page (Some \<lparr>fm_category = ''success'', fm_message = m\<rparr>))))"
proof (cases "rq_admin rq \<and> (\<exists>f. rq_form rq = Some f)")
  case False
  with assms show ?thesis
    by (auto simp: handle_engine_settings_def with_admin_form_def redirect_def flash_to_def split: option.splits if_splits)
next
  case True
  then obtain f where f: "rq_admin rq" "rq_form rq = Some f" by blast
  show ?thesis
  proof (cases "engine_form_fields f")
    case (BadField msg)
    with f assms show ?thesis
      by (auto simp: handle_engine_settings_def with_admin_form_def flash_error_def flash_to_def Let_def)
  next
    case (Fields ty url port)
    show ?thesis
    proof (cases "(f ''engine_id'' \<noteq> [] \<and> atoi (f ''engine_id'') = None) \<or>
        get_engines decode (df_read faults) (es_row st) = None")
      case True
      with f Fields assms show ?thesis
        by (auto simp: handle_engine_settings_def with_admin_form_def flash_error_def flash_to_def Let_def
            split: if_splits)
    next
      case False
      then obtain es where es: "get_engines decode (df_read faults) (es_row st) = Some es" by auto
      note eval = handle_engine_settings_def with_admin_form_def flash_error_def flash_to_def Let_def
      show ?thesis
      proof (cases "f ''engine_id'' = []")
        case True
        with f Fields es assms show ?thesis
          by (cases "trim_space (f ''engine_name'') = []") (auto simp: eval split: prod.splits if_splits)
      next
        case id: False
        with False obtain i where i: "atoi (f ''engine_id'') = Some i" by auto
        show ?thesis
          by (cases "edit_first i (apply_engine_edit ty (trim_space (f ''engine_name'')) url port (f ''api_key'')) es")
            (use f Fields es assms id i in \<open>auto simp: eval split: prod.splits if_splits\<close>)
      qed
    qed
  qed
qed

lemma edited_engine:
  assumes "edit_first i (apply_engine_edit ty name url port key) es = Some es'" and "wf_engines es"
    and "ty = engine_ollama \<or> ty = engine_openai_compat"
  shows "distinct (map ec_id es') \<and>
    (\<exists>pre e e' post. es = pre @ e # post \<and> es' = pre @ e' # post \<and> ec_id e' = ec_id e \<and> i = ec_id e \<and>
       (name = [] \<longrightarrow> ec_name e' = ec_name e) \<and>
       ec_api_key e' = (if ec_type e' = engine_ollama then [] else if key = [] then ec_api_key e else key))"
proof -
  obtain pre e post where e: "es = pre @ e # post" "ec_id e = i" "es' = pre @ apply_engine_edit ty name url port key e # post"
    using edit_first_Some [OF assms(1)] by blast
  let ?e = "apply_engine_edit ty name url port key e"
  have "name = [] \<longrightarrow> ec_name ?e = ec_name e"
      "ec_api_key ?e = (if ec_type ?e = engine_ollama then [] else if key = [] then ec_api_key e else key)"
    using assms(3) by (auto simp: apply_engine_edit_def Let_def engine_ollama_def engine_openai_compat_def)
  with e assms(2) show ?thesis
    by (intro conjI exI [of _ pre] exI [of _ e] exI [of _ ?e] exI [of _ post]) (simp_all add: wf_engines_def)
qed

text \<open>
  C39. When the admin form reports success, the list that was stored is well formed whenever
  the old one was: a new engine has an id no other has; an edit changes the engine with the
  submitted id and no other, keeps its id, keeps its name where the name was left blank,
  keeps its API key where the key was left blank, and clears the key of an Ollama engine.
\<close>

theorem engine_settings_saves:
  assumes "wf_engines es" and "get_engines decode (df_read faults) (es_row st) = Some es"
    and "rq_form rq = Some f"
    and "handle_engine_settings encode decode concurrency faults rq st =
      (st', Redirect settings_page (Some \<lparr>fm_category = ''success'', fm_message = m\<rparr>))"
  shows "rq_admin rq \<and> (\<exists>es'. es_row st' = Some (encode es') \<and> distinct (map ec_id es') \<and>
    es_changes st' = es_changes st + 1 \<and>
    (if f ''engine_id'' = []
     then \<exists>e. es' = es @ [e] \<and> ec_id e \<notin> ec_id ` set es \<and> ec_name e \<noteq> [] \<and>
            (ec_type e = engine_ollama \<longrightarrow> ec_api_key e = [])
     else \<exists>pre e e' post. es = pre @ e # post \<and> es' = pre @ e' # post \<and> ec_id e' = ec_id e \<and>
            atoi (f ''engine_id'') = Some (ec_id e) \<and>
            (trim_space (f ''engine_name'') = [] \<longrightarrow> ec_name e' = ec_name e) \<and>
            ec_api_key e' = (if ec_type e' = engine_ollama then []
                             else if f ''api_key'' = [] then ec_api_key e else f ''api_key'')))"
proof -
  from engine_settings_cases [OF assms(4)] assms(2,3) obtain ty url port es' where
      adm: "rq_admin rq" and fields: "engine_form_fields f = Fields ty url port"
    and ed: "if f ''engine_id'' \<noteq> []
        then \<exists>i. atoi (f ''engine_id'') = Some i \<and>
               edit_first i (apply_engine_edit ty (trim_space (f ''engine_name'')) url port (f ''api_key'')) es = Some es'
        else trim_space (f ''engine_name'') \<noteq> [] \<and>
             es' = es @ [\<lparr>ec_id = new_engine_id es, ec_name = trim_space (f ''engine_name''), ec_type = ty,
                ec_base_url = url, ec_port = (if ty = engine_ollama then port else 0),
                ec_api_key = (if ty = engine_ollama then [] else f ''api_key'')\<rparr>]"
    and sv: "save_engines encode decode concurrency faults es' st = (st', True)"
    by auto
  from save_engines_outcome [OF sv] have row: "es_row st' = Some (encode es')" "es_changes st' = es_changes st + 1"
    by simp_all
  have ty: "ty = engine_ollama \<or> ty = engine_openai_compat"
    using fields by (auto simp: engine_form_fields_def Let_def split: if_splits option.splits)
  show ?thesis
  proof (cases "f ''engine_id'' = []")
    case True
    have above: "\<forall>e \<in> set es. ec_id e < new_engine_id es"
      using new_engine_id_above [of es] assms(1) by (simp add: wf_engines_def)
    then have "distinct (map ec_id es') \<and> new_engine_id es \<notin> ec_id ` set es"
      using True ed assms(1) by (auto simp: wf_engines_def)
    with True ed row show ?thesis
      by (intro conjI adm exI [of _ es']) (simp_all split: if_splits)
  next
    case False
    with ed obtain i where "atoi (f ''engine_id'') = Some i"
      "edit_first i (apply_engine_edit ty (trim_space (f ''engine_name'')) url port (f ''api_key'')) es = Some es'" by auto
    with edited_engine [OF this(2) assms(1) ty] False row show ?thesis
      by (intro conjI adm exI [of _ es']) auto
  qed
qed

text \<open>
  When the form does not report success, either nothing changed at all, or the new list
  was stored but reading it back failed: then the cache is empty until the next reload, although
  the message says that saving failed.
\<close>

theorem engine_settings_failure:
  assumes "handle_engine_settings encode decode concurrency faults rq st = (st', r)"
    and "\<And>m. r \<noteq> Redirect settings_page (Some \<lparr>fm_category = ''success'', fm_message = m\<rparr>)"
  shows "st' = st \<or>
    (\<exists>es. es_row st' = Some (encode es) \<and> get_engines decode (df_reload faults) (es_row st') = None \<and>
       cached_engines st' = [] \<and> es_changes st' = es_changes st)"
  using engine_settings_cases [OF assms(1)] assms(2) save_engines_outcome
  by (elim disjE) (simp, fastforce)

subsection \<open>Cache, removal and lookup\<close>

lemma adapters_of_lookup:
  "distinct (map ec_id es) \<Longrightarrow> e \<in> set es \<Longrightarrow>
   adapters_of n es m (ec_id e) = (case new_engine n e of None \<Rightarrow> m (ec_id e) | Some a \<Rightarrow> Some a)"
proof (induction es arbitrary: m)
  case Nil
  then show ?case by simp
next
  case (Cons a es)
  have other: "i \<notin> ec_id ` set es \<Longrightarrow> adapters_of n es m i = m i" for i m
    by (induction es arbitrary: m) (auto split: option.split)
  have "e \<in> set es \<Longrightarrow> ec_id e \<noteq> ec_id a" using Cons.prems(1) by (metis distinct.simps(2) image_eqI list.map(2) set_map)
  then show ?case using Cons other [of "ec_id a"] by (auto split: option.split)
qed

text \<open>
  After a save that succeeded and reads back, the snapshot requests use is exactly the
  saved list, and every engine of a known type has an adapter on its own configuration
  with all its slots free.
\<close>

theorem saved_engines_are_cached:
  assumes "save_engines encode decode concurrency faults es st = (st', True)"
    and "encode es \<noteq> []" and "decode (encode es) = Some es" and "distinct (map ec_id es)"
    and "e \<in> set es" and "ec_type e = engine_ollama \<or> ec_type e = engine_openai_compat"
  shows "cached_engines st' = es \<and>
    cached_adapter st' (ec_id e) = Some \<lparr>ad_cfg = e, ad_limiter = new_limiter concurrency\<rparr>"
proof -
  have "new_engine concurrency e = Some \<lparr>ad_cfg = e, ad_limiter = new_limiter concurrency\<rparr>"
    using assms(6) by (simp add: new_engine_def)
  moreover from assms(1-3) have
    "es_cache st' = Some \<lparr>ch_engines = es, ch_adapters = adapters_of concurrency es Map.empty\<rparr>"
    using save_engines_outcome [OF assms(1)] by (auto simp: get_engines_def split: if_splits)
  ultimately show ?thesis
    using adapters_of_lookup [OF assms(4,5)] by (simp add: cached_engines_def cached_adapter_def)
qed

text \<open>
  An admin action aimed at an engine id never reaches another engine: a non-zero id
  resolves to an Ollama engine with that id or to none at all, and 0 to the first Ollama
  engine.
\<close>

theorem find_ollama_engine_exact:
  "(want \<noteq> 0 \<longrightarrow> (case find_ollama_engine st want of
      None \<Rightarrow> list_all (\<lambda>e. ec_id e = want \<longrightarrow> ec_type e \<noteq> engine_ollama) (cached_engines st)
    | Some e \<Rightarrow> ec_id e = want \<and> ec_type e = engine_ollama \<and> e \<in> set (cached_engines st))) \<and>
   find_ollama_engine st 0 = List.find (\<lambda>e. ec_type e = engine_ollama) (cached_engines st)"
proof -
  have "find_ollama_engine st want = None \<longleftrightarrow>
      (\<forall>e \<in> set (cached_engines st). \<not> (ec_type e = engine_ollama \<and> (want = 0 \<or> ec_id e = want)))"
    by (auto simp: find_ollama_engine_def find_None_iff)
  moreover have "find_ollama_engine st want = Some e \<Longrightarrow>
      ec_type e = engine_ollama \<and> (want = 0 \<or> ec_id e = want) \<and> e \<in> set (cached_engines st)" for e
    by (auto simp: find_ollama_engine_def find_Some_iff)
  moreover have "find_ollama_engine st 0 = List.find (\<lambda>e. ec_type e = engine_ollama) (cached_engines st)"
    by (simp add: find_ollama_engine_def)
  ultimately show ?thesis
    by (cases "find_ollama_engine st want") (auto simp: list_all_iff)
qed

lemma find_ollama_engine_exact_witness:
  "case find_ollama_engine \<lparr>es_row = None, es_cache = None, es_changes = 0\<rparr> 3 of
     None \<Rightarrow> True | Some e \<Rightarrow> ec_id e = 3"
  using find_ollama_engine_exact [of 3 "\<lparr>es_row = None, es_cache = None, es_changes = 0\<rparr>"]
  by (simp split: option.splits)

subsection \<open>Concrete runs\<close>

definition sample_form :: "string \<Rightarrow> string" where
  "sample_form k =
     (if k = ''engine_type'' then ''openai_compat'' else if k = ''engine_name'' then ''box''
      else if k = ''base_url'' then ''h'' else [])"

definition sample_store :: engine_store where
  "sample_store = \<lparr>es_row = None, es_cache = None, es_changes = 0\<rparr>"

definition sample_engine :: engine_config where
  "sample_engine = \<lparr>ec_id = 1, ec_name = ''box'', ec_type = ''openai_compat'', ec_base_url = ''h'',
                    ec_port = 0, ec_api_key = []\<rparr>"

lemma sample_settings:
  "handle_engine_settings (\<lambda>_. ''x'') decode 4 \<lparr>df_read = False, df_write = w, df_reload = r\<rparr>
     \<lparr>rq_admin = True, rq_form = Some sample_form\<rparr> sample_store =
   (let (st, ok) = save_engines (\<lambda>_. ''x'') decode 4 \<lparr>df_read = False, df_write = w, df_reload = r\<rparr>
                     [sample_engine] sample_store
    in (st, if ok then Redirect settings_page (Some \<lparr>fm_category = ''success'', fm_message = ''Engine created''\<rparr>)
            else Redirect settings_page (Some \<lparr>fm_category = ''error'', fm_message = ''Failed to save engine config''\<rparr>)))"
  by (simp add: handle_engine_settings_def with_admin_form_def engine_form_fields_def sample_form_def
      engine_ollama_def engine_openai_compat_def trim_space_eval sample_store_def get_engines_def
      new_engine_id_def flash_error_def flash_to_def sample_engine_def Let_def case_prod_beta)

lemma engine_settings_saves_witness:
  "es_changes (fst (handle_engine_settings (\<lambda>_. ''x'') (\<lambda>_. Some []) 4
       \<lparr>df_read = False, df_write = False, df_reload = False\<rparr>
       \<lparr>rq_admin = True, rq_form = Some sample_form\<rparr> sample_store)) = 1"
proof -
  let ?faults = "\<lparr>df_read = False, df_write = False, df_reload = False\<rparr>"
  let ?rq = "\<lparr>rq_admin = True, rq_form = Some sample_form\<rparr>"
  obtain st' where st': "handle_engine_settings (\<lambda>_. ''x'') (\<lambda>_. Some []) 4 ?faults ?rq sample_store =
      (st', Redirect settings_page (Some \<lparr>fm_category = ''success'', fm_message = ''Engine created''\<rparr>))"
    unfolding sample_settings
    by (simp add: save_engines_def reload_engine_cache_def get_engines_def Let_def)
  have "get_engines (\<lambda>_. Some []) (df_read ?faults) (es_row sample_store) = Some []"
    by (simp add: get_engines_def sample_store_def)
  from engine_settings_saves [OF _ this _ st', of sample_form] st' show ?thesis
    by (auto simp: wf_engines_def sample_store_def)
qed

lemma engine_settings_failure_witness:
  "cached_engines (fst (handle_engine_settings (\<lambda>_. ''x'') (\<lambda>_. Some []) 4
       \<lparr>df_read = False, df_write = False, df_reload = True\<rparr>
       \<lparr>rq_admin = True, rq_form = Some sample_form\<rparr> sample_store)) = []"
proof -
  let ?faults = "\<lparr>df_read = False, df_write = False, df_reload = True\<rparr>"
  let ?rq = "\<lparr>rq_admin = True, rq_form = Some sample_form\<rparr>"
  obtain st' where st': "handle_engine_settings (\<lambda>_. ''x'') (\<lambda>_. Some []) 4 ?faults ?rq sample_store =
      (st', Redirect settings_page (Some \<lparr>fm_category = ''error'', fm_message = ''Failed to save engine config''\<rparr>))"
    and "es_row st' = Some ''x''"
    unfolding sample_settings
    by (simp add: save_engines_def reload_engine_cache_def get_engines_def Let_def)
  moreover have "es_row sample_store = None" by (simp add: sample_store_def)
  ultimately show ?thesis using engine_settings_failure [OF st'] st' by auto
qed

lemma saved_engines_are_cached_witness:
  "cached_adapter (fst (save_engines (\<lambda>_. ''x'') (\<lambda>_. Some [sample_engine]) 4
      \<lparr>df_read = False, df_write = False, df_reload = False\<rparr> [sample_engine] sample_store)) 1 =
   Some \<lparr>ad_cfg = sample_engine, ad_limiter = new_limiter 4\<rparr>"
proof -
  obtain st' where st': "save_engines (\<lambda>_. ''x'') (\<lambda>_. Some [sample_engine]) 4
      \<lparr>df_read = False, df_write = False, df_reload = False\<rparr> [sample_engine] sample_store = (st', True)"
    by (simp add: save_engines_def reload_engine_cache_def get_engines_def Let_def)
  from saved_engines_are_cached [OF st', of sample_engine] st' show ?thesis
    by (simp add: sample_engine_def engine_openai_compat_def)
qed

subsection \<open>URLs\<close>

definition host_char :: "char \<Rightarrow> bool" where
  "host_char c \<longleftrightarrow> 33 \<le> byte c \<and> byte c < 127 \<and> c \<notin> {CHR '':'', CHR ''/'', CHR ''['', CHR '']''}"

lemma trim_left_space_id:
  "s = [] \<or> (33 \<le> byte (hd s) \<and> byte (hd s) < 128) \<Longrightarrow> trim_left_space s = s"
  by (cases s rule: trim_left_space.cases) (auto simp: ascii_space_def space2_def space3_def)

lemma trim_right_space_rev_id:
  "s = [] \<or> (33 \<le> byte (hd s) \<and> byte (hd s) < 128) \<Longrightarrow> trim_right_space_rev s = s"
  by (cases s rule: trim_right_space_rev.cases) (auto simp: ascii_space_def space2_def space3_def)

lemma trim_space_id:
  assumes "s = [] \<or> (33 \<le> byte (hd s) \<and> byte (hd s) < 128 \<and> 33 \<le> byte (last s) \<and> byte (last s) < 128)"
  shows "trim_space s = s"
proof -
  have "trim_left_space s = s" using assms by (intro trim_left_space_id) auto
  moreover have "trim_right_space_rev (rev s) = rev s"
    using assms by (intro trim_right_space_rev_id) (auto simp: hd_rev)
  ultimately show ?thesis by (simp add: trim_space_def)
qed

lemma trim_right_char_id: "s = [] \<or> last s \<noteq> c \<Longrightarrow> trim_right_char c s = s"
  by (cases s rule: rev_cases) (auto simp: trim_right_char_def)

lemma trim_right_char_replicate: "trim_right_char c (s @ replicate n c) = trim_right_char c s"
proof -
  have "dropWhile (\<lambda>x. x = c) (replicate n c @ r) = dropWhile (\<lambda>x. x = c) r" for r
    by (induction n) simp_all
  then show ?thesis by (simp add: trim_right_char_def)
qed

lemma no_colon_no_scheme: "CHR '':'' \<notin> set s \<Longrightarrow> \<not> has_prefix s ''http://'' \<and> \<not> has_prefix s ''https://''"
  by (auto simp: has_prefix_iff)

lemma first_sep_unique:
  "c \<notin> set a \<Longrightarrow> c \<notin> set b \<Longrightarrow> a @ c # x = b @ c # y \<Longrightarrow> a = b \<and> x = y"
proof (induction a arbitrary: b)
  case Nil
  then show ?case by (cases b) auto
next
  case (Cons d a)
  then show ?case by (cases b) auto
qed

lemma host_no_scheme:
  assumes "list_all host_char h" and "\<not> has_prefix p ''//''"
  shows "\<not> has_prefix (h @ CHR '':'' # p) ''http://'' \<and> \<not> has_prefix (h @ CHR '':'' # p) ''https://''"
proof -
  have h: "CHR '':'' \<notin> set h" using assms(1) by (auto simp: list_all_iff host_char_def)
  have split: "h @ CHR '':'' # p = a @ CHR '':'' # b \<Longrightarrow> CHR '':'' \<notin> set a \<Longrightarrow> p = b" for a b
    using first_sep_unique [OF h, of a p b] by blast
  have "h @ CHR '':'' # p \<noteq> ''http://'' @ r" for r
  proof
    assume "h @ CHR '':'' # p = ''http://'' @ r"
    then have "p = ''//'' @ r" by (intro split [of "''http''"]) simp_all
    with assms(2) show False by (auto simp: has_prefix_iff)
  qed
  moreover have "h @ CHR '':'' # p \<noteq> ''https://'' @ r" for r
  proof
    assume "h @ CHR '':'' # p = ''https://'' @ r"
    then have "p = ''//'' @ r" by (intro split [of "''https''"]) simp_all
    with assms(2) show False by (auto simp: has_prefix_iff)
  qed
  ultimately show ?thesis by (simp only: has_prefix_iff not_ex) blast
qed

lemma last_colon_host:
  "CHR '':'' \<notin> set p \<Longrightarrow> last_colon (h @ CHR '':'' # p) = Some (length h)"
proof -
  assume "CHR '':'' \<notin> set p"
  then have "takeWhile (\<lambda>c. c \<noteq> CHR '':'') (rev p @ CHR '':'' # rev h) = rev p"
    by (subst takeWhile_append2) auto
  then show ?thesis by (simp add: last_colon_def)
qed

lemma strip_scheme_cases:
  "\<not> has_prefix x ''https://'' \<Longrightarrow> strip_scheme (''http://'' @ x) = x"
  "\<not> has_prefix x ''http://'' \<Longrightarrow> strip_scheme (''https://'' @ x) = x"
  by (simp_all add: strip_scheme_def trim_prefix_def has_prefix_def)

text \<open>
  Whatever of scheme, port and trailing slashes the admin typed, the endpoint of an Ollama
  engine has one scheme, the host, and exactly one port: the typed one, or the configured
  one (11434 when that is 0).
\<close>

theorem ollama_endpoint_one_port:
  assumes "h \<noteq> []" and "list_all host_char h" and "p \<noteq> []" and "list_all (\<lambda>c. 48 \<le> byte c \<and> byte c \<le> 57) p"
    and "scheme = [] \<or> scheme = ''http://'' \<or> scheme = ''https://''"
    and "full = (if scheme = [] then ''http://'' else scheme)"
  shows "ollama_endpoint (cf\<lparr>ec_base_url := scheme @ h @ replicate n CHR ''/''\<rparr>) =
      full @ h @ '':'' @ itoa (if ec_port cf = 0 then 11434 else ec_port cf) \<and>
    ollama_endpoint (cf\<lparr>ec_base_url := scheme @ h @ '':'' @ p @ replicate n CHR ''/''\<rparr>) =
      full @ h @ '':'' @ p"
proof -
  let ?sl = "replicate n CHR ''/''"
  let ?plain = "\<lambda>c. 33 \<le> byte c \<and> byte c < (128::nat)"
  have "list_all ?plain h" using assms(2) by (rule list.pred_mono_strong) (simp add: host_char_def)
  moreover have "list_all ?plain p" using assms(4) by (rule list.pred_mono_strong) simp
  moreover have "list_all ?plain scheme" using assms(5) by (elim disjE) simp_all
  moreover have "list_all ?plain ?sl" by (simp add: list_all_length)
  ultimately have hs: "list_all ?plain (scheme @ h @ ?sl)" "list_all ?plain (scheme @ h @ '':'' @ p @ ?sl)"
    by simp_all
  have trim: "trim_space s = s" if "list_all ?plain s" for s
    using that hd_in_set [of s] last_in_set [of s]
    by (intro trim_space_id) (cases "s = []", simp_all add: list_all_iff)
  have "host_char (last h)" "48 \<le> byte (last p)"
    using assms(1-4) last_in_set [of h] last_in_set [of p] by (simp_all add: list_all_iff)
  then have lastc: "last (x @ h) \<noteq> CHR ''/''" "last (x @ p) \<noteq> CHR ''/''" for x
    using assms(1,3) by (auto simp: host_char_def)
  have u: "trim_right_char CHR ''/'' (scheme @ h @ ?sl) = scheme @ h"
    "trim_right_char CHR ''/'' (scheme @ h @ '':'' @ p @ ?sl) = scheme @ h @ '':'' @ p"
    using trim_right_char_replicate [of "CHR ''/''" "scheme @ h" n] lastc(1) [of scheme]
      trim_right_char_replicate [of "CHR ''/''" "scheme @ h @ '':'' @ p" n] lastc(2) [of "scheme @ h @ '':''"]
    by (simp_all add: trim_right_char_id)
  have hc: "CHR '':'' \<notin> set h" "hd h \<noteq> CHR ''[''" "CHR ''['' \<notin> set h" "CHR '']'' \<notin> set h"
    using assms(1,2) by (auto simp: list_all_iff host_char_def dest: hd_in_set)
  have pc: "CHR '':'' \<notin> set p" "CHR ''['' \<notin> set p" "CHR '']'' \<notin> set p" "\<not> has_prefix p ''//''"
    using assms(3,4) by (auto simp: list_all_iff has_prefix_iff)
  note hp = host_no_scheme [OF assms(2) pc(4)] and ho = no_colon_no_scheme [OF hc(1)]
  have full: "with_scheme (scheme @ h) = full @ h" "with_scheme (scheme @ h @ '':'' @ p) = full @ h @ '':'' @ p"
    using assms(5,6) hp ho by (auto simp: with_scheme_def has_scheme_def has_prefix_def)
  have strip: "strip_scheme (full @ h) = h" "strip_scheme (full @ h @ '':'' @ p) = h @ '':'' @ p"
    using assms(5,6) hp ho strip_scheme_cases [of h] strip_scheme_cases [of "h @ '':'' @ p"] by auto
  have "\<not> split_host_port_ok h" using hc by (simp add: split_host_port_ok_def last_colon_def)
  moreover have "split_host_port_ok (h @ '':'' @ p)"
    using hc pc last_colon_host [OF pc(1), of h] assms(1) by (simp add: split_host_port_ok_def hd_append)
  ultimately show ?thesis
    using trim [OF hs(1)] trim [OF hs(2)] u full strip by (simp add: ollama_endpoint_def Let_def)
qed

lemma ollama_endpoint_one_port_witness:
  "ollama_endpoint (sample_engine\<lparr>ec_base_url := [] @ ''127.0.0.1'' @ '':'' @ ''11434'' @ replicate 1 CHR ''/''\<rparr>) =
     ''http://'' @ ''127.0.0.1'' @ '':'' @ ''11434''"
  using ollama_endpoint_one_port [of "''127.0.0.1''" "''11434''" "[]" "''http://''" 1 sample_engine]
  by (simp add: host_char_def)

text \<open>
  An OpenAI-compatible base URL may be given with or without its trailing \<open>/v1\<close>: both
  give the same upstream URLs.
\<close>

theorem upstream_v1_optional:
  assumes "trim_space b = b" and "trim_space (b @ ''/v1'') = b @ ''/v1''"
    and "b \<noteq> []" and "last b \<noteq> CHR ''/''" and "\<not> has_suffix b ''/v1''" and "has_scheme b"
  shows "upstream_url (cf\<lparr>ec_base_url := b @ ''/v1''\<rparr>) path = upstream_url (cf\<lparr>ec_base_url := b\<rparr>) path"
proof -
  have "with_scheme b = b" "with_scheme (b @ ''/v1'') = b @ ''/v1''"
    using assms(6) by (auto simp: with_scheme_def has_scheme_def has_prefix_iff)
  moreover have "trim_right_char CHR ''/'' b = b" "trim_right_char CHR ''/'' (b @ ''/v1'') = b @ ''/v1''"
    using assms(3,4) by (auto intro!: trim_right_char_id)
  moreover have "trim_suffix (b @ ''/v1'') ''/v1'' = b"
    by (simp add: trim_suffix_def has_suffix_def has_prefix_def)
  moreover have "trim_suffix b ''/v1'' = b" using assms(5) by (simp add: trim_suffix_def)
  ultimately show ?thesis using assms(1,2) by (simp add: upstream_url_def)
qed

lemma upstream_v1_optional_witness:
  "upstream_url (sample_engine\<lparr>ec_base_url := ''http://h:1'' @ ''/v1''\<rparr>) ''/v1/models'' =
   upstream_url (sample_engine\<lparr>ec_base_url := ''http://h:1''\<rparr>) ''/v1/models''"
  by (rule upstream_v1_optional) (simp_all add: trim_space_eval prefix_eval has_scheme_def)

end
