(* ===== verification/Wire_Types.thy ===== *)
theory Wire_Types
  imports Go_Prelude
begin

section \<open>types.go and the wire types of anthropic.go\<close>

text \<open>
  The structs the gateway writes, one record each, and the JSON value \<open>encoding/json\<close>
  produces for the OpenAI ones: a field tagged \<open>omitempty\<close> is left out when it is empty, every
  other field is always there. A pointer field is an \<open>option\<close>, \<open>None\<close> being null.
\<close>

subsection \<open>OpenAI\<close>

record function_call =
  fc_name :: string
  fc_arguments :: string

record tool_call =
  tc_id :: string
  tc_type :: string
  tc_function :: function_call

record stream_tool_call =
  st_index :: int
  st_call :: tool_call

record message =
  msg_role :: string
  msg_content :: string
  msg_tool_calls :: "tool_call list"

record delta =
  d_role :: string
  d_content :: string
  d_tool_calls :: "stream_tool_call list"

record usage =
  u_prompt :: int
  u_completion :: int
  u_total :: int

record choice =
  ch_index :: int
  ch_message :: message
  ch_finish :: "string option"

record chunk_choice =
  cc_index :: int
  cc_delta :: delta
  cc_finish :: "string option"

record chat_completion =
  cpl_id :: string
  cpl_object :: string
  cpl_created :: int
  cpl_model :: string
  cpl_choices :: "choice list"
  cpl_usage :: usage

record chat_completion_chunk =
  ck_id :: string
  ck_object :: string
  ck_created :: int
  ck_model :: string
  ck_choices :: "chunk_choice list"
  ck_usage :: "usage option"

record model_entry =
  m_id :: string
  m_object :: string
  m_created :: int
  m_owned_by :: string
  m_type :: string
  m_display_name :: string
  m_created_at :: string
  m_size :: int

record model_list =
  ml_object :: string
  ml_data :: "model_entry list"
  ml_has_more :: bool
  ml_first_id :: "string option"
  ml_last_id :: "string option"

record api_error =
  err_message :: string
  err_type :: string
  err_code :: "string option"

record error_response =
  er_error :: api_error

definition finish_stop :: string where "finish_stop = ''stop''"
definition finish_length :: string where "finish_length = ''length''"
definition finish_tool_calls :: string where "finish_tool_calls = ''tool_calls''"

definition openai_error :: "string \<Rightarrow> string \<Rightarrow> error_response" where
  "openai_error msg error_type =
     \<lparr>er_error = \<lparr>err_message = msg, err_type = error_type, err_code = None\<rparr>\<rparr>"

subsection \<open>Rendering\<close>

definition opt_str :: "string option \<Rightarrow> json" where
  "opt_str s = (case s of None \<Rightarrow> JNull | Some x \<Rightarrow> JStr x)"

definition omit_str :: "string \<Rightarrow> string \<Rightarrow> obj" where
  "omit_str k s = (if s = [] then [] else [(k, JStr s)])"

definition omit_arr :: "string \<Rightarrow> json list \<Rightarrow> obj" where
  "omit_arr k xs = (if xs = [] then [] else [(k, JArr xs)])"

definition function_call_json :: "function_call \<Rightarrow> json" where
  "function_call_json f =
     JObj [(''name'', JStr (fc_name f)), (''arguments'', JStr (fc_arguments f))]"

definition tool_call_fields :: "tool_call \<Rightarrow> obj" where
  "tool_call_fields t =
     [(''id'', JStr (tc_id t)), (''type'', JStr (tc_type t)),
      (''function'', function_call_json (tc_function t))]"

definition stream_tool_call_json :: "stream_tool_call \<Rightarrow> json" where
  "stream_tool_call_json t = JObj ((''index'', JNum (st_index t) 0) # tool_call_fields (st_call t))"

definition message_json :: "message \<Rightarrow> json" where
  "message_json m =
     JObj ([(''role'', JStr (msg_role m)), (''content'', JStr (msg_content m))] @
           omit_arr ''tool_calls'' (map (JObj \<circ> tool_call_fields) (msg_tool_calls m)))"

definition delta_json :: "delta \<Rightarrow> json" where
  "delta_json d =
     JObj (omit_str ''role'' (d_role d) @ omit_str ''content'' (d_content d) @
           omit_arr ''tool_calls'' (map stream_tool_call_json (d_tool_calls d)))"

definition usage_json :: "usage \<Rightarrow> json" where
  "usage_json u =
     JObj [(''prompt_tokens'', JNum (u_prompt u) 0), (''completion_tokens'', JNum (u_completion u) 0),
           (''total_tokens'', JNum (u_total u) 0)]"

definition choice_json :: "choice \<Rightarrow> json" where
  "choice_json c =
     JObj [(''index'', JNum (ch_index c) 0), (''message'', message_json (ch_message c)),
           (''finish_reason'', opt_str (ch_finish c))]"

definition chunk_choice_json :: "chunk_choice \<Rightarrow> json" where
  "chunk_choice_json c =
     JObj [(''index'', JNum (cc_index c) 0), (''delta'', delta_json (cc_delta c)),
           (''finish_reason'', opt_str (cc_finish c))]"

definition completion_json :: "chat_completion \<Rightarrow> json" where
  "completion_json c =
     JObj [(''id'', JStr (cpl_id c)), (''object'', JStr (cpl_object c)),
           (''created'', JNum (cpl_created c) 0), (''model'', JStr (cpl_model c)),
           (''choices'', JArr (map choice_json (cpl_choices c))),
           (''usage'', usage_json (cpl_usage c))]"

definition chunk_json :: "chat_completion_chunk \<Rightarrow> json" where
  "chunk_json c =
     JObj ([(''id'', JStr (ck_id c)), (''object'', JStr (ck_object c)),
            (''created'', JNum (ck_created c) 0), (''model'', JStr (ck_model c)),
            (''choices'', JArr (map chunk_choice_json (ck_choices c)))] @
           (case ck_usage c of None \<Rightarrow> [] | Some u \<Rightarrow> [(''usage'', usage_json u)]))"

definition model_entry_json :: "model_entry \<Rightarrow> json" where
  "model_entry_json m =
     JObj ([(''id'', JStr (m_id m)), (''object'', JStr (m_object m)),
            (''created'', JNum (m_created m) 0), (''owned_by'', JStr (m_owned_by m)),
            (''type'', JStr (m_type m)), (''display_name'', JStr (m_display_name m)),
            (''created_at'', JStr (m_created_at m))] @
           (if m_size m = 0 then [] else [(''size'', JNum (m_size m) 0)]))"

definition model_list_json :: "model_list \<Rightarrow> json" where
  "model_list_json l =
     JObj [(''object'', JStr (ml_object l)), (''data'', JArr (map model_entry_json (ml_data l))),
           (''has_more'', JBool (ml_has_more l)), (''first_id'', opt_str (ml_first_id l)),
           (''last_id'', opt_str (ml_last_id l))]"

definition error_response_json :: "error_response \<Rightarrow> json" where
  "error_response_json e =
     JObj [(''error'', JObj [(''message'', JStr (err_message (er_error e))),
        (''type'', JStr (err_type (er_error e))), (''code'', opt_str (err_code (er_error e)))])]"

lemmas wire_json_defs =
  opt_str_def omit_str_def omit_arr_def function_call_json_def tool_call_fields_def
  stream_tool_call_json_def message_json_def delta_json_def usage_json_def choice_json_def
  chunk_choice_json_def completion_json_def chunk_json_def error_response_json_def

text \<open>An error always carries its \<open>code\<close> key, as null.\<close>

lemma openai_error_code:
  "\<exists>e. error_response_json (openai_error m t) = JObj [(''error'', JObj e)] \<and>
     map_of e ''code'' = Some JNull \<and> map_of e ''message'' = Some (JStr m)"
  by (simp add: error_response_json_def openai_error_def opt_str_def)

subsection \<open>Anthropic\<close>

record content_block =
  cb_type :: string
  cb_text :: "string option"
  cb_id :: string
  cb_name :: string
  cb_input :: "string option" \<comment> \<open>\<open>json.RawMessage\<close>: the encoded text\<close>

record anthropic_usage =
  au_input :: int
  au_output :: int

record anthropic_message =
  am_id :: string
  am_type :: string
  am_role :: string
  am_model :: string
  am_content :: "content_block list"
  am_stop_reason :: "string option"
  am_stop_sequence :: "string option"
  am_usage :: anthropic_usage

record anthropic_api_error =
  ae_type :: string
  ae_message :: string

record anthropic_error_response =
  aer_type :: string
  aer_error :: anthropic_api_error

definition stop_end_turn :: string where "stop_end_turn = ''end_turn''"
definition stop_max_tokens :: string where "stop_max_tokens = ''max_tokens''"
definition stop_tool_use :: string where "stop_tool_use = ''tool_use''"

text \<open>\<open>anthropicError\<close>: the status decides the type name for two cases.\<close>

definition anthropic_error :: "int \<Rightarrow> string \<Rightarrow> string \<Rightarrow> anthropic_error_response" where
  "anthropic_error status msg err_ty =
     (let ty = (if status = 404 then ''not_found_error''
                else if status = 503 \<or> status = 529 then ''overloaded_error'' else err_ty)
      in \<lparr>aer_type = ''error'', aer_error = \<lparr>ae_type = ty, ae_message = msg\<rparr>\<rparr>)"

end
