(* ===== verification/OpenAI_Translate.thy ===== *)
theory OpenAI_Translate
  imports Wire_Types
begin

section \<open>openai.go: between OpenAI and Ollama\<close>

text \<open>
  Requests go from OpenAI's chat-completions map to Ollama's \<open>/api/chat\<close>, replies and stream
  lines come back. Arguments of the definitions stand for what is outside the functions:
  \<^item> \<open>unmarshal\<close> and \<open>marshal\<close>: \<open>encoding/json\<close> on a whole text, \<open>None\<close> for its error;
  \<^item> \<open>rnd k\<close>: the hex of the \<open>k\<close>-th draw of \<open>crypto/rand\<close>, the next \<open>k\<close> being threaded through
    the functions that mint ids;
  \<^item> \<open>now\<close>: \<open>time.Now().Unix()\<close>.
\<close>

subsection \<open>Identifiers\<close>

definition new_completion_id :: "(nat \<Rightarrow> string) \<Rightarrow> nat \<Rightarrow> string \<times> nat" where
  "new_completion_id rnd k = (''chatcmpl-'' @ rnd k, Suc k)"

definition new_tool_call_id :: "(nat \<Rightarrow> string) \<Rightarrow> nat \<Rightarrow> string \<times> nat" where
  "new_tool_call_id rnd k = (''call_'' @ rnd k, Suc k)"

subsection \<open>Requests\<close>

definition param_map :: "(string \<times> string) list" where
  "param_map =
     [(''temperature'', ''temperature''), (''top_p'', ''top_p''), (''seed'', ''seed''),
      (''max_tokens'', ''num_predict''), (''presence_penalty'', ''presence_penalty''),
      (''frequency_penalty'', ''frequency_penalty'')]"

text \<open>One pass over \<open>paramMap\<close>; its order is random in Go and does not matter.\<close>

definition copy_param :: "obj \<Rightarrow> obj \<Rightarrow> string \<times> string \<Rightarrow> obj" where
  "copy_param data opts kk = obj_opt (snd kk) (map_of data (fst kk)) opts"

definition stop_list :: "obj \<Rightarrow> json option" where
  "stop_list data =
     (case map_of data ''stop'' of
        Some (JStr v) \<Rightarrow> Some (JArr [JStr v])
      | Some (JArr v) \<Rightarrow> Some (JArr (filter is_str v))
      | _ \<Rightarrow> None)"

definition ollama_options :: "obj \<Rightarrow> obj" where
  "ollama_options data =
     obj_opt ''stop'' (stop_list data)
       (obj_opt ''num_predict'' (map_of data ''max_completion_tokens'')
         (foldl (copy_param data) [] param_map))"

definition ollama_format :: "json \<Rightarrow> json option" where
  "ollama_format rf =
     (case rf of
        JObj m \<Rightarrow>
          if idx m ''type'' = JStr ''json_object'' then Some (JStr ''json'')
          else if idx m ''type'' = JStr ''json_schema''
          then (case idx (as_obj (idx m ''json_schema'')) ''schema'' of
                  JObj schema \<Rightarrow> Some (JObj schema)
                | _ \<Rightarrow> Some (JStr ''json''))
          else None
      | _ \<Rightarrow> None)"

text \<open>The text and the inline images of a message's content.\<close>

definition flatten_part :: "string \<times> string list \<Rightarrow> json \<Rightarrow> string \<times> string list" where
  "flatten_part acc p =
     (let (text, images) = acc; part = as_obj p in
      if idx part ''type'' = JStr ''text'' then
        (let s = as_str (idx part ''text'') in
         ((if text \<noteq> [] \<and> s \<noteq> [] then text @ [CHR 0x0A] else text) @ s, images))
      else if idx part ''type'' = JStr ''image_url'' then
        (let u = as_str (idx (as_obj (idx part ''image_url'')) ''url'') in
         (case cut u '';base64,'' of
            Some (_, b64) \<Rightarrow> if has_prefix u ''data:'' then (text, images @ [b64]) else (text, images)
          | None \<Rightarrow> (text, images)))
      else (text, images))"

fun flatten_content :: "json \<Rightarrow> string \<times> string list" where
  "flatten_content (JStr c) = (c, [])"
| "flatten_content (JArr c) = foldl flatten_part ([], []) c"
| "flatten_content _ = ([], [])"

fun decode_arguments :: "(string \<Rightarrow> json option) \<Rightarrow> json \<Rightarrow> json" where
  "decode_arguments unmarshal (JStr s) =
     (case unmarshal s of None \<Rightarrow> JStr s | Some v \<Rightarrow> v)"
| "decode_arguments unmarshal args = args"

definition call_name :: "json \<Rightarrow> string" where
  "call_name c = as_str (idx (as_obj (idx (as_obj c) ''function'')) ''name'')"

definition call_id :: "json \<Rightarrow> string" where
  "call_id c = as_str (idx (as_obj c) ''id'')"

definition ollama_call :: "(string \<Rightarrow> json option) \<Rightarrow> json \<Rightarrow> json" where
  "ollama_call unmarshal c =
     (let fn = as_obj (idx (as_obj c) ''function'') in
      JObj [(''function'',
        JObj [(''name'', JStr (as_str (idx fn ''name''))),
              (''arguments'', decode_arguments unmarshal (idx fn ''arguments''))])])"

text \<open>\<open>nameByCallID\<close> after one call: a call without an id is not recorded.\<close>

definition record_call :: "(string \<rightharpoonup> string) \<Rightarrow> json \<Rightarrow> (string \<rightharpoonup> string)" where
  "record_call names c = (if call_id c \<noteq> [] then names(call_id c \<mapsto> call_name c) else names)"

definition message_calls :: "obj \<Rightarrow> json list" where
  "message_calls m = (case map_of m ''tool_calls'' of Some (JArr calls) \<Rightarrow> calls | _ \<Rightarrow> [])"

text \<open>One pass of the loop of \<open>ollamaMessages\<close>.\<close>

definition ollama_message ::
  "(string \<Rightarrow> json option) \<Rightarrow> (string \<rightharpoonup> string) \<Rightarrow> obj \<Rightarrow> obj \<times> (string \<rightharpoonup> string)" where
  "ollama_message unmarshal names m =
     (let (text, images) = flatten_content (idx m ''content'');
          om0 = obj_set ''content'' (JStr text) [(''role'', idx m ''role'')];
          om1 = (if images \<noteq> [] then obj_set ''images'' (JArr (map JStr images)) om0 else om0);
          calls = message_calls m;
          names' = foldl record_call names calls;
          om2 = (if calls \<noteq> [] then obj_set ''tool_calls'' (JArr (map (ollama_call unmarshal) calls)) om1
                 else om1);
          om3 = (if idx m ''role'' = JStr ''tool''
                 then (let n0 = as_str (idx m ''name'');
                           n = (if n0 = []
                                then (case names' (as_str (idx m ''tool_call_id'')) of
                                        None \<Rightarrow> [] | Some n' \<Rightarrow> n')
                                else n0)
                       in if n \<noteq> [] then obj_set ''tool_name'' (JStr n) om2 else om2)
                 else om2)
      in (om3, names'))"

fun ollama_messages_from ::
  "(string \<Rightarrow> json option) \<Rightarrow> (string \<rightharpoonup> string) \<Rightarrow> obj list \<Rightarrow> obj list" where
  "ollama_messages_from unmarshal names [] = []"
| "ollama_messages_from unmarshal names (m # ms) =
     (let (om, names') = ollama_message unmarshal names m
      in om # ollama_messages_from unmarshal names' ms)"

definition ollama_messages :: "(string \<Rightarrow> json option) \<Rightarrow> obj list \<Rightarrow> obj list" where
  "ollama_messages unmarshal ms = ollama_messages_from unmarshal Map.empty ms"

definition ollama_model :: "obj \<Rightarrow> string" where
  "ollama_model data =
     (case map_of data ''model'' of
        Some (JStr m) \<Rightarrow> if m \<noteq> [] then m else ''llama3.2:latest''
      | _ \<Rightarrow> ''llama3.2:latest'')"

definition ollama_stream_flag :: "obj \<Rightarrow> bool" where
  "ollama_stream_flag data = (case map_of data ''stream'' of Some (JBool s) \<Rightarrow> s | _ \<Rightarrow> False)"

definition ollama_tools :: "obj \<Rightarrow> json option" where
  "ollama_tools data =
     (case map_of data ''tools'' of
        Some (JArr tools) \<Rightarrow>
          if tools \<noteq> [] \<and> as_str (idx data ''tool_choice'') \<noteq> ''none'' then Some (JArr tools) else None
      | _ \<Rightarrow> None)"

definition openai_to_ollama :: "(string \<Rightarrow> json option) \<Rightarrow> obj \<Rightarrow> obj list \<Rightarrow> obj" where
  "openai_to_ollama unmarshal data messages =
     (let options = ollama_options data;
          req = [(''model'', JStr (ollama_model data)),
                 (''messages'', JArr (map JObj (ollama_messages unmarshal messages))),
                 (''stream'', JBool (ollama_stream_flag data))];
          req1 = obj_opt ''options'' (if options \<noteq> [] then Some (JObj options) else None) req;
          req2 = obj_opt ''tools'' (ollama_tools data) req1
      in obj_opt ''format'' (ollama_format (idx data ''response_format'')) req2)"

subsection \<open>Replies\<close>

fun to_int :: "json \<Rightarrow> int" where
  "to_int (JNum m e) = float_to_int m e"
| "to_int (JStr n) = (case atoi (trim_space n) of None \<Rightarrow> 0 | Some i \<Rightarrow> i)"
| "to_int _ = 0"

definition call_arguments :: "(json \<Rightarrow> string option) \<Rightarrow> json \<Rightarrow> string" where
  "call_arguments marshal v =
     (case v of
        JStr s \<Rightarrow> s
      | JNull \<Rightarrow> ''{}''
      | _ \<Rightarrow> (case marshal v of Some b \<Rightarrow> b | None \<Rightarrow> ''{}''))"

fun openai_calls ::
  "(json \<Rightarrow> string option) \<Rightarrow> (nat \<Rightarrow> string) \<Rightarrow> nat \<Rightarrow> json list \<Rightarrow> tool_call list \<times> nat" where
  "openai_calls marshal rnd k [] = ([], k)"
| "openai_calls marshal rnd k (c # cs) =
     (let fn = as_obj (idx (as_obj c) ''function'');
          args = call_arguments marshal (idx fn ''arguments'');
          (i, k1) = (if call_id c = [] then new_tool_call_id rnd k else (call_id c, k));
          (rest, k2) = openai_calls marshal rnd k1 cs
      in (\<lparr>tc_id = i, tc_type = ''function'',
           tc_function = \<lparr>fc_name = call_name c, fc_arguments = args\<rparr>\<rparr> # rest, k2))"

definition openai_tool_calls ::
  "(json \<Rightarrow> string option) \<Rightarrow> (nat \<Rightarrow> string) \<Rightarrow> nat \<Rightarrow> obj \<Rightarrow> tool_call list \<times> nat" where
  "openai_tool_calls marshal rnd k msg = openai_calls marshal rnd k (as_arr (idx msg ''tool_calls''))"

definition ollama_finish_reason :: "obj \<Rightarrow> string" where
  "ollama_finish_reason chunk =
     (if as_str (idx chunk ''done_reason'') = finish_length then finish_length else finish_stop)"

definition ollama_usage :: "obj \<Rightarrow> usage" where
  "ollama_usage m =
     (let p = to_int (idx m ''prompt_eval_count''); c = to_int (idx m ''eval_count'')
      in \<lparr>u_prompt = p, u_completion = c, u_total = wrap64 (p + c)\<rparr>)"

definition ollama_to_openai ::
  "(json \<Rightarrow> string option) \<Rightarrow> (nat \<Rightarrow> string) \<Rightarrow> int \<Rightarrow> nat \<Rightarrow> obj \<Rightarrow> chat_completion \<times> nat" where
  "ollama_to_openai marshal rnd now k ollama =
     (let msg = as_obj (idx ollama ''message'');
          role0 = as_str (idx msg ''role'');
          role = (if role0 = [] then ''assistant'' else role0);
          (calls, k1) = openai_tool_calls marshal rnd k msg;
          finish = (if calls \<noteq> [] then finish_tool_calls else ollama_finish_reason ollama);
          (cid, k2) = new_completion_id rnd k1
      in (\<lparr>cpl_id = cid, cpl_object = ''chat.completion'', cpl_created = now,
           cpl_model = as_str (idx ollama ''model''),
           cpl_choices = [\<lparr>ch_index = 0,
             ch_message = \<lparr>msg_role = role, msg_content = as_str (idx msg ''content''),
                           msg_tool_calls = calls\<rparr>,
             ch_finish = Some finish\<rparr>],
           cpl_usage = ollama_usage ollama\<rparr>, k2))"

subsection \<open>Stream lines\<close>

definition number_calls :: "int \<Rightarrow> tool_call list \<Rightarrow> stream_tool_call list" where
  "number_calls i calls =
     map (\<lambda>(j, tc). \<lparr>st_index = i + int j, st_call = tc\<rparr>) (enumerate 0 calls)"

definition format_stream_chunk ::
  "(json \<Rightarrow> string option) \<Rightarrow> (nat \<Rightarrow> string) \<Rightarrow> int \<Rightarrow> nat \<Rightarrow> obj \<Rightarrow> string \<Rightarrow> bool \<Rightarrow>
   chat_completion_chunk \<times> nat" where
  "format_stream_chunk marshal rnd now k chunk completion_id is_first =
     (let fin = as_bool (idx chunk ''done'');
          msg = as_obj (idx chunk ''message'');
          content = as_str (idx msg ''content'');
          delta0 = (if is_first
                    then \<lparr>d_role = ''assistant'', d_content = content, d_tool_calls = []\<rparr>
                    else if fin then \<lparr>d_role = [], d_content = [], d_tool_calls = []\<rparr>
                    else \<lparr>d_role = [], d_content = content, d_tool_calls = []\<rparr>);
          (calls, k1) = openai_tool_calls marshal rnd k msg;
          delta1 = delta0\<lparr>d_tool_calls := number_calls 0 calls\<rparr>
      in (\<lparr>ck_id = completion_id, ck_object = ''chat.completion.chunk'', ck_created = now,
           ck_model = as_str (idx chunk ''model''),
           ck_choices = [\<lparr>cc_index = 0, cc_delta = delta1,
             cc_finish = (if fin then Some (ollama_finish_reason chunk) else None)\<rparr>],
           ck_usage = (if fin then Some (ollama_usage chunk) else None)\<rparr>, k1))"

subsection \<open>Model timestamps\<close>

text \<open>\<open>parse\<close> is \<open>time.Parse\<close> with the layout \<open>2006-01-02T15:04:05\<close>, in Unix seconds.\<close>

definition parse_ollama_ts :: "(string \<Rightarrow> int option) \<Rightarrow> int \<Rightarrow> string \<Rightarrow> int" where
  "parse_ollama_ts parse now ts =
     (if ts = [] then now
      else (case parse (if 19 \<le> length ts then take 19 ts else ts) of None \<Rightarrow> now | Some t \<Rightarrow> t))"

subsection \<open>Options and messages\<close>

lemma ollama_options_num_predict:
  "map_of (ollama_options data) ''num_predict'' =
     (case map_of data ''max_completion_tokens'' of
        Some v \<Rightarrow> Some v | None \<Rightarrow> map_of data ''max_tokens'')"
  by (simp add: ollama_options_def param_map_def copy_param_def split: option.split)

lemma ollama_options_stop: "map_of (ollama_options data) ''stop'' = stop_list data"
  by (simp add: ollama_options_def param_map_def copy_param_def split: option.split)

lemma ollama_message_names: "snd (ollama_message u names m) = foldl record_call names (message_calls m)"
  by (simp add: ollama_message_def Let_def split: prod.split)

lemma length_ollama_messages_from: "length (ollama_messages_from u names ms) = length ms"
  by (induction ms arbitrary: names) (simp_all add: Let_def split: prod.split)

lemma ollama_messages_from_nth:
  "i < length ms \<Longrightarrow> ollama_messages_from u names ms ! i =
     fst (ollama_message u (foldl record_call names (concat (map message_calls (take i ms)))) (ms ! i))"
proof (induction ms arbitrary: names i)
  case Nil
  then show ?case by simp
next
  case (Cons m ms)
  then show ?case
    using ollama_message_names [of u names m]
    by (cases i) (auto simp: Let_def split: prod.split)
qed

lemma ollama_message_role: "idx (fst (ollama_message u names m)) ''role'' = idx m ''role''"
  by (simp add: ollama_message_def Let_def split: prod.split)

lemma ollama_message_content:
  "idx (fst (ollama_message u names m)) ''content'' = JStr (fst (flatten_content (idx m ''content'')))"
  by (simp add: ollama_message_def Let_def split: prod.split)

lemma ollama_message_tool_name:
  assumes "idx m ''role'' = JStr ''tool''" and "as_str (idx m ''name'') = []"
    and "foldl record_call names (message_calls m) (as_str (idx m ''tool_call_id'')) = Some n" and "n \<noteq> []"
  shows "idx (fst (ollama_message u names m)) ''tool_name'' = JStr n"
  using assms by (simp add: ollama_message_def Let_def split: prod.split)

text \<open>The reference: the last recorded call with this id.\<close>

definition last_call_named :: "json list \<Rightarrow> string \<Rightarrow> string option" where
  "last_call_named calls i =
     map_option call_name (find (\<lambda>c. call_id c = i \<and> i \<noteq> []) (rev calls))"

lemma foldl_record_call: "foldl record_call Map.empty calls = last_call_named calls"
proof (rule ext)
  show "foldl record_call Map.empty calls i = last_call_named calls i" for i
    by (induction calls rule: rev_induct) (auto simp: last_call_named_def record_call_def)
qed

text \<open>
  C29. Every message of the history becomes one Ollama message with its role and its flattened
  text, in order, and a tool result that carries no name of its own is labelled with the
  function name of the latest call, in the history so far, that has its \<open>tool_call_id\<close>.
\<close>

theorem ollama_messages_keep_history:
  assumes "i < length ms"
  shows "length (ollama_messages u ms) = length ms \<and>
    idx (ollama_messages u ms ! i) ''role'' = idx (ms ! i) ''role'' \<and>
    idx (ollama_messages u ms ! i) ''content'' = JStr (fst (flatten_content (idx (ms ! i) ''content''))) \<and>
    (idx (ms ! i) ''role'' = JStr ''tool'' \<longrightarrow> as_str (idx (ms ! i) ''name'') = [] \<longrightarrow>
      (\<forall>n. last_call_named (concat (map message_calls (take (Suc i) ms)))
             (as_str (idx (ms ! i) ''tool_call_id'')) = Some n \<longrightarrow> n \<noteq> [] \<longrightarrow>
           idx (ollama_messages u ms ! i) ''tool_name'' = JStr n))"
proof -
  define names where "names = foldl record_call Map.empty (concat (map message_calls (take i ms)))"
  have eq: "ollama_messages u ms ! i = fst (ollama_message u names (ms ! i))"
    using ollama_messages_from_nth [OF assms, of u Map.empty]
    by (simp add: ollama_messages_def names_def)
  have "foldl record_call names (message_calls (ms ! i)) =
      last_call_named (concat (map message_calls (take (Suc i) ms)))"
    using assms by (simp add: names_def take_Suc_conv_app_nth flip: foldl_record_call)
  with eq show ?thesis
    by (simp add: ollama_message_role ollama_message_content ollama_message_tool_name
        ollama_messages_def length_ollama_messages_from)
qed

lemma ollama_messages_keep_history_witness:
  "let ms = [[(''role'', JStr ''assistant''), (''content'', JNull),
              (''tool_calls'', JArr [JObj [(''id'', JStr ''c1''),
                 (''function'', JObj [(''name'', JStr ''ls''), (''arguments'', JStr ''{}'')])]])],
             [(''role'', JStr ''tool''), (''tool_call_id'', JStr ''c1''), (''content'', JStr ''ok'')]]
   in idx (ollama_messages (\<lambda>_. None) ms ! 1) ''tool_name'' = JStr ''ls''"
  using ollama_messages_keep_history
    [of 1 "[[(''role'', JStr ''assistant''), (''content'', JNull),
              (''tool_calls'', JArr [JObj [(''id'', JStr ''c1''),
                 (''function'', JObj [(''name'', JStr ''ls''), (''arguments'', JStr ''{}'')])]])],
             [(''role'', JStr ''tool''), (''tool_call_id'', JStr ''c1''), (''content'', JStr ''ok'')]]"
       "\<lambda>_. None"]
  by (simp add: message_calls_def last_call_named_def call_id_def call_name_def)

text \<open>
  The Ollama request: it always has a non-empty model, the translated history and a
  boolean \<open>stream\<close>; \<open>num_predict\<close> is \<open>max_completion_tokens\<close> where the client sent it and
  \<open>max_tokens\<close> otherwise; tools are withheld exactly when there are none or
  \<open>tool_choice\<close> is \<open>none\<close>.
\<close>

theorem openai_to_ollama_request:
  "(\<exists>m. idx (openai_to_ollama u data ms) ''model'' = JStr m \<and> m \<noteq> []) \<and>
   idx (openai_to_ollama u data ms) ''messages'' = JArr (map JObj (ollama_messages u ms)) \<and>
   idx (openai_to_ollama u data ms) ''stream'' = JBool (map_of data ''stream'' = Some (JBool True)) \<and>
   idx (as_obj (idx (openai_to_ollama u data ms) ''options'')) ''num_predict'' =
     (case map_of data ''max_completion_tokens'' of Some v \<Rightarrow> v | None \<Rightarrow> idx data ''max_tokens'') \<and>
   (idx (openai_to_ollama u data ms) ''tools'' =
     (if as_arr (idx data ''tools'') = [] \<or> idx data ''tool_choice'' = JStr ''none'' then JNull
      else idx data ''tools''))"
proof (intro conjI)
  have none: "as_str v = ''none'' \<longleftrightarrow> v = JStr ''none''" for v by (cases v) auto
  show "\<exists>m. idx (openai_to_ollama u data ms) ''model'' = JStr m \<and> m \<noteq> []"
    by (simp add: openai_to_ollama_def Let_def ollama_model_def split: option.split json.split)
  show "idx (openai_to_ollama u data ms) ''messages'' = JArr (map JObj (ollama_messages u ms))"
    by (simp add: openai_to_ollama_def Let_def)
  show "idx (openai_to_ollama u data ms) ''stream'' = JBool (map_of data ''stream'' = Some (JBool True))"
    by (simp add: openai_to_ollama_def Let_def ollama_stream_flag_def split: option.split json.split)
  have "idx (ollama_options data) ''num_predict'' =
     (case map_of data ''max_completion_tokens'' of Some v \<Rightarrow> v | None \<Rightarrow> idx data ''max_tokens'')"
    by (simp add: idx_def ollama_options_num_predict split: option.split)
  moreover have "ollama_options data = [] \<Longrightarrow> idx (ollama_options data) ''num_predict'' = JNull" by simp
  ultimately show "idx (as_obj (idx (openai_to_ollama u data ms) ''options'')) ''num_predict'' =
     (case map_of data ''max_completion_tokens'' of Some v \<Rightarrow> v | None \<Rightarrow> idx data ''max_tokens'')"
    by (auto simp: openai_to_ollama_def Let_def)
  show "idx (openai_to_ollama u data ms) ''tools'' =
     (if as_arr (idx data ''tools'') = [] \<or> idx data ''tool_choice'' = JStr ''none'' then JNull
      else idx data ''tools'')"
    by (auto simp: openai_to_ollama_def Let_def ollama_tools_def none idx_def [of data "''tools''"]
        split: option.split json.split)
qed

subsection \<open>Tool calls and finish reasons\<close>

lemma openai_calls_length: "length (fst (openai_calls marshal rnd k cs)) = length cs"
  by (induction cs arbitrary: k) (auto simp: Let_def case_prod_beta)

lemma openai_calls_ids:
  "t \<in> set (fst (openai_calls marshal rnd k cs)) \<Longrightarrow> tc_id t \<noteq> [] \<and> tc_type t = ''function''"
  by (induction cs arbitrary: k)
    (auto simp: Let_def case_prod_beta new_tool_call_id_def split: if_splits)

lemma openai_calls_nth:
  "i < length cs \<Longrightarrow>
     fc_name (tc_function (fst (openai_calls marshal rnd k cs) ! i)) = call_name (cs ! i) \<and>
     (call_id (cs ! i) \<noteq> [] \<longrightarrow> tc_id (fst (openai_calls marshal rnd k cs) ! i) = call_id (cs ! i))"
proof (induction cs arbitrary: k i)
  case Nil
  then show ?case by simp
next
  case (Cons c cs)
  obtain j k1 where jk: "(if call_id c = [] then new_tool_call_id rnd k else (call_id c, k)) = (j, k1)"
    by fastforce
  obtain rest k2 where rk: "openai_calls marshal rnd k1 cs = (rest, k2)" by fastforce
  from Cons.IH [of _ k1] Cons.prems jk rk show ?case
    by (cases i) (auto simp: Let_def split: if_splits)
qed

lemma ollama_finish_reason_cases: "ollama_finish_reason c \<in> {finish_stop, finish_length}"
  by (simp add: ollama_finish_reason_def)

text \<open>
  A complete Ollama reply becomes a completion with exactly one choice, whose tool calls
  are those of the reply in order, each with a non-empty id (its own where it has one); the
  finish reason is \<open>tool_calls\<close> exactly when there are calls, else \<open>length\<close> exactly when
  Ollama reports a truncated reply, else \<open>stop\<close>; the usage total is the 64-bit sum of
  its parts.
\<close>

theorem ollama_reply_translated:
  "\<exists>c. cpl_choices (fst (ollama_to_openai marshal rnd now k ollama)) = [c] \<and>
     (let raw = as_arr (idx (as_obj (idx ollama ''message'')) ''tool_calls'');
          calls = msg_tool_calls (ch_message c)
      in length calls = length raw \<and>
         (\<forall>i < length raw. fc_name (tc_function (calls ! i)) = call_name (raw ! i) \<and>
            tc_id (calls ! i) \<noteq> [] \<and>
            (call_id (raw ! i) \<noteq> [] \<longrightarrow> tc_id (calls ! i) = call_id (raw ! i))) \<and>
         ch_finish c =
           Some (if raw \<noteq> [] then finish_tool_calls
                 else if idx ollama ''done_reason'' = JStr ''length'' then finish_length else finish_stop)) \<and>
     u_total (cpl_usage (fst (ollama_to_openai marshal rnd now k ollama))) =
       wrap64 (to_int (idx ollama ''prompt_eval_count'') + to_int (idx ollama ''eval_count''))"
proof -
  define raw where "raw = as_arr (idx (as_obj (idx ollama ''message'')) ''tool_calls'')"
  obtain calls k1 where ck: "openai_calls marshal rnd k raw = (calls, k1)" by fastforce
  have len: "length calls = length raw" using openai_calls_length [of marshal rnd k raw] ck by simp
  have nth: "i < length raw \<Longrightarrow> fc_name (tc_function (calls ! i)) = call_name (raw ! i) \<and>
      tc_id (calls ! i) \<noteq> [] \<and> (call_id (raw ! i) \<noteq> [] \<longrightarrow> tc_id (calls ! i) = call_id (raw ! i))" for i
    using openai_calls_nth [of i raw marshal rnd k] openai_calls_ids [of "calls ! i" marshal rnd k raw]
      ck len by simp
  have fin: "as_str v = finish_length \<longleftrightarrow> v = JStr ''length''" for v
    by (cases v) (auto simp: finish_length_def)
  have empty: "calls = [] \<longleftrightarrow> raw = []" using len by (metis length_0_conv)
  show ?thesis
    using len nth
    by (simp add: ollama_to_openai_def openai_tool_calls_def raw_def [symmetric] ck empty Let_def
        new_completion_id_def ollama_usage_def ollama_finish_reason_def fin)
qed

lemma ollama_reply_translated_witness:
  "ch_finish (hd (cpl_choices (fst (ollama_to_openai (\<lambda>_. None) (\<lambda>_. ''00'') 0 0
     [(''done_reason'', JStr ''length'')])))) = Some ''length''"
  using ollama_reply_translated [of "\<lambda>_. None" "\<lambda>_. ''00''" 0 0 "[(''done_reason'', JStr ''length'')]"]
  by (auto simp: finish_length_def Let_def)

lemma number_calls_indices: "map st_index (number_calls i calls) = map (\<lambda>j. i + int j) [0..<length calls]"
  by (rule nth_equalityI) (simp_all add: number_calls_def case_prod_beta nth_enumerate_eq)

lemma number_calls_calls: "map st_call (number_calls i calls) = calls"
  by (rule nth_equalityI) (simp_all add: number_calls_def case_prod_beta nth_enumerate_eq)

lemma format_stream_chunk_one_choice:
  "\<exists>c. ck_choices (fst (format_stream_chunk marshal rnd now k chunk cid first)) = [c]"
  by (simp add: format_stream_chunk_def Let_def split: prod.split)

text \<open>
  The three shapes of a delta: the opening one carries the role, the ones between carry
  content alone, and a terminating one without tool calls renders as an empty object.
\<close>

lemma format_stream_chunk_delta:
  assumes "as_arr (idx (as_obj (idx chunk ''message'')) ''tool_calls'') = []"
  shows "delta_json (cc_delta (hd (ck_choices (fst (format_stream_chunk marshal rnd now k chunk cid first))))) =
     JObj (if first then (''role'', JStr ''assistant'') #
                 omit_str ''content'' (as_str (idx (as_obj (idx chunk ''message'')) ''content''))
           else if as_bool (idx chunk ''done'') then []
           else omit_str ''content'' (as_str (idx (as_obj (idx chunk ''message'')) ''content'')))"
proof -
  have calls: "openai_tool_calls marshal rnd k (as_obj (idx chunk ''message'')) = ([], k)"
    using assms by (simp add: openai_tool_calls_def)
  show ?thesis
    by (cases first; cases "as_bool (idx chunk ''done'')")
      (simp_all add: format_stream_chunk_def calls number_calls_def delta_json_def omit_arr_def omit_str_def)
qed

end
