(* ===== verification/Anthropic_Translate.thy ===== *)
theory Anthropic_Translate
  imports OpenAI_Translate
begin

section \<open>anthropic.go: requests and complete replies\<close>

text \<open>
  \<open>/v1/messages\<close> bodies are translated to the OpenAI request map, and the completion that
  comes back to an Anthropic message. \<open>marshal\<close>, \<open>valid\<close> (\<open>json.Valid\<close>) and \<open>decode\<close> (a map
  marshalled and unmarshalled into \<open>ChatCompletion\<close>) are \<open>encoding/json\<close> as arguments. The
  reference definitions of the last subsections say what a turn expands to without the
  loop's accumulators.
\<close>

subsection \<open>Identifiers\<close>

definition new_message_id :: "(nat \<Rightarrow> string) \<Rightarrow> nat \<Rightarrow> string \<times> nat" where
  "new_message_id rnd k = (''msg_'' @ rnd k, Suc k)"

definition new_tool_use_id :: "(nat \<Rightarrow> string) \<Rightarrow> nat \<Rightarrow> string \<times> nat" where
  "new_tool_use_id rnd k = (''toolu_'' @ rnd k, Suc k)"

subsection \<open>Request translation\<close>

definition text_gap :: string where "text_gap = [CHR 0x0A, CHR 0x0A]"

definition is_text_block :: "json \<Rightarrow> bool" where
  "is_text_block b \<longleftrightarrow> is_obj b \<and> idx (as_obj b) ''type'' = JStr ''text''"

fun blocks_text :: "json \<Rightarrow> string" where
  "blocks_text (JStr c) = c"
| "blocks_text (JArr c) =
     join text_gap
       (filter (\<lambda>t. t \<noteq> []) (map (\<lambda>b. as_str (idx (as_obj b) ''text'')) (filter is_text_block c)))"
| "blocks_text _ = []"

definition join_text_parts :: "json list \<Rightarrow> string" where
  "join_text_parts parts =
     join text_gap (filter (\<lambda>t. t \<noteq> []) (map (\<lambda>p. as_str (idx (as_obj p) ''text'')) parts))"

definition image_data_url :: "json \<Rightarrow> string" where
  "image_data_url src =
     (let s = as_obj src in
      if \<not> is_obj src then []
      else if idx s ''type'' = JStr ''base64'' then
        (let mt = as_str (idx s ''media_type''); data = as_str (idx s ''data'') in
         if data = [] then [] else ''data:'' @ mt @ '';base64,'' @ data)
      else if idx s ''type'' = JStr ''url'' then as_str (idx s ''url'')
      else [])"

definition tool_use_args :: "(json \<Rightarrow> string option) \<Rightarrow> json \<Rightarrow> string" where
  "tool_use_args marshal input =
     (case marshal input of
        None \<Rightarrow> ''{}''
      | Some args \<Rightarrow> if input = JNull then ''{}'' else args)"

text \<open>The accumulators of the loop over one turn's blocks.\<close>

record turn_acc =
  ta_out :: "json list"
  ta_parts :: "json list"
  ta_calls :: "json list"
  ta_image :: bool

definition text_part :: "obj \<Rightarrow> json" where
  "text_part block =
     JObj [(''type'', JStr ''text''), (''text'', JStr (as_str (idx block ''text'')))]"

definition image_part :: "string \<Rightarrow> json" where
  "image_part url =
     JObj [(''type'', JStr ''image_url''), (''image_url'', JObj [(''url'', JStr url)])]"

definition tool_call_part :: "(json \<Rightarrow> string option) \<Rightarrow> obj \<Rightarrow> json" where
  "tool_call_part marshal block =
     JObj [(''id'', idx block ''id''), (''type'', JStr ''function''),
       (''function'', JObj [(''name'', idx block ''name''),
          (''arguments'', JStr (tool_use_args marshal (idx block ''input'')))])]"

definition tool_result_message :: "obj \<Rightarrow> json" where
  "tool_result_message block =
     (let content = blocks_text (idx block ''content'') in
      JObj [(''role'', JStr ''tool''), (''tool_call_id'', idx block ''tool_use_id''),
        (''content'', JStr (if as_bool (idx block ''is_error'') then ''Error: '' @ content else content))])"

definition turn_block :: "(json \<Rightarrow> string option) \<Rightarrow> turn_acc \<Rightarrow> json \<Rightarrow> turn_acc" where
  "turn_block marshal a b =
     (let block = as_obj b; ty = idx block ''type'' in
      if \<not> is_obj b then a
      else if ty = JStr ''text'' then a\<lparr>ta_parts := ta_parts a @ [text_part block]\<rparr>
      else if ty = JStr ''image'' then
        (let url = image_data_url (idx block ''source'') in
         if url \<noteq> [] then a\<lparr>ta_image := True, ta_parts := ta_parts a @ [image_part url]\<rparr> else a)
      else if ty = JStr ''tool_use'' then
        a\<lparr>ta_calls := ta_calls a @ [tool_call_part marshal block]\<rparr>
      else if ty = JStr ''tool_result'' then
        a\<lparr>ta_out := ta_out a @ [tool_result_message block]\<rparr>
      else a)"

definition anthropic_message_to_openai :: "(json \<Rightarrow> string option) \<Rightarrow> obj \<Rightarrow> json list" where
  "anthropic_message_to_openai marshal msg =
     (let role = as_str (idx msg ''role'') in
      case idx msg ''content'' of
        JStr s \<Rightarrow> [JObj [(''role'', JStr role), (''content'', JStr s)]]
      | content \<Rightarrow>
          (let a = foldl (turn_block marshal) \<lparr>ta_out = [], ta_parts = [], ta_calls = [], ta_image = False\<rparr>
                     (as_arr content) in
           if ta_parts a = [] \<and> ta_calls a = [] then ta_out a
           else
             let content' = (if ta_image a then JArr (ta_parts a)
                             else if ta_parts a \<noteq> [] then JStr (join_text_parts (ta_parts a))
                             else JNull);
                 turn = [(''role'', JStr role), (''content'', content')]
             in ta_out a @
                [JObj (obj_opt ''tool_calls'' (if ta_calls a \<noteq> [] then Some (JArr (ta_calls a)) else None) turn)]))"

text \<open>Tools without an \<open>input_schema\<close> are Anthropic's own server tools and are skipped.\<close>

definition anthropic_tool :: "json \<Rightarrow> json option" where
  "anthropic_tool t =
     (if \<not> is_obj t then None
      else case map_of (as_obj t) ''input_schema'' of
        None \<Rightarrow> None
      | Some schema \<Rightarrow>
          (let tool = as_obj t;
               fn = [(''name'', idx tool ''name''), (''parameters'', schema)];
               desc = (case idx tool ''description'' of
                         JStr d \<Rightarrow> if d \<noteq> [] then Some (JStr d) else None | _ \<Rightarrow> None)
           in Some (JObj [(''type'', JStr ''function''),
                          (''function'', JObj (obj_opt ''description'' desc fn))])))"

definition anthropic_tools :: "json \<Rightarrow> json list" where
  "anthropic_tools v = List.map_filter anthropic_tool (as_arr v)"

definition anthropic_tool_choice :: "json \<Rightarrow> json option" where
  "anthropic_tool_choice v =
     (let tc = as_obj v; ty = idx tc ''type'' in
      if \<not> is_obj v then None
      else if ty = JStr ''auto'' then Some (JStr ''auto'')
      else if ty = JStr ''any'' then Some (JStr ''required'')
      else if ty = JStr ''none'' then Some (JStr ''none'')
      else if ty = JStr ''tool'' then
        Some (JObj [(''type'', JStr ''function''), (''function'', JObj [(''name'', idx tc ''name'')])])
      else None)"

definition anthropic_messages :: "(json \<Rightarrow> string option) \<Rightarrow> obj \<Rightarrow> json list" where
  "anthropic_messages marshal data =
     (let sys = blocks_text (idx data ''system'') in
      (if sys \<noteq> [] then [JObj [(''role'', JStr ''system''), (''content'', JStr sys)]] else []) @
      concat (map (\<lambda>m. if is_obj m then anthropic_message_to_openai marshal (as_obj m) else [])
                (as_arr (idx data ''messages''))))"

definition anthropic_to_openai :: "(json \<Rightarrow> string option) \<Rightarrow> obj \<Rightarrow> obj \<times> json list" where
  "anthropic_to_openai marshal data =
     (let out0 = [(''model'', idx data ''model'')];
          out1 = foldl (\<lambda>o' k. obj_opt k (map_of data k) o') out0
                   [''max_tokens'', ''temperature'', ''top_p'', ''stream''];
          stops = as_arr (idx data ''stop_sequences'');
          out2 = obj_opt ''stop'' (if stops \<noteq> [] then Some (JArr stops) else None) out1;
          tools = anthropic_tools (idx data ''tools'');
          out3 = (if tools \<noteq> []
                  then obj_opt ''tool_choice'' (anthropic_tool_choice (idx data ''tool_choice''))
                         (obj_set ''tools'' (JArr tools) out2)
                  else out2)
      in (out3, anthropic_messages marshal data))"

subsection \<open>Reply translation\<close>

definition stop_reason_from_finish :: "string \<Rightarrow> string" where
  "stop_reason_from_finish finish =
     (if finish = ''length'' then stop_max_tokens
      else if finish = ''tool_calls'' \<or> finish = ''function_call'' then stop_tool_use
      else stop_end_turn)"

definition tool_input :: "(string \<Rightarrow> bool) \<Rightarrow> string \<Rightarrow> string" where
  "tool_input valid args = (if trim_space args = [] \<or> \<not> valid args then ''{}'' else args)"

datatype payload = PTyped chat_completion | PMap obj

fun tool_blocks ::
  "(string \<Rightarrow> bool) \<Rightarrow> (nat \<Rightarrow> string) \<Rightarrow> nat \<Rightarrow> tool_call list \<Rightarrow> content_block list \<times> nat" where
  "tool_blocks valid rnd k [] = ([], k)"
| "tool_blocks valid rnd k (tc # tcs) =
     (let (i, k1) = (if tc_id tc = [] then new_tool_use_id rnd k else (tc_id tc, k));
          (rest, k2) = tool_blocks valid rnd k1 tcs
      in (\<lparr>cb_type = ''tool_use'', cb_text = None, cb_id = i, cb_name = fc_name (tc_function tc),
           cb_input = Some (tool_input valid (fc_arguments (tc_function tc)))\<rparr> # rest, k2))"

definition text_block :: "string \<Rightarrow> content_block" where
  "text_block t = \<lparr>cb_type = ''text'', cb_text = Some t, cb_id = [], cb_name = [], cb_input = None\<rparr>"

definition completion_to_anthropic ::
  "(string \<Rightarrow> bool) \<Rightarrow> (nat \<Rightarrow> string) \<Rightarrow> nat \<Rightarrow> chat_completion \<Rightarrow> string \<Rightarrow> anthropic_message \<times> nat" where
  "completion_to_anthropic valid rnd k cc model =
     (let (mid, k1) = new_message_id rnd k;
          msg = \<lparr>am_id = mid, am_type = ''message'', am_role = ''assistant'', am_model = model,
                 am_content = [], am_stop_reason = Some stop_end_turn, am_stop_sequence = None,
                 am_usage = \<lparr>au_input = u_prompt (cpl_usage cc), au_output = u_completion (cpl_usage cc)\<rparr>\<rparr>
      in case cpl_choices cc of
           [] \<Rightarrow> (msg, k1)
         | choice # _ \<Rightarrow>
             (let text = msg_content (ch_message choice);
                  calls = msg_tool_calls (ch_message choice);
                  (blocks, k2) = tool_blocks valid rnd k1 calls;
                  finish = (case ch_finish choice of None \<Rightarrow> [] | Some f \<Rightarrow> f)
              in (msg\<lparr>am_content := (if text \<noteq> [] then [text_block text] else []) @ blocks,
                      am_stop_reason := Some (if calls \<noteq> [] then stop_tool_use
                                              else stop_reason_from_finish finish)\<rparr>, k2)))"

text \<open>\<open>None\<close>: the relayed map does not decode as a completion.\<close>

definition openai_to_anthropic ::
  "(obj \<Rightarrow> chat_completion option) \<Rightarrow> (string \<Rightarrow> bool) \<Rightarrow> (nat \<Rightarrow> string) \<Rightarrow> nat \<Rightarrow> payload \<Rightarrow>
   string \<Rightarrow> (anthropic_message \<times> nat) option" where
  "openai_to_anthropic decode valid rnd k p model =
     (case (case p of PTyped c \<Rightarrow> Some c | PMap m \<Rightarrow> decode m) of
        None \<Rightarrow> None
      | Some cc \<Rightarrow> Some (completion_to_anthropic valid rnd k cc model))"

subsection \<open>Token estimate\<close>

definition estimate_tokens :: "(json \<Rightarrow> string option) \<Rightarrow> json list \<Rightarrow> int" where
  "estimate_tokens marshal vs =
     (let n = foldl (\<lambda>n x. if x = JNull then n
                else (case marshal x of None \<Rightarrow> n | Some b \<Rightarrow> n + int (length b))) 0 vs
      in go_div (n + 3) 4)"

subsection \<open>What a turn expands to\<close>

definition typed_blocks :: "string \<Rightarrow> json list \<Rightarrow> obj list" where
  "typed_blocks ty blocks =
     map as_obj (filter (\<lambda>b. is_obj b \<and> idx (as_obj b) ''type'' = JStr ty) blocks)"

definition turn_part :: "json \<Rightarrow> json list" where
  "turn_part b =
     (let block = as_obj b in
      if \<not> is_obj b then []
      else if idx block ''type'' = JStr ''text'' then [text_part block]
      else if idx block ''type'' = JStr ''image'' \<and> image_data_url (idx block ''source'') \<noteq> []
      then [image_part (image_data_url (idx block ''source''))]
      else [])"

definition has_image :: "json list \<Rightarrow> bool" where
  "has_image blocks \<longleftrightarrow>
     list_ex (\<lambda>b. image_data_url (idx b ''source'') \<noteq> []) (typed_blocks ''image'' blocks)"

lemma turn_block_step:
  "turn_block marshal a b =
     \<lparr>ta_out = ta_out a @ map tool_result_message (typed_blocks ''tool_result'' [b]),
      ta_parts = ta_parts a @ turn_part b,
      ta_calls = ta_calls a @ map (tool_call_part marshal) (typed_blocks ''tool_use'' [b]),
      ta_image = (ta_image a \<or> has_image [b])\<rparr>"
  by (cases "is_obj b")
    (auto simp: turn_block_def typed_blocks_def turn_part_def has_image_def Let_def)

lemma typed_blocks_Cons: "typed_blocks ty (b # bs) = typed_blocks ty [b] @ typed_blocks ty bs"
  by (simp add: typed_blocks_def)

lemma has_image_Cons: "has_image (b # bs) \<longleftrightarrow> has_image [b] \<or> has_image bs"
  by (simp add: has_image_def typed_blocks_def)

lemma turn_fold:
  "foldl (turn_block marshal) a blocks =
     \<lparr>ta_out = ta_out a @ map tool_result_message (typed_blocks ''tool_result'' blocks),
      ta_parts = ta_parts a @ concat (map turn_part blocks),
      ta_calls = ta_calls a @ map (tool_call_part marshal) (typed_blocks ''tool_use'' blocks),
      ta_image = (ta_image a \<or> has_image blocks)\<rparr>"
proof (induction blocks arbitrary: a)
  case Nil
  then show ?case by (simp add: typed_blocks_def has_image_def)
next
  case (Cons b bs)
  then show ?case
    by (simp add: turn_block_step typed_blocks_Cons [of _ b bs] has_image_Cons [of b bs])
qed

text \<open>
  C28. A turn of content blocks becomes its tool results, one \<open>tool\<close> message each and in
  order, before at most one message for the rest; that message carries one OpenAI call per
  \<open>tool_use\<close> block, and its content is the part list when there is a usable image, the
  texts joined by blank lines when there are only texts, and null when there are only calls.
\<close>

theorem anthropic_turn_expansion:
  assumes "idx msg ''content'' = JArr blocks"
  shows "anthropic_message_to_openai marshal msg =
    map tool_result_message (typed_blocks ''tool_result'' blocks) @
    (let parts = concat (map turn_part blocks);
         calls = map (tool_call_part marshal) (typed_blocks ''tool_use'' blocks)
     in if parts = [] \<and> calls = [] then []
        else [JObj (obj_opt ''tool_calls'' (if calls \<noteq> [] then Some (JArr calls) else None)
               [(''role'', JStr (as_str (idx msg ''role''))),
                (''content'', if has_image blocks then JArr parts
                            else if parts \<noteq> [] then JStr (join_text_parts parts) else JNull)])])"
  using assms by (simp add: anthropic_message_to_openai_def turn_fold Let_def)

lemma anthropic_turn_expansion_witness:
  "length (anthropic_message_to_openai (\<lambda>_. None)
     [(''role'', JStr ''user''),
      (''content'', JArr [JObj [(''type'', JStr ''text''), (''text'', JStr ''hi'')],
         JObj [(''type'', JStr ''tool_result''), (''tool_use_id'', JStr ''t1''), (''content'', JStr ''ok'')]])]) = 2"
  using anthropic_turn_expansion [of
     "[(''role'', JStr ''user''),
      (''content'', JArr [JObj [(''type'', JStr ''text''), (''text'', JStr ''hi'')],
         JObj [(''type'', JStr ''tool_result''), (''tool_use_id'', JStr ''t1''), (''content'', JStr ''ok'')]])]"
     "[JObj [(''type'', JStr ''text''), (''text'', JStr ''hi'')],
         JObj [(''type'', JStr ''tool_result''), (''tool_use_id'', JStr ''t1''), (''content'', JStr ''ok'')]]"
     "\<lambda>_. None"]
  by (simp add: typed_blocks_def turn_part_def Let_def)

lemma anthropic_tools_have_schema:
  "t \<in> set (anthropic_tools v) \<Longrightarrow>
     \<exists>src schema. src \<in> set (as_arr v) \<and> map_of (as_obj src) ''input_schema'' = Some schema \<and>
       idx (as_obj (idx (as_obj t) ''function'')) ''parameters'' = schema"
proof -
  assume "t \<in> set (anthropic_tools v)"
  then obtain src where src: "src \<in> set (as_arr v)" and t: "anthropic_tool src = Some t"
    by (auto simp: anthropic_tools_def map_filter_def)
  then obtain schema where "map_of (as_obj src) ''input_schema'' = Some schema"
    by (auto simp: anthropic_tool_def split: if_splits option.splits)
  with src t show ?thesis
    by (auto simp: anthropic_tool_def Let_def split: if_splits)
qed

subsection \<open>What a reply becomes\<close>

lemma tool_blocks_spec:
  "length (fst (tool_blocks valid rnd k tcs)) = length tcs \<and>
   (\<forall>i < length tcs.
      let b = fst (tool_blocks valid rnd k tcs) ! i; tc = tcs ! i in
      cb_type b = ''tool_use'' \<and> cb_id b \<noteq> [] \<and> (tc_id tc \<noteq> [] \<longrightarrow> cb_id b = tc_id tc) \<and>
      cb_name b = fc_name (tc_function tc) \<and>
      cb_input b = Some (tool_input valid (fc_arguments (tc_function tc))))"
proof (induction tcs arbitrary: k)
  case Nil
  then show ?case by simp
next
  case (Cons tc tcs)
  obtain i k1 where ik: "(if tc_id tc = [] then new_tool_use_id rnd k else (tc_id tc, k)) = (i, k1)"
    by fastforce
  have i: "i \<noteq> []" "tc_id tc \<noteq> [] \<longrightarrow> i = tc_id tc"
    using ik by (auto simp: new_tool_use_id_def split: if_splits)
  show ?case using Cons.IH [of k1] i
    by (auto simp: ik Let_def case_prod_beta nth_Cons split: nat.splits)
qed

lemma tool_input_valid: "valid ''{}'' \<Longrightarrow> valid (tool_input valid args)"
  by (simp add: tool_input_def)

text \<open>
  A completion becomes one assistant message: its first choice's text, if any, as one
  text block, then one \<open>tool_use\<close> block per tool call in order, with a non-empty id (the
  call's own where it has one) and an input that is valid JSON; the stop reason is
  \<open>tool_use\<close> whenever there are calls, whatever finish reason the engine gave.
\<close>

theorem anthropic_reply_blocks:
  assumes "valid ''{}''" and "cpl_choices cc = choice # rest"
  shows "\<exists>blocks. am_content (fst (completion_to_anthropic valid rnd k cc model)) =
      (if msg_content (ch_message choice) \<noteq> [] then [text_block (msg_content (ch_message choice))] else [])
      @ blocks \<and>
    length blocks = length (msg_tool_calls (ch_message choice)) \<and>
    (\<forall>i < length blocks.
       cb_type (blocks ! i) = ''tool_use'' \<and> cb_id (blocks ! i) \<noteq> [] \<and>
       (tc_id (msg_tool_calls (ch_message choice) ! i) \<noteq> [] \<longrightarrow>
          cb_id (blocks ! i) = tc_id (msg_tool_calls (ch_message choice) ! i)) \<and>
       cb_name (blocks ! i) = fc_name (tc_function (msg_tool_calls (ch_message choice) ! i)) \<and>
       (\<exists>inp. cb_input (blocks ! i) = Some inp \<and> valid inp)) \<and>
    (blocks \<noteq> [] \<longrightarrow>
       am_stop_reason (fst (completion_to_anthropic valid rnd k cc model)) = Some stop_tool_use)"
proof -
  let ?calls = "msg_tool_calls (ch_message choice)"
  obtain blocks k2 where b: "tool_blocks valid rnd (Suc k) ?calls = (blocks, k2)" by fastforce
  with tool_blocks_spec [of valid rnd "Suc k" ?calls]
  have len: "length blocks = length ?calls"
    and nth: "\<forall>i < length ?calls. cb_type (blocks ! i) = ''tool_use'' \<and> cb_id (blocks ! i) \<noteq> [] \<and>
       (tc_id (?calls ! i) \<noteq> [] \<longrightarrow> cb_id (blocks ! i) = tc_id (?calls ! i)) \<and>
       cb_name (blocks ! i) = fc_name (tc_function (?calls ! i)) \<and>
       cb_input (blocks ! i) = Some (tool_input valid (fc_arguments (tc_function (?calls ! i))))"
    by (simp_all add: Let_def)
  have "blocks \<noteq> [] \<Longrightarrow> ?calls \<noteq> []" using len by auto
  with b len nth assms(2) tool_input_valid [of valid, OF assms(1)] show ?thesis
    by (simp add: completion_to_anthropic_def new_message_id_def Let_def)
qed

lemma anthropic_reply_blocks_witness:
  "am_stop_reason (fst (completion_to_anthropic (\<lambda>s. s = ''{}'') (\<lambda>_. ''00'') 0
     \<lparr>cpl_id = ''c'', cpl_object = ''chat.completion'', cpl_created = 0, cpl_model = ''m'',
      cpl_choices = [\<lparr>ch_index = 0, ch_message = \<lparr>msg_role = ''assistant'', msg_content = [],
         msg_tool_calls = [\<lparr>tc_id = ''a'', tc_type = ''function'',
           tc_function = \<lparr>fc_name = ''ls'', fc_arguments = ''{''\<rparr>\<rparr>]\<rparr>, ch_finish = Some ''stop''\<rparr>],
      cpl_usage = \<lparr>u_prompt = 1, u_completion = 1, u_total = 2\<rparr>\<rparr> ''m'')) = Some ''tool_use''"
  using anthropic_reply_blocks [of "\<lambda>s. s = ''{}''"
     "\<lparr>cpl_id = ''c'', cpl_object = ''chat.completion'', cpl_created = 0, cpl_model = ''m'',
      cpl_choices = [\<lparr>ch_index = 0, ch_message = \<lparr>msg_role = ''assistant'', msg_content = [],
         msg_tool_calls = [\<lparr>tc_id = ''a'', tc_type = ''function'',
           tc_function = \<lparr>fc_name = ''ls'', fc_arguments = ''{''\<rparr>\<rparr>]\<rparr>, ch_finish = Some ''stop''\<rparr>],
      cpl_usage = \<lparr>u_prompt = 1, u_completion = 1, u_total = 2\<rparr>\<rparr>" _ "[]" "\<lambda>_. ''00''" 0 "''m''"]
  by (auto simp: stop_tool_use_def)

text \<open>
  Tool use survives the trip there and back: a \<open>tool_use\<close> block of the history
  becomes an OpenAI call with the block's id, name and encoded input, and a completion with
  that call becomes a \<open>tool_use\<close> block with the same id, name and input text, for an
  input that encodes to valid, non-blank JSON.
\<close>

theorem tool_use_roundtrip:
  assumes "idx block ''id'' = JStr i" and "i \<noteq> []" and "idx block ''name'' = JStr n"
    and "idx block ''input'' \<noteq> JNull" and "marshal (idx block ''input'') = Some inp"
    and "valid inp" and "trim_space inp \<noteq> []"
  shows "let fn = as_obj (idx (as_obj (tool_call_part marshal block)) ''function'');
             tc = \<lparr>tc_id = call_id (tool_call_part marshal block), tc_type = ''function'',
                   tc_function = \<lparr>fc_name = call_name (tool_call_part marshal block),
                                  fc_arguments = as_str (idx fn ''arguments'')\<rparr>\<rparr>
         in fst (tool_blocks valid rnd k [tc]) =
            [\<lparr>cb_type = ''tool_use'', cb_text = None, cb_id = i, cb_name = n, cb_input = Some inp\<rparr>]"
  using assms
  by (simp add: tool_call_part_def tool_use_args_def call_id_def call_name_def tool_input_def Let_def)

lemma tool_use_roundtrip_witness:
  "fst (tool_blocks (\<lambda>s. s = ''{\"p\":1}'') (\<lambda>_. ''00'') 0
     [\<lparr>tc_id = ''t1'', tc_type = ''function'',
       tc_function = \<lparr>fc_name = ''ls'', fc_arguments = ''{\"p\":1}''\<rparr>\<rparr>]) =
   [\<lparr>cb_type = ''tool_use'', cb_text = None, cb_id = ''t1'', cb_name = ''ls'', cb_input = Some ''{\"p\":1}''\<rparr>]"
  using tool_use_roundtrip [of "[(''id'', JStr ''t1''), (''name'', JStr ''ls''), (''input'', JObj [(''p'', JNum 1 0)])]"
     "''t1''" "''ls''" "\<lambda>_. Some ''{\"p\":1}''" "''{\"p\":1}''" "\<lambda>s. s = ''{\"p\":1}''" "\<lambda>_. ''00''" 0]
  by (simp add: tool_call_part_def tool_use_args_def call_id_def call_name_def trim_space_eval Let_def)

lemma estimate_tokens_sum:
  "foldl (\<lambda>n x. if x = JNull then n else (case marshal x of None \<Rightarrow> n | Some b \<Rightarrow> n + int (length b))) m vs =
   m + (\<Sum>x \<leftarrow> filter (\<lambda>x. x \<noteq> JNull) vs. case marshal x of None \<Rightarrow> 0 | Some b \<Rightarrow> int (length b))"
  by (induction vs arbitrary: m) (auto split: option.split)

end
