(* ===== verification/Text_Bounds.thy ===== *)
theory Text_Bounds
  imports Go_Prelude
begin

section \<open>Cutting text on rune boundaries\<close>

text \<open>
  \<open>truncateInput\<close> (auth.go), \<open>truncateTo\<close> (request_detail.go) and
  \<open>streamAudit.write\<close> (api_handlers.go) bound a string in bytes and back off to the start
  of a rune. The lemmas show that the result is the longest prefix of whole runes within the
  bound, so valid UTF-8 stays valid, and that the audit buffer keeps its limit.
\<close>

subsection \<open>UTF-8\<close>

text \<open>The length a lead byte announces, 0 for a byte that starts no rune.\<close>

definition seq_len :: "char \<Rightarrow> nat" where
  "seq_len a =
     (let n = byte a in
      if n < 0x80 then 1 else if 0xC2 \<le> n \<and> n \<le> 0xDF then 2
      else if 0xE0 \<le> n \<and> n \<le> 0xEF then 3 else if 0xF0 \<le> n \<and> n \<le> 0xF4 then 4 else 0)"

text \<open>The bytes after the lead: continuation bytes, with no overlong form and no surrogate.\<close>

definition tail_ok :: "char \<Rightarrow> string \<Rightarrow> bool" where
  "tail_ok a bs \<longleftrightarrow>
     (\<forall>b \<in> set bs. \<not> rune_start b) \<and>
     (byte a = 0xE0 \<longrightarrow> 0xA0 \<le> byte (hd bs)) \<and>
     (byte a = 0xED \<longrightarrow> byte (hd bs) \<le> 0x9F) \<and>
     (byte a = 0xF0 \<longrightarrow> 0x90 \<le> byte (hd bs)) \<and>
     (byte a = 0xF4 \<longrightarrow> byte (hd bs) \<le> 0x8F)"

fun valid_utf8 :: "string \<Rightarrow> bool" where
  "valid_utf8 [] = True"
| "valid_utf8 (a # s) =
     (seq_len a \<noteq> 0 \<and> seq_len a - 1 \<le> length s \<and> tail_ok a (take (seq_len a - 1) s) \<and>
      valid_utf8 (drop (seq_len a - 1) s))"

lemma seq_len_rune_start: "seq_len a \<noteq> 0 \<Longrightarrow> rune_start a"
  by (auto simp: seq_len_def rune_start_def Let_def split: if_splits)

lemma valid_utf8_hd: "valid_utf8 s \<Longrightarrow> s \<noteq> [] \<Longrightarrow> rune_start (hd s)"
  by (cases s) (auto intro: seq_len_rune_start)

text \<open>A position of valid text that starts a rune splits it into two valid texts.\<close>

lemma valid_utf8_split:
  assumes "valid_utf8 s" and "k < length s" and "rune_start (s ! k)"
  shows "valid_utf8 (take k s) \<and> valid_utf8 (drop k s)"
  using assms
proof (induction s arbitrary: k rule: valid_utf8.induct)
  case 1
  then show ?case by simp
next
  case (2 a s)
  define m where "m = seq_len a - 1"
  show ?case
  proof (cases k)
    case 0
    with "2.prems" show ?thesis by simp
  next
    case (Suc j)
    have ok: "seq_len a \<noteq> 0" "m \<le> length s" "tail_ok a (take m s)" "valid_utf8 (drop m s)"
      using "2.prems" by (simp_all add: m_def)
    have "\<not> j < m"
    proof
      assume "j < m"
      with ok(2) have "s ! j \<in> set (take m s)"
        by (metis in_set_conv_nth length_take min.absorb2 nth_take)
      with ok(3) "2.prems" Suc show False by (simp add: tail_ok_def)
    qed
    then obtain i where j: "j = m + i" by (metis le_iff_add not_less)
    have "valid_utf8 (take i (drop m s)) \<and> valid_utf8 (drop i (drop m s))"
    proof (rule "2.IH" [folded m_def])
      show "valid_utf8 (drop m s)" by (rule ok(4))
      show "i < length (drop m s)" using "2.prems" Suc j by simp
      show "rune_start (drop m s ! i)" using "2.prems" Suc j ok(2) by simp
    qed
    moreover have "take m (take j s) = take m s" and "drop m (take j s) = take i (drop m s)"
      and "drop i (drop m s) = drop j s"
      using j by (simp_all add: drop_take min_def add.commute)
    moreover have "m \<le> length (take j s)" using j ok(2) Suc "2.prems"(2) by simp
    moreover have "seq_len a - Suc 0 = m" by (simp add: m_def)
    ultimately show ?thesis using ok Suc by (simp add: min_def)
  qed
qed

lemma valid_utf8_drop:
  "valid_utf8 s \<Longrightarrow> valid_utf8 (take k s) \<Longrightarrow> valid_utf8 (drop k s)"
proof (induction s arbitrary: k rule: valid_utf8.induct)
  case 1
  then show ?case by simp
next
  case (2 a s)
  define n where "n = seq_len a"
  show ?case
  proof (cases k)
    case 0
    with "2.prems" show ?thesis by simp
  next
    case (Suc j)
    have ok: "n \<noteq> 0" "n - 1 \<le> length s" "valid_utf8 (drop (n - 1) s)"
      using "2.prems" by (simp_all add: n_def)
    have le: "n - 1 \<le> length (take j s)" and v: "valid_utf8 (drop (n - 1) (take j s))"
      using "2.prems"(2) Suc by (simp_all add: n_def)
    then obtain i where j: "j = n - 1 + i" by (metis le_iff_add length_take min.boundedE)
    from v j have "valid_utf8 (take i (drop (n - 1) s))" by (simp add: drop_take)
    with "2.IH" ok have "valid_utf8 (drop i (drop (n - 1) s))" by (simp add: n_def)
    with j Suc show ?thesis by (simp add: add.commute)
  qed
qed

lemma valid_utf8_append:
  "valid_utf8 s \<Longrightarrow> valid_utf8 t \<Longrightarrow> valid_utf8 (s @ t)"
  by (induction s rule: valid_utf8.induct) auto

subsection \<open>Runes\<close>

text \<open>
  A \<open>range\<close> over a string, as \<open>strings.IndexFunc\<close> walks it: an invalid byte is one rune
  U+FFFD.
\<close>

definition rune_of :: "char \<Rightarrow> string \<Rightarrow> nat" where
  "rune_of a bs =
     (case bs of
        [] \<Rightarrow> byte a
      | [b] \<Rightarrow> (byte a - 0xC0) * 64 + (byte b - 0x80)
      | [b, c] \<Rightarrow> (byte a - 0xE0) * 4096 + (byte b - 0x80) * 64 + (byte c - 0x80)
      | b # c # d # _ \<Rightarrow>
          (byte a - 0xF0) * 262144 + (byte b - 0x80) * 4096 + (byte c - 0x80) * 64 + (byte d - 0x80))"

fun decode_runes :: "string \<Rightarrow> nat list" where
  "decode_runes [] = []"
| "decode_runes (a # s) =
     (if seq_len a \<noteq> 0 \<and> seq_len a - 1 \<le> length s \<and> tail_ok a (take (seq_len a - 1) s)
      then rune_of a (take (seq_len a - 1) s) # decode_runes (drop (seq_len a - 1) s)
      else 0xFFFD # decode_runes s)"

subsection \<open>The cut\<close>

text \<open>The loop \<open>for n > 0 && !utf8.RuneStart(s[n]) { n-- }\<close>.\<close>

fun rune_cut :: "string \<Rightarrow> nat \<Rightarrow> nat" where
  "rune_cut s 0 = 0"
| "rune_cut s (Suc n) = (if rune_start (s ! Suc n) then Suc n else rune_cut s n)"

text \<open>
  \<open>None\<close> is Go's run-time panic: a negative bound reaches the slice expression \<open>s[:n]\<close>.
\<close>

definition truncate_to :: "string \<Rightarrow> int \<Rightarrow> string option" where
  "truncate_to s n =
     (if int (length s) \<le> n then Some s
      else if n < 0 then None
      else Some (take (rune_cut s (nat n)) s))"

definition truncate_input :: "int \<Rightarrow> string \<Rightarrow> string option" where
  "truncate_input max_msg_len text =
     (if int (length text) \<le> max_msg_len then Some text
      else if max_msg_len < 0 then None
      else Some (take (rune_cut text (nat max_msg_len)) text))"

lemma truncate_input_eq: "truncate_input n s = truncate_to s n"
  by (simp add: truncate_input_def truncate_to_def)

lemma rune_cut_le: "rune_cut s n \<le> n"
  by (induction s n rule: rune_cut.induct) auto

lemma rune_cut_start: "rune_cut s n \<noteq> 0 \<Longrightarrow> rune_start (s ! rune_cut s n)"
  by (induction s n rule: rune_cut.induct) auto

lemma rune_cut_max: "j \<le> n \<Longrightarrow> rune_start (s ! j) \<Longrightarrow> j \<le> rune_cut s n"
  by (induction s n rule: rune_cut.induct) (auto simp: le_Suc_eq)

lemma rune_cut_valid:
  "valid_utf8 s \<Longrightarrow> n < length s \<Longrightarrow> valid_utf8 (take (rune_cut s n) s)"
  using valid_utf8_split [of s "rune_cut s n"] rune_cut_start [of s n] rune_cut_le [of s n]
  by (cases "rune_cut s n = 0") auto

lemma truncate_to_total: "0 \<le> n \<Longrightarrow> \<exists>t. truncate_to s n = Some t"
  by (simp add: truncate_to_def)

lemma truncate_to_prefix: "truncate_to s n = Some t \<Longrightarrow> \<exists>k. t = take k s"
  by (auto simp: truncate_to_def split: if_splits intro: exI [of _ "length s"])

lemma truncate_to_length: "truncate_to s n = Some t \<Longrightarrow> int (length t) \<le> n"
  using rune_cut_le [of s "nat n"] by (auto simp: truncate_to_def min_def split: if_splits)

lemma truncate_to_valid: "truncate_to s n = Some t \<Longrightarrow> valid_utf8 s \<Longrightarrow> valid_utf8 t"
  by (auto simp: truncate_to_def intro!: rune_cut_valid split: if_splits)

lemma truncate_to_longest:
  assumes "truncate_to s n = Some t" and "valid_utf8 s" and "valid_utf8 (take j s)"
    and "int j \<le> n" and "j \<le> length s"
  shows "j \<le> length t"
proof (cases "int (length s) \<le> n")
  case True
  with assms show ?thesis by (simp add: truncate_to_def)
next
  case False
  with assms(1) have t: "t = take (rune_cut s (nat n)) s" by (simp add: truncate_to_def split: if_splits)
  from False assms(4) have lt: "j < length s" by linarith
  with assms(2,3) have "rune_start (hd (drop j s))"
    by (intro valid_utf8_hd valid_utf8_drop) auto
  with lt have "rune_start (s ! j)" by (simp add: hd_drop_conv_nth)
  moreover have "j \<le> nat n" using assms(4) by simp
  ultimately have "j \<le> rune_cut s (nat n)" by (rule rune_cut_max [rotated])
  with lt t show ?thesis by simp
qed

text \<open>
  For a bound that is not negative, \<open>truncateTo\<close> returns, and of valid UTF-8 it returns
  the longest prefix of whole runes that fits: the result is valid UTF-8, a prefix of the
  text, within the bound, and no valid prefix within the bound is longer.
\<close>

theorem truncate_to_longest_valid_prefix:
  assumes "0 \<le> n" and "valid_utf8 s"
  shows "\<exists>k. truncate_to s n = Some (take k s) \<and> k \<le> length s \<and> int k \<le> n \<and>
    valid_utf8 (take k s) \<and>
    (\<forall>j. j \<le> length s \<longrightarrow> int j \<le> n \<longrightarrow> valid_utf8 (take j s) \<longrightarrow> j \<le> k)"
proof -
  obtain t where t: "truncate_to s n = Some t" using truncate_to_total assms(1) by blast
  then obtain k0 where "t = take k0 s" using truncate_to_prefix by blast
  then have tk: "t = take (length t) s" and len: "length t \<le> length s"
    by (simp_all add: min_def)
  show ?thesis
  proof (intro exI conjI)
    show "truncate_to s n = Some (take (length t) s)" using t tk by simp
    show "length t \<le> length s" by (rule len)
    show "int (length t) \<le> n" by (rule truncate_to_length [OF t])
    show "valid_utf8 (take (length t) s)" using truncate_to_valid [OF t assms(2)] tk by simp
    show "\<forall>j. j \<le> length s \<longrightarrow> int j \<le> n \<longrightarrow> valid_utf8 (take j s) \<longrightarrow> j \<le> length t"
      using truncate_to_longest [OF t assms(2)] by blast
  qed
qed

lemma truncate_to_longest_valid_prefix_witness:
  "\<exists>k. truncate_to [CHR ''a'', CHR 0xC3, CHR 0xA9] 2 = Some (take k [CHR ''a'', CHR 0xC3, CHR 0xA9]) \<and>
     int k \<le> 2 \<and> valid_utf8 (take k [CHR ''a'', CHR 0xC3, CHR 0xA9])"
  using truncate_to_longest_valid_prefix [of 2 "[CHR ''a'', CHR 0xC3, CHR 0xA9]"]
  by (auto simp: seq_len_def tail_ok_def rune_start_def)

subsection \<open>The audit buffer of a stream\<close>

record stream_audit =
  sa_limit :: int
  sa_buf :: string

definition audit_new :: "int \<Rightarrow> stream_audit" where
  "audit_new limit = \<lparr>sa_limit = limit, sa_buf = []\<rparr>"

definition audit_write :: "stream_audit \<Rightarrow> string \<Rightarrow> stream_audit" where
  "audit_write a s =
     (let room = sa_limit a - int (length (sa_buf a)) in
      if room \<le> 0 \<or> s = [] then a
      else if room < int (length s)
      then a\<lparr>sa_buf := sa_buf a @ take (rune_cut s (nat room)) s\<rparr>
      else a\<lparr>sa_buf := sa_buf a @ s\<rparr>)"

definition audit_string :: "stream_audit \<Rightarrow> string" where
  "audit_string a = trim_prefix (sa_buf a) [CHR 0x0A]"

definition audit_writes :: "stream_audit \<Rightarrow> string list \<Rightarrow> stream_audit" where
  "audit_writes a ss = foldl audit_write a ss"

lemma audit_write_limit [simp]: "sa_limit (audit_write a s) = sa_limit a"
  by (simp add: audit_write_def Let_def)

lemma audit_write_bound:
  "int (length (sa_buf a)) \<le> sa_limit a \<Longrightarrow> int (length (sa_buf (audit_write a s))) \<le> sa_limit a"
  using rune_cut_le [of s "nat (sa_limit a - int (length (sa_buf a)))"]
  by (auto simp: audit_write_def Let_def min_def)

lemma audit_write_valid:
  "valid_utf8 (sa_buf a) \<Longrightarrow> valid_utf8 s \<Longrightarrow> valid_utf8 (sa_buf (audit_write a s))"
  by (auto simp: audit_write_def Let_def intro!: valid_utf8_append rune_cut_valid)

lemma audit_writes_limit [simp]: "sa_limit (audit_writes a ss) = sa_limit a"
  by (induction ss arbitrary: a) (simp_all add: audit_writes_def)

lemma audit_writes_bound:
  "int (length (sa_buf a)) \<le> sa_limit a \<Longrightarrow> int (length (sa_buf (audit_writes a ss))) \<le> sa_limit a"
proof (induction ss arbitrary: a)
  case Nil
  then show ?case by (simp add: audit_writes_def)
next
  case (Cons s ss)
  from Cons.IH [of "audit_write a s"] audit_write_bound [OF Cons.prems, of s]
  show ?case by (simp add: audit_writes_def)
qed

lemma audit_writes_valid:
  "valid_utf8 (sa_buf a) \<Longrightarrow> \<forall>s \<in> set ss. valid_utf8 s \<Longrightarrow> valid_utf8 (sa_buf (audit_writes a ss))"
  by (induction ss arbitrary: a) (auto simp: audit_writes_def intro: audit_write_valid)

lemma audit_writes_fits:
  "int (length (sa_buf a) + length (concat ss)) \<le> sa_limit a \<Longrightarrow>
   sa_buf (audit_writes a ss) = sa_buf a @ concat ss"
proof (induction ss arbitrary: a)
  case Nil
  then show ?case by (simp add: audit_writes_def)
next
  case (Cons s ss)
  have "audit_write a s = a\<lparr>sa_buf := sa_buf a @ s\<rparr>"
    using Cons.prems by (cases s) (auto simp: audit_write_def Let_def)
  with Cons show ?case by (simp add: audit_writes_def)
qed

text \<open>
  Whatever deltas a stream writes, the audit never holds more than its limit; valid
  deltas leave valid UTF-8, and as long as they fit together the buffer is their
  concatenation.
\<close>

theorem audit_bounded_and_exact:
  assumes "0 \<le> limit" and "\<forall>s \<in> set ss. valid_utf8 s"
  shows "int (length (sa_buf (audit_writes (audit_new limit) ss))) \<le> limit \<and>
    valid_utf8 (sa_buf (audit_writes (audit_new limit) ss)) \<and>
    (int (length (concat ss)) \<le> limit \<longrightarrow> sa_buf (audit_writes (audit_new limit) ss) = concat ss)"
proof (intro conjI impI)
  show "int (length (sa_buf (audit_writes (audit_new limit) ss))) \<le> limit"
    using audit_writes_bound [of "audit_new limit" ss] assms(1) by (simp add: audit_new_def)
  show "valid_utf8 (sa_buf (audit_writes (audit_new limit) ss))"
    using audit_writes_valid [of "audit_new limit" ss] assms(2) by (simp add: audit_new_def)
  show "sa_buf (audit_writes (audit_new limit) ss) = concat ss" if "int (length (concat ss)) \<le> limit"
    using audit_writes_fits [of "audit_new limit" ss] that by (simp add: audit_new_def)
qed

lemma audit_bounded_and_exact_witness:
  "int (length (sa_buf (audit_writes (audit_new 3) [''ab'', ''cd'']))) \<le> 3"
  using audit_bounded_and_exact [of 3 "[''ab'', ''cd'']"]
  by (simp add: seq_len_def tail_ok_def rune_start_def)

text \<open>
  Past the limit the audit need not be a prefix of what was written: a delta that is cut
  back to a rune boundary leaves room that a later, shorter delta still fills. With a limit
  of 4, \<open>abc\<close>, a two-byte rune and \<open>d\<close> leave \<open>abcd\<close>, with the rune missing from the middle.
\<close>

theorem audit_can_skip_a_rune:
  "\<exists>ss. list_all valid_utf8 ss \<and>
     sa_buf (audit_writes (audit_new 4) ss) = ''abcd'' \<and>
     take 4 (concat ss) \<noteq> ''abcd''"
  by (rule exI [of _ "[''abc'', [CHR 0xC3, CHR 0xA9], ''d'']"])
    (simp add: audit_writes_def audit_write_def audit_new_def Let_def seq_len_def tail_ok_def
      rune_start_def eval_nat_numeral)

end
