(* ===== verification/Api_Requests.thy ===== *)
theory Api_Requests
  imports Engine_Config Anthropic_Translate Text_Bounds
begin

section \<open>api_handlers.go: the request a completion sends to its engine\<close>

text \<open>
  The body of a request, its messages bounded to \<open>limit\<close> (\<open>cfg.MaxMsgLen\<close>) bytes of text each,
  and the body built from them for the two engine types. \<open>None\<close> is the panic \<open>truncateInput\<close>
  raises for a negative limit.
\<close>

subsection \<open>Bodies and errors\<close>

text \<open>
  What reading the body through \<open>http.MaxBytesReader\<close> and the JSON decoder yields.
\<close>

datatype body_read = BodyTooLarge | BodyBad | BodyJson json

datatype api_flavour = OpenAIApi | AnthropicApi

datatype reply_body =
    ErrorBody error_response
  | AnthropicErrorBody anthropic_error_response
  | PayloadBody payload
  | MessageBody anthropic_message
  | TokensBody int
  | ModelsBody model_list

definition write_error :: "api_flavour \<Rightarrow> int \<Rightarrow> string \<Rightarrow> string \<Rightarrow> int \<times> reply_body" where
  "write_error api status msg err_ty =
     (status,
      case api of OpenAIApi \<Rightarrow> ErrorBody (openai_error msg err_ty)
                | AnthropicApi \<Rightarrow> AnthropicErrorBody (anthropic_error status msg err_ty))"

text \<open>A decoded \<open>null\<close> leaves the map nil, any other value that is no object is an error.\<close>

definition decode_api_body :: "api_flavour \<Rightarrow> body_read \<Rightarrow> (int \<times> reply_body) + obj" where
  "decode_api_body api b =
     (case b of
        BodyTooLarge \<Rightarrow> Inl (write_error api 413 ''Request body too large'' ''invalid_request_error'')
      | BodyBad \<Rightarrow> Inl (write_error api 400 ''Invalid JSON body'' ''invalid_request_error'')
      | BodyJson j \<Rightarrow>
          (case j of
             JObj m \<Rightarrow> Inr m
           | _ \<Rightarrow> Inl (write_error api 400 ''Invalid JSON body'' ''invalid_request_error'')))"

subsection \<open>Messages\<close>

definition sanitize_part :: "int \<Rightarrow> json \<Rightarrow> json option" where
  "sanitize_part limit p =
     (let part = as_obj p in
      if is_str (idx part ''text'') \<and> idx part ''type'' = JStr ''text''
      then map_option (\<lambda>t. JObj (obj_set ''text'' (JStr t) part)) (truncate_input limit (as_str (idx part ''text'')))
      else Some (JObj part))"

definition sanitize_content :: "int \<Rightarrow> json \<Rightarrow> json option" where
  "sanitize_content limit content =
     (case content of
        JStr c \<Rightarrow> map_option JStr (truncate_input limit c)
      | JArr ps \<Rightarrow> map_option JArr (those (map (sanitize_part limit) (filter is_obj ps)))
      | _ \<Rightarrow> Some JNull)"

definition tool_keys :: "string list" where
  "tool_keys = [''name'', ''tool_call_id'', ''tool_calls'']"

definition carry_key :: "obj \<Rightarrow> obj \<Rightarrow> string \<Rightarrow> obj" where
  "carry_key msg clean key = (if idx msg key \<noteq> JNull then obj_set key (idx msg key) clean else clean)"

definition clean_message :: "obj \<Rightarrow> json \<Rightarrow> obj" where
  "clean_message msg content =
     (let clean = foldl (carry_key msg) [(''role'', JStr (as_str (idx msg ''role''))), (''content'', content)] tool_keys
      in if idx clean ''content'' = JNull \<and> idx clean ''tool_calls'' = JNull
         then obj_set ''content'' (JStr []) clean else clean)"

definition sanitize_message :: "int \<Rightarrow> obj \<Rightarrow> obj option" where
  "sanitize_message limit msg = map_option (clean_message msg) (sanitize_content limit (idx msg ''content''))"

definition sanitize_messages :: "int \<Rightarrow> json list \<Rightarrow> obj list option" where
  "sanitize_messages limit ms = those (map (sanitize_message limit \<circ> as_obj) (filter is_obj ms))"

subsection \<open>The body for an engine\<close>

definition compat_keys :: "string list" where
  "compat_keys =
     [''temperature'', ''top_p'', ''seed'', ''max_tokens'', ''max_completion_tokens'',
      ''frequency_penalty'', ''presence_penalty'', ''stop'', ''provider_options'',
      ''response_format'', ''service_tier'', ''logit_bias'', ''tools'', ''tool_choice'',
      ''logprobs'', ''top_logprobs'', ''parallel_tool_calls'', ''user'', ''n'']"

text \<open>The loop over the request's keys; its order is random in Go and does not matter.\<close>

definition copy_params :: "obj \<Rightarrow> string list \<Rightarrow> obj \<Rightarrow> obj" where
  "copy_params data ks req =
     foldl (\<lambda>req key. if key \<in> set compat_keys then obj_set key (idx data key) req else req) req ks"

definition openai_compat_request :: "obj \<Rightarrow> obj list \<Rightarrow> obj" where
  "openai_compat_request data messages =
     (let streaming = as_bool (idx data ''stream'');
          req0 = [(''model'', idx data ''model''), (''messages'', JArr (map JObj messages)),
                  (''stream'', JBool streaming)];
          req1 = copy_params data (map fst data) req0
      in if streaming
         then obj_set ''stream_options''
                (JObj (obj_set ''include_usage'' (JBool True) (as_obj (idx data ''stream_options'')))) req1
         else req1)"

definition build_engine_request :: "(string \<Rightarrow> json option) \<Rightarrow> adapter \<Rightarrow> obj \<Rightarrow> obj list \<Rightarrow> obj" where
  "build_engine_request unmarshal a data messages =
     (if ec_type (ad_cfg a) = engine_ollama then openai_to_ollama unmarshal data messages
      else openai_compat_request data messages)"

subsection \<open>What sanitising keeps\<close>

definition part_fits :: "int \<Rightarrow> json \<Rightarrow> bool" where
  "part_fits limit p \<longleftrightarrow>
     is_obj p \<and> (idx (as_obj p) ''type'' = JStr ''text'' \<longrightarrow>
       int (length (as_str (idx (as_obj p) ''text''))) \<le> limit)"

definition content_fits :: "int \<Rightarrow> json \<Rightarrow> bool" where
  "content_fits limit c =
     (case c of JStr s \<Rightarrow> int (length s) \<le> limit | JArr ps \<Rightarrow> list_all (part_fits limit) ps
      | JNull \<Rightarrow> True | _ \<Rightarrow> False)"

lemma obj_set_same: "map_of m k = Some v \<Longrightarrow> obj_set k v m = m"
  by (induction m) (auto simp: obj_set_def split: if_splits)

lemma idx_str_map_of: "is_str (idx m k) \<Longrightarrow> map_of m k = Some (JStr (as_str (idx m k)))"
  by (cases "idx m k") (auto simp: idx_def split: option.splits)

lemma those_map_fits: "\<forall>x \<in> set xs. f x = Some x \<Longrightarrow> those (map f xs) = Some xs"
  by (induction xs) simp_all

lemma those_map_total: "\<forall>x \<in> set xs. \<exists>y. f x = Some y \<and> P x y \<Longrightarrow> \<exists>ys. those (map f xs) = Some ys \<and> list_all2 P xs ys"
  by (induction xs) auto

lemma those_map_Some: "those (map f xs) = Some ys \<Longrightarrow> list_all2 (\<lambda>x y. f x = Some y) xs ys"
  by (induction xs arbitrary: ys) (auto split: option.splits)

lemma truncate_input_total: "0 \<le> limit \<Longrightarrow> \<exists>t. truncate_input limit s = Some t \<and> int (length t) \<le> limit"
  using truncate_to_total [of limit s] truncate_to_length [of s limit] by (auto simp: truncate_input_eq)

lemma truncate_input_fits: "int (length s) \<le> limit \<Longrightarrow> truncate_input limit s = Some s"
  by (simp add: truncate_input_def)

lemma sanitize_part_fits: "part_fits limit p \<Longrightarrow> sanitize_part limit p = Some p"
  by (cases p) (auto simp: part_fits_def sanitize_part_def Let_def truncate_input_fits obj_set_same idx_str_map_of)

lemma sanitize_part_ok:
  "0 \<le> limit \<Longrightarrow> is_obj p \<Longrightarrow> \<exists>q. sanitize_part limit p = Some q \<and> part_fits limit q"
  using truncate_input_total [of limit "as_str (idx (as_obj p) ''text'')"]
  by (cases p; cases "idx (as_obj p) ''text''") (auto simp: part_fits_def sanitize_part_def Let_def)

lemma sanitize_content_fits: "content_fits limit c \<Longrightarrow> sanitize_content limit c = Some c"
proof (cases c)
  case (JArr ps)
  moreover assume "content_fits limit c"
  ultimately have fits: "\<forall>p \<in> set ps. part_fits limit p" by (simp add: content_fits_def list_all_iff)
  then have "filter is_obj ps = ps" by (auto simp: part_fits_def intro: filter_True)
  with fits JArr show ?thesis by (simp add: sanitize_content_def those_map_fits sanitize_part_fits)
qed (simp_all add: content_fits_def sanitize_content_def truncate_input_fits)

lemma sanitize_content_ok:
  assumes "0 \<le> limit"
  shows "\<exists>d. sanitize_content limit c = Some d \<and> content_fits limit d"
proof (cases c)
  case (JArr ps)
  have "\<forall>p \<in> set (filter is_obj ps). \<exists>q. sanitize_part limit p = Some q \<and> part_fits limit q"
    using sanitize_part_ok [OF assms] by simp
  then obtain qs where "those (map (sanitize_part limit) (filter is_obj ps)) = Some qs"
      and "list_all2 (\<lambda>_ q. part_fits limit q) (filter is_obj ps) qs"
    using those_map_total [of "filter is_obj ps" "sanitize_part limit" "\<lambda>_ q. part_fits limit q"] by auto
  then show ?thesis using JArr
    by (auto simp: sanitize_content_def content_fits_def list_all2_conv_all_nth list_all_length)
next
  case (JStr s)
  then show ?thesis using truncate_input_total [OF assms, of s]
    by (auto simp: sanitize_content_def content_fits_def)
qed (simp_all add: sanitize_content_def content_fits_def)

lemma clean_message_idx:
  "idx (clean_message msg content) key =
     (if key = ''content'' then (if content = JNull \<and> idx msg ''tool_calls'' = JNull then JStr [] else content)
      else if key = ''role'' then JStr (as_str (idx msg ''role''))
      else if key \<in> set tool_keys then idx msg key else JNull)"
  by (auto simp: clean_message_def tool_keys_def carry_key_def Let_def)

lemma clean_message_keys:
  "fst ` set (clean_message msg content) \<subseteq> {''role'', ''content''} \<union> set tool_keys"
  by (auto simp: clean_message_def tool_keys_def carry_key_def Let_def obj_set_def split: if_splits)

text \<open>Sanitising a sanitised message changes nothing.\<close>

lemma clean_message_cong:
  "idx a ''role'' = JStr (as_str (idx m ''role'')) \<Longrightarrow> \<forall>key \<in> set tool_keys. idx a key = idx m key \<Longrightarrow>
   clean_message a d = clean_message m d"
  by (simp add: clean_message_def carry_key_def tool_keys_def Let_def)

lemma clean_message_empty:
  "idx msg ''tool_calls'' = JNull \<Longrightarrow> clean_message msg (JStr []) = clean_message msg JNull"
  by (cases "idx msg ''name'' = JNull"; cases "idx msg ''tool_call_id'' = JNull")
    (simp_all add: clean_message_def carry_key_def tool_keys_def obj_set_def)

lemma clean_message_again:
  "clean_message (clean_message msg content) (idx (clean_message msg content) ''content'') = clean_message msg content"
proof -
  have "clean_message (clean_message msg content) d = clean_message msg d" for d
    by (rule clean_message_cong) (simp_all add: clean_message_idx tool_keys_def)
  then show ?thesis by (simp add: clean_message_idx [of msg content "''content''"] clean_message_empty)
qed

lemma sanitize_message_ok:
  assumes "0 \<le> limit"
  shows "\<exists>c. sanitize_message limit m = Some c \<and> sanitize_message limit c = Some c \<and>
    idx c ''role'' = JStr (as_str (idx m ''role'')) \<and> content_fits limit (idx c ''content'') \<and>
    (\<forall>key \<in> set tool_keys. idx c key = idx m key) \<and>
    (idx c ''content'' = JNull \<longrightarrow> idx c ''tool_calls'' \<noteq> JNull) \<and>
    (content_fits limit (idx m ''content'') \<longrightarrow> idx m ''content'' \<noteq> JNull \<longrightarrow> idx c ''content'' = idx m ''content'') \<and>
    fst ` set c \<subseteq> {''role'', ''content''} \<union> set tool_keys"
proof -
  obtain d where d: "sanitize_content limit (idx m ''content'') = Some d" "content_fits limit d"
    using sanitize_content_ok [OF assms] by blast
  let ?c = "clean_message m d"
  have fits: "content_fits limit (idx ?c ''content'')"
    using d(2) assms by (simp add: clean_message_idx content_fits_def)
  then have "sanitize_message limit ?c = Some ?c"
    by (simp add: sanitize_message_def sanitize_content_fits clean_message_again)
  moreover have "sanitize_message limit m = Some ?c" using d(1) by (simp add: sanitize_message_def)
  moreover have "\<forall>key \<in> set tool_keys. idx ?c key = idx m key"
    by (auto simp: clean_message_idx tool_keys_def)
  moreover have "d = idx m ''content''" if "content_fits limit (idx m ''content'')"
    using sanitize_content_fits [OF that] d(1) by simp
  ultimately show ?thesis using fits clean_message_keys [of m d]
    by (intro exI [of _ ?c]) (auto simp: clean_message_idx tool_keys_def)
qed

text \<open>
  C26. Sanitising keeps one message per object of the list, in order, each with its role, its
  tool fields and no other key; every text is bounded by the limit, content that already is
  stays as it was, content is null only on a turn that calls tools, and a second pass changes
  nothing.
\<close>

theorem sanitize_messages_bounded:
  assumes "0 \<le> limit"
  shows "\<exists>out. sanitize_messages limit ms = Some out \<and> sanitize_messages limit (map JObj out) = Some out \<and>
    list_all2 (\<lambda>m c.
      idx c ''role'' = JStr (as_str (idx (as_obj m) ''role'')) \<and> content_fits limit (idx c ''content'') \<and>
      (\<forall>key \<in> set tool_keys. idx c key = idx (as_obj m) key) \<and>
      (idx c ''content'' = JNull \<longrightarrow> idx c ''tool_calls'' \<noteq> JNull) \<and>
      (content_fits limit (idx (as_obj m) ''content'') \<longrightarrow> idx (as_obj m) ''content'' \<noteq> JNull \<longrightarrow>
         idx c ''content'' = idx (as_obj m) ''content'') \<and>
      fst ` set c \<subseteq> {''role'', ''content''} \<union> set tool_keys)
    (filter is_obj ms) out" (is "\<exists>out. _ \<and> _ \<and> list_all2 ?P _ out")
proof -
  have "\<forall>m \<in> set (filter is_obj ms). \<exists>c. (sanitize_message limit \<circ> as_obj) m = Some c \<and>
      (?P m c \<and> sanitize_message limit c = Some c)"
    using sanitize_message_ok [OF assms] by (simp del: split_paired_Ex) blast
  then obtain out where out: "those (map (sanitize_message limit \<circ> as_obj) (filter is_obj ms)) = Some out"
      and all: "list_all2 (\<lambda>m c. ?P m c \<and> sanitize_message limit c = Some c) (filter is_obj ms) out"
    using those_map_total [of "filter is_obj ms" "sanitize_message limit \<circ> as_obj"
        "\<lambda>m c. ?P m c \<and> sanitize_message limit c = Some c"] by blast
  from all have "list_all2 ?P (filter is_obj ms) out" by (rule list_all2_mono) blast
  moreover from all have "\<forall>c \<in> set out. sanitize_message limit c = Some c"
    by (auto simp: list_all2_conv_all_nth in_set_conv_nth)
  then have "sanitize_messages limit (map JObj out) = Some out"
    by (simp add: sanitize_messages_def filter_map comp_def those_map_fits)
  ultimately show ?thesis using out by (auto simp: sanitize_messages_def)
qed

lemma sanitize_messages_bounded_witness:
  "\<exists>out. sanitize_messages 3 [JObj [(''role'', JStr ''user''), (''content'', JStr ''hello'')], JNull] = Some out \<and>
     length out = 1"
  using sanitize_messages_bounded [of 3 "[JObj [(''role'', JStr ''user''), (''content'', JStr ''hello'')], JNull]"]
  by (auto dest: list_all2_lengthD)

subsection \<open>What an OpenAI-compatible engine is sent\<close>

lemma idx_copy_params:
  "idx (copy_params data ks req0) key =
     (if key \<in> set compat_keys \<and> key \<in> set ks then idx data key else idx req0 key)"
  by (induction ks arbitrary: req0) (auto simp: copy_params_def)

lemma copy_params_keys: "fst ` set (copy_params data ks req0) \<subseteq> fst ` set req0 \<union> set compat_keys"
proof (induction ks arbitrary: req0)
  case (Cons k ks)
  have "fst ` set (obj_set k v req0) = insert k (fst ` set req0)" for v
    by (simp add: obj_set_def dom_update)
  with Cons [of "obj_set k (idx data k) req0"] Cons [of req0] show ?case by (auto simp: copy_params_def)
qed (simp add: copy_params_def)

lemma compat_keys_not:
  "''model'' \<notin> set compat_keys" "''messages'' \<notin> set compat_keys" "''stream'' \<notin> set compat_keys"
  "''stream_options'' \<notin> set compat_keys"
  by (simp_all add: compat_keys_def)

lemma idx_absent: "k \<notin> fst ` set m \<Longrightarrow> idx m k = JNull"
  by (simp add: idx_def map_of_eq_None_iff [THEN iffD2])

text \<open>
  C27. The body for an OpenAI-compatible engine carries the sanitised messages and never the
  client's own; \<open>stream\<close> is always a boolean; a parameter of the allow-list has the client's
  value and no other key gets through; and a stream always asks for usage, keeping the client's
  other stream options.
\<close>

theorem compat_request_shape:
  shows "idx (openai_compat_request data messages) ''messages'' = JArr (map JObj messages) \<and>
    idx (openai_compat_request data messages) ''model'' = idx data ''model'' \<and>
    idx (openai_compat_request data messages) ''stream'' = JBool (as_bool (idx data ''stream'')) \<and>
    list_all (\<lambda>key. idx (openai_compat_request data messages) key = idx data key) compat_keys \<and>
    list_all (\<lambda>e. fst e \<in> {''model'', ''messages'', ''stream'', ''stream_options''} \<union> set compat_keys)
      (openai_compat_request data messages) \<and>
    idx (openai_compat_request data messages) ''stream_options'' =
      (if as_bool (idx data ''stream'')
       then JObj (obj_set ''include_usage'' (JBool True) (as_obj (idx data ''stream_options''))) else JNull)"
proof -
  let ?req0 = "[(''model'', idx data ''model''), (''messages'', JArr (map JObj messages)),
                (''stream'', JBool (as_bool (idx data ''stream'')))]"
  let ?req1 = "copy_params data (map fst data) ?req0"
  have req: "openai_compat_request data messages =
      (if as_bool (idx data ''stream'')
       then obj_set ''stream_options''
              (JObj (obj_set ''include_usage'' (JBool True) (as_obj (idx data ''stream_options'')))) ?req1
       else ?req1)"
    by (simp add: openai_compat_request_def Let_def)
  have keys: "fst ` set ?req1 \<subseteq> {''model'', ''messages'', ''stream''} \<union> set compat_keys"
    using copy_params_keys [of data "map fst data" ?req0] by simp
  have "idx ?req1 key = idx data key" if "key \<in> set compat_keys" for key
  proof (cases "key \<in> fst ` set data")
    case False
    moreover have "''model'' \<noteq> key" "''messages'' \<noteq> key" "''stream'' \<noteq> key"
      using that compat_keys_not by auto
    ultimately show ?thesis using that by (simp add: idx_copy_params idx_absent)
  qed (use that in \<open>simp add: idx_copy_params\<close>)
  then have params: "list_all (\<lambda>key. idx (openai_compat_request data messages) key = idx data key) compat_keys"
    using compat_keys_not by (auto simp: req list_all_iff)
  have req1_keys: "fst ` set (openai_compat_request data messages) \<subseteq> insert ''stream_options'' (fst ` set ?req1)"
    by (simp add: req obj_set_def dom_update subset_insertI)
  have "fst ` set (openai_compat_request data messages) \<subseteq>
      {''model'', ''messages'', ''stream'', ''stream_options''} \<union> set compat_keys"
    using keys req1_keys by blast
  then have "list_all (\<lambda>e. fst e \<in> {''model'', ''messages'', ''stream'', ''stream_options''} \<union> set compat_keys)
      (openai_compat_request data messages)" by (auto simp: list_all_iff)
  with params show ?thesis
    by (simp add: req idx_copy_params compat_keys_not)
qed

end
