(* ===== verification/User_Store.thy ===== *)
theory User_Store
  imports Go_Prelude
begin

section \<open>db.go: users, and the cache in front of them\<close>

text \<open>
  The users table is the list of its rows; an \<open>INSERT\<close> or \<open>UPDATE\<close> that violates a
  \<open>UNIQUE\<close> column fails. The cache is the list behind \<open>userCacheLRU\<close>, most recently used
  first, whose elements \<open>userCacheIdx\<close> indexes by key. \<open>hash\<close> is \<open>sha256Hex\<close>. \<open>fault\<close> is a
  database error of that call.
\<close>

record user =
  us_id :: int
  us_name :: string
  us_api_key :: string \<comment> \<open>the hash of the key\<close>
  us_status :: string
  us_rate_limit :: int
  us_created_at :: string

record user_db =
  ud_users :: "user list"
  ud_next :: int \<comment> \<open>the next \<open>AUTOINCREMENT\<close> id\<close>

text \<open>The keys \<open>"api:" + hash\<close> and \<open>"id:%d"\<close> of the cache.\<close>

datatype user_key = ApiKey string | IdKey int

record cache_entry =
  ce_key :: user_key
  ce_user :: user
  ce_exp :: int

type_synonym user_cache = "cache_entry list"

definition user_cache_ttl :: int where "user_cache_ttl = 5 * ns_minute"
definition user_cache_cap :: nat where "user_cache_cap = 4096"

subsection \<open>The LRU cache\<close>

definition without_key :: "user_key \<Rightarrow> user_cache \<Rightarrow> user_cache" where
  "without_key k c = filter (\<lambda>e. ce_key e \<noteq> k) c"

definition user_cache_get :: "int \<Rightarrow> user_key \<Rightarrow> user_cache \<Rightarrow> user option \<times> user_cache" where
  "user_cache_get now k c =
     (case List.find (\<lambda>e. ce_key e = k) c of
        None \<Rightarrow> (None, c)
      | Some e \<Rightarrow>
          if ce_exp e < now then (None, without_key k c)
          else (Some (ce_user e), e # without_key k c))"

definition user_cache_set :: "int \<Rightarrow> user_key \<Rightarrow> user \<Rightarrow> user_cache \<Rightarrow> user_cache" where
  "user_cache_set now k u c =
     (let e = \<lparr>ce_key = k, ce_user = u, ce_exp = now + user_cache_ttl\<rparr> in
      if list_ex (\<lambda>e. ce_key e = k) c then e # without_key k c
      else take user_cache_cap (e # c))"

definition invalidate_user_cache :: "int \<Rightarrow> user_cache \<Rightarrow> user_cache" where
  "invalidate_user_cache i c =
     filter (\<lambda>e. case ce_key e of IdKey j \<Rightarrow> j \<noteq> i | ApiKey _ \<Rightarrow> us_id (ce_user e) \<noteq> i) c"

subsection \<open>Queries and updates\<close>

datatype 'a db_result = Found 'a | Missing | DbError

definition find_user :: "user_key \<Rightarrow> user_db \<Rightarrow> user option" where
  "find_user k d =
     (case k of
        ApiKey h \<Rightarrow> List.find (\<lambda>u. us_api_key u = h) (ud_users d)
      | IdKey i \<Rightarrow> List.find (\<lambda>u. us_id u = i) (ud_users d))"

text \<open>\<open>getUserByAPIKey\<close> and \<open>getUserByID\<close> differ only in the key.\<close>

definition get_user :: "bool \<Rightarrow> int \<Rightarrow> user_key \<Rightarrow> user_db \<Rightarrow> user_cache \<Rightarrow> user db_result \<times> user_cache" where
  "get_user fault now k d c =
     (case user_cache_get now k c of
        (Some u, c1) \<Rightarrow> (Found u, c1)
      | (None, c1) \<Rightarrow>
          if fault then (DbError, c1)
          else case find_user k d of
            None \<Rightarrow> (Missing, c1)
          | Some u \<Rightarrow> (Found u, user_cache_set now k u c1))"

definition get_user_by_api_key ::
  "(string \<Rightarrow> string) \<Rightarrow> bool \<Rightarrow> int \<Rightarrow> string \<Rightarrow> user_db \<Rightarrow> user_cache \<Rightarrow> user db_result \<times> user_cache" where
  "get_user_by_api_key hash fault now raw = get_user fault now (ApiKey (hash raw))"

definition get_user_by_id :: "bool \<Rightarrow> int \<Rightarrow> int \<Rightarrow> user_db \<Rightarrow> user_cache \<Rightarrow> user db_result \<times> user_cache" where
  "get_user_by_id fault now i = get_user fault now (IdKey i)"

definition create_user ::
  "(string \<Rightarrow> string) \<Rightarrow> bool \<Rightarrow> string \<Rightarrow> string \<Rightarrow> string \<Rightarrow> int \<Rightarrow> user_db \<Rightarrow> user_db option" where
  "create_user hash fault ts name raw limit d =
     (if fault \<or> list_ex (\<lambda>u. us_name u = name \<or> us_api_key u = hash raw) (ud_users d) then None
      else Some \<lparr>ud_users = ud_users d @
                   [\<lparr>us_id = ud_next d, us_name = name, us_api_key = hash raw, us_status = ''disabled'',
                     us_rate_limit = limit, us_created_at = ts\<rparr>],
                 ud_next = ud_next d + 1\<rparr>)"

definition update_row :: "int \<Rightarrow> (user \<Rightarrow> user) \<Rightarrow> user_db \<Rightarrow> user_db" where
  "update_row i f d = d\<lparr>ud_users := map (\<lambda>u. if us_id u = i then f u else u) (ud_users d)\<rparr>"

definition update_user_status ::
  "bool \<Rightarrow> int \<Rightarrow> string \<Rightarrow> user_db \<times> user_cache \<Rightarrow> (user_db \<times> user_cache) \<times> bool" where
  "update_user_status fault i status dc =
     (let (d, c) = dc in
      if fault then ((d, c), False)
      else ((update_row i (\<lambda>u. u\<lparr>us_status := status\<rparr>) d, invalidate_user_cache i c), True))"

definition reset_user_api_key ::
  "(string \<Rightarrow> string) \<Rightarrow> bool \<Rightarrow> int \<Rightarrow> string \<Rightarrow> user_db \<times> user_cache \<Rightarrow> (user_db \<times> user_cache) \<times> bool" where
  "reset_user_api_key hash fault i raw dc =
     (let (d, c) = dc in
      if fault \<or> (list_ex (\<lambda>u. us_id u = i) (ud_users d) \<and>
                  list_ex (\<lambda>u. us_id u \<noteq> i \<and> us_api_key u = hash raw) (ud_users d))
      then ((d, c), False)
      else ((update_row i (\<lambda>u. u\<lparr>us_api_key := hash raw\<rparr>) d, invalidate_user_cache i c), True))"

definition update_user_rate_limit ::
  "bool \<Rightarrow> int \<Rightarrow> int \<Rightarrow> user_db \<times> user_cache \<Rightarrow> (user_db \<times> user_cache) \<times> bool" where
  "update_user_rate_limit fault i limit dc =
     (let (d, c) = dc in
      if fault then ((d, c), False)
      else ((update_row i (\<lambda>u. u\<lparr>us_rate_limit := limit\<rparr>) d, invalidate_user_cache i c), True))"

definition delete_user :: "bool \<Rightarrow> int \<Rightarrow> user_db \<times> user_cache \<Rightarrow> (user_db \<times> user_cache) \<times> bool" where
  "delete_user fault i dc =
     (let (d, c) = dc in
      if fault then ((d, c), False)
      else ((d\<lparr>ud_users := filter (\<lambda>u. us_id u \<noteq> i) (ud_users d)\<rparr>, invalidate_user_cache i c), True))"

subsection \<open>The contract of a cache\<close>

locale owned_cache =
  fixes get :: "int \<Rightarrow> 'k \<Rightarrow> 'c \<Rightarrow> 'v option \<times> 'c" and put :: "int \<Rightarrow> 'k \<Rightarrow> 'v \<Rightarrow> 'c \<Rightarrow> 'c"
    and drop_owner :: "'i \<Rightarrow> 'c \<Rightarrow> 'c" and holds :: "'c \<Rightarrow> 'k \<Rightarrow> 'v \<Rightarrow> bool"
    and fits :: "'k \<Rightarrow> 'v \<Rightarrow> bool" and owner :: "'v \<Rightarrow> 'i"
  assumes get_held: "get now k c = (Some v, c') \<Longrightarrow> holds c k v"
    and get_keeps: "get now k c = (r, c') \<Longrightarrow> holds c' k' v' \<Longrightarrow> holds c k' v'"
    and put_holds: "holds (put now k v c) k' v' \<Longrightarrow> (k' = k \<and> v' = v) \<or> holds c k' v'"
    and drop_keeps: "holds (drop_owner i c) k v \<Longrightarrow> holds c k v"
    and drop_owned: "holds (drop_owner i c) k v \<Longrightarrow> fits k v \<Longrightarrow> owner v \<noteq> i"
begin

text \<open>The cache agrees with the directory \<open>d\<close> on everything it holds.\<close>

definition coherent :: "('k \<Rightarrow> 'v option) \<Rightarrow> 'c \<Rightarrow> bool" where
  "coherent d c \<longleftrightarrow> (\<forall>k v. holds c k v \<longrightarrow> d k = Some v)"

lemma get_right: "coherent d c \<Longrightarrow> get now k c = (Some v, c') \<Longrightarrow> d k = Some v"
  using get_held by (auto simp: coherent_def)

lemma get_coherent: "coherent d c \<Longrightarrow> get now k c = (r, c') \<Longrightarrow> coherent d c'"
  using get_keeps by (auto simp: coherent_def)

lemma put_coherent: "coherent d c \<Longrightarrow> d k = Some v \<Longrightarrow> coherent d (put now k v c)"
  using put_holds by (fastforce simp: coherent_def)

lemma drop_coherent:
  assumes "coherent d c" and "\<And>k v. d k = Some v \<Longrightarrow> fits k v"
    and "\<And>k v. d k = Some v \<Longrightarrow> owner v \<noteq> i \<Longrightarrow> d' k = Some v"
  shows "coherent d' (drop_owner i c)"
  using assms drop_keeps drop_owned by (fastforce simp: coherent_def)

end

definition cache_holds :: "user_cache \<Rightarrow> user_key \<Rightarrow> user \<Rightarrow> bool" where
  "cache_holds c k u \<longleftrightarrow> (\<exists>e \<in> set c. ce_key e = k \<and> ce_user e = u)"

definition key_fits :: "user_key \<Rightarrow> user \<Rightarrow> bool" where
  "key_fits k u = (case k of ApiKey h \<Rightarrow> us_api_key u = h | IdKey i \<Rightarrow> us_id u = i)"

lemma find_elem: "List.find P xs = Some x \<Longrightarrow> x \<in> set xs \<and> P x"
  by (metis find_Some_iff nth_mem)

interpretation uc: owned_cache user_cache_get user_cache_set invalidate_user_cache cache_holds key_fits us_id
proof (unfold_locales, goal_cases)
  case (1 now k c v c')
  then show ?case
    by (auto simp: user_cache_get_def cache_holds_def dest!: find_elem split: option.splits if_splits)
next
  case (2 now k c r c' k' v')
  then show ?case
    by (auto simp: user_cache_get_def cache_holds_def without_key_def dest!: find_elem
        split: option.splits if_splits)
next
  case (3 now k v c k' v')
  then show ?case
    by (auto simp: user_cache_set_def cache_holds_def without_key_def Let_def dest!: in_set_takeD
        split: if_splits)
next
  case (4 i c k v)
  then show ?case by (auto simp: invalidate_user_cache_def cache_holds_def)
next
  case (5 i c k v)
  then show ?case
    by (cases k) (auto simp: invalidate_user_cache_def cache_holds_def key_fits_def)
qed

subsection \<open>Requests and admin actions, one at a time\<close>

definition wf_users :: "user_db \<Rightarrow> bool" where
  "wf_users d \<longleftrightarrow> distinct (map us_id (ud_users d)) \<and> distinct (map us_api_key (ud_users d)) \<and>
     (\<forall>u \<in> set (ud_users d). us_id u < ud_next d)"

datatype user_op =
    Lookup bool int user_key
  | SetStatus bool int string
  | ResetKey bool int string
  | SetLimit bool int int
  | DeleteUser bool int
  | CreateUser bool string string string int

fun apply_user_op :: "(string \<Rightarrow> string) \<Rightarrow> user_op \<Rightarrow> user_db \<times> user_cache \<Rightarrow> user_db \<times> user_cache" where
  "apply_user_op hash (Lookup fault now k) (d, c) = (d, snd (get_user fault now k d c))"
| "apply_user_op hash (SetStatus fault i st) dc = fst (update_user_status fault i st dc)"
| "apply_user_op hash (ResetKey fault i raw) dc = fst (reset_user_api_key hash fault i raw dc)"
| "apply_user_op hash (SetLimit fault i l) dc = fst (update_user_rate_limit fault i l dc)"
| "apply_user_op hash (DeleteUser fault i) dc = fst (delete_user fault i dc)"
| "apply_user_op hash (CreateUser fault ts name raw l) (d, c) =
     (case create_user hash fault ts name raw l d of None \<Rightarrow> (d, c) | Some d' \<Rightarrow> (d', c))"

lemma find_unique:
  "distinct (map f xs) \<Longrightarrow> List.find (\<lambda>x. f x = k) xs = Some x \<longleftrightarrow> x \<in> set xs \<and> f x = k"
  by (induction xs) auto

lemma find_user_iff:
  "wf_users d \<Longrightarrow> find_user k d = Some u \<longleftrightarrow> u \<in> set (ud_users d) \<and> key_fits k u"
  by (cases k) (simp_all add: find_user_def key_fits_def wf_users_def find_unique)

lemma update_row_wf:
  assumes "wf_users d" and "\<And>u. us_id (f u) = us_id u"
    and "\<And>u v. u \<in> set (ud_users d) \<Longrightarrow> v \<in> set (ud_users d) \<Longrightarrow> us_id u = i \<Longrightarrow> us_id v \<noteq> i \<Longrightarrow>
           us_api_key (f u) \<noteq> us_api_key v"
  shows "wf_users (update_row i f d)"
proof -
  let ?g = "\<lambda>u. if us_id u = i then f u else u"
  have ids: "map us_id (map ?g (ud_users d)) = map us_id (ud_users d)" using assms(2) by simp
  have "distinct (map us_id (map ?g (ud_users d)))"
    by (subst ids) (use assms(1) in \<open>simp add: wf_users_def\<close>)
  moreover have "distinct (map us_api_key (map ?g (ud_users d)))"
    unfolding map_map distinct_map
  proof
    show "distinct (ud_users d)" using assms(1) by (auto simp: wf_users_def distinct_map)
    show "inj_on (us_api_key \<circ> ?g) (set (ud_users d))"
    proof (rule inj_onI)
      fix u v
      assume uv: "u \<in> set (ud_users d)" "v \<in> set (ud_users d)" "(us_api_key \<circ> ?g) u = (us_api_key \<circ> ?g) v"
      have "inj_on us_id (set (ud_users d))" "inj_on us_api_key (set (ud_users d))"
        using assms(1) by (auto simp: wf_users_def distinct_map)
      with uv assms(3) [of u v] assms(3) [of v u] show "u = v"
        by (auto simp: inj_on_def split: if_splits)
    qed
  qed
  moreover have "\<forall>u \<in> set (map ?g (ud_users d)). us_id u < ud_next d"
    using assms(1,2) by (auto simp: wf_users_def)
  ultimately show ?thesis using assms(1) by (simp add: wf_users_def update_row_def)
qed

lemma update_row_keeps:
  assumes "wf_users d" and "wf_users (update_row i f d)"
    and "find_user k d = Some v" and "us_id v \<noteq> i"
  shows "find_user k (update_row i f d) = Some v"
  using assms by (auto simp: find_user_iff update_row_def)

lemma wf_users_add:
  assumes "wf_users d" and "us_id u = ud_next d" and "us_api_key u \<notin> us_api_key ` set (ud_users d)"
  shows "wf_users \<lparr>ud_users = ud_users d @ [u], ud_next = ud_next d + 1\<rparr>"
proof -
  have lt: "us_id v < ud_next d" if "v \<in> set (ud_users d)" for v
    using assms(1) that by (simp add: wf_users_def)
  then have "ud_next d \<notin> us_id ` set (ud_users d)" by fastforce
  moreover have "us_id v < ud_next d + 1" if "v \<in> set (ud_users d)" for v
    using lt [OF that] by simp
  ultimately show ?thesis using assms by (simp add: wf_users_def)
qed

abbreviation users_coherent :: "user_db \<Rightarrow> user_cache \<Rightarrow> bool" where
  "users_coherent d c \<equiv> uc.coherent (\<lambda>k. find_user k d) c"

lemma row_update_coherent:
  assumes "wf_users d" and "wf_users (update_row i f d)" and "users_coherent d c"
  shows "users_coherent (update_row i f d) (invalidate_user_cache i c)"
proof (rule uc.drop_coherent [OF assms(3)])
  fix k v
  assume f: "find_user k d = Some v"
  then show "key_fits k v" using assms(1) by (simp add: find_user_iff)
  assume "us_id v \<noteq> i"
  with f show "find_user k (update_row i f d) = Some v" by (rule update_row_keeps [OF assms(1,2)])
qed

lemma get_user_coherent:
  assumes "users_coherent d c" and "get_user fault now k d c = (r, c')"
  shows "users_coherent d c' \<and> (\<forall>u. r = Found u \<longrightarrow> find_user k d = Some u) \<and>
    (r = Missing \<longrightarrow> find_user k d = None) \<and> (\<not> fault \<longrightarrow> r \<noteq> DbError)"
proof -
  obtain x c1 where g: "user_cache_get now k c = (x, c1)" by fastforce
  have c1: "users_coherent d c1" using uc.get_coherent [OF assms(1) g] .
  show ?thesis
  proof (cases x)
    case None
    with g c1 assms(2) show ?thesis
      by (auto simp: get_user_def intro: uc.put_coherent split: if_splits option.splits)
  next
    case (Some u)
    with g have "find_user k d = Some u" using uc.get_right [OF assms(1)] by simp
    with Some g c1 assms(2) show ?thesis by (auto simp: get_user_def)
  qed
qed

lemma user_op_keeps:
  assumes "wf_users d" and "users_coherent d c" and "apply_user_op hash opn (d, c) = (d', c')"
  shows "wf_users d' \<and> users_coherent d' c'"
proof (cases opn)
  case (Lookup fault now k)
  with assms get_user_coherent [OF assms(2), of fault now k] show ?thesis
    by (cases "get_user fault now k d c") auto
next
  case (SetStatus fault i st)
  have "wf_users (update_row i (\<lambda>u. u\<lparr>us_status := st\<rparr>) d)"
    using assms(1) by (intro update_row_wf) (auto simp: wf_users_def distinct_map inj_on_def)
  with SetStatus assms row_update_coherent show ?thesis
    by (auto simp: update_user_status_def split: if_splits)
next
  case (SetLimit fault i l)
  have "wf_users (update_row i (\<lambda>u. u\<lparr>us_rate_limit := l\<rparr>) d)"
    using assms(1) by (intro update_row_wf) (auto simp: wf_users_def distinct_map inj_on_def)
  with SetLimit assms row_update_coherent show ?thesis
    by (auto simp: update_user_rate_limit_def split: if_splits)
next
  case (ResetKey fault i raw)
  show ?thesis
  proof (cases "fault \<or> (list_ex (\<lambda>u. us_id u = i) (ud_users d) \<and>
                  list_ex (\<lambda>u. us_id u \<noteq> i \<and> us_api_key u = hash raw) (ud_users d))")
    case True
    with ResetKey assms show ?thesis by (auto simp: reset_user_api_key_def)
  next
    case False
    then have "wf_users (update_row i (\<lambda>u. u\<lparr>us_api_key := hash raw\<rparr>) d)"
      using assms(1) by (intro update_row_wf) (auto simp: list_ex_iff)
    with False ResetKey assms row_update_coherent show ?thesis
      by (auto simp: reset_user_api_key_def)
  qed
next
  case (DeleteUser fault i)
  let ?d = "d\<lparr>ud_users := filter (\<lambda>u. us_id u \<noteq> i) (ud_users d)\<rparr>"
  have wf: "wf_users ?d" using assms(1) by (auto simp: wf_users_def distinct_map inj_on_def)
  have "users_coherent ?d (invalidate_user_cache i c)"
    using assms(2) by (rule uc.drop_coherent) (use assms(1) wf in \<open>auto simp: find_user_iff\<close>)
  with wf DeleteUser assms show ?thesis by (auto simp: delete_user_def split: if_splits)
next
  case (CreateUser fault ts name raw l)
  show ?thesis
  proof (cases "create_user hash fault ts name raw l d")
    case None
    with CreateUser assms show ?thesis by simp
  next
    case (Some d1)
    then have "d1 = \<lparr>ud_users = ud_users d @ [\<lparr>us_id = ud_next d, us_name = name, us_api_key = hash raw,
        us_status = ''disabled'', us_rate_limit = l, us_created_at = ts\<rparr>], ud_next = ud_next d + 1\<rparr>"
      and "hash raw \<notin> us_api_key ` set (ud_users d)"
      by (auto simp: create_user_def list_ex_iff split: if_splits)
    then have wf: "wf_users d1" using assms(1) by (simp add: wf_users_add)
    have "find_user k d = Some v \<Longrightarrow> find_user k d1 = Some v" for k v
      using Some assms(1) wf by (auto simp: find_user_iff create_user_def split: if_splits)
    with Some CreateUser assms wf show ?thesis by (auto simp: uc.coherent_def)
  qed
qed

definition cache_shape :: "user_cache \<Rightarrow> bool" where
  "cache_shape c \<longleftrightarrow> length c \<le> user_cache_cap \<and> distinct (map ce_key c)"

lemma without_key_shape:
  "cache_shape c \<Longrightarrow> cache_shape (without_key k c) \<and> k \<notin> ce_key ` set (without_key k c)"
  by (auto simp: cache_shape_def without_key_def distinct_map_filter intro: le_trans [OF length_filter_le])

lemma without_key_shorter:
  "k \<in> ce_key ` set c \<Longrightarrow> length (without_key k c) < length c"
  by (auto simp: without_key_def intro: length_filter_less)

lemma to_front_shape:
  assumes "cache_shape c" and "k \<in> ce_key ` set c" and "ce_key e = k"
  shows "cache_shape (e # without_key k c)"
  using without_key_shape [OF assms(1), of k] without_key_shorter [OF assms(2)] assms
  by (auto simp: cache_shape_def)

lemma user_cache_get_shape: "cache_shape c \<Longrightarrow> cache_shape (snd (user_cache_get now k c))"
  by (auto simp: user_cache_get_def without_key_shape intro!: to_front_shape dest: find_elem split: option.split)

lemma user_cache_set_shape: "cache_shape c \<Longrightarrow> cache_shape (user_cache_set now k u c)"
proof (cases "k \<in> ce_key ` set c")
  case True
  moreover assume "cache_shape c"
  ultimately show ?thesis
    by (auto simp: user_cache_set_def Let_def list_ex_iff intro!: to_front_shape)
next
  case False
  moreover assume "cache_shape c"
  ultimately have "distinct (map ce_key (\<lparr>ce_key = k, ce_user = u, ce_exp = now + user_cache_ttl\<rparr> # c))"
    by (simp add: cache_shape_def)
  then have "distinct (map ce_key (take user_cache_cap (\<lparr>ce_key = k, ce_user = u, ce_exp = now + user_cache_ttl\<rparr> # c)))"
    by (simp only: take_map [symmetric] distinct_take)
  with False show ?thesis
    by (auto simp: user_cache_set_def Let_def list_ex_iff cache_shape_def)
qed

lemma get_user_shape: "cache_shape c \<Longrightarrow> cache_shape (snd (get_user fault now k d c))"
  using user_cache_get_shape [of c now k]
  by (auto simp: get_user_def user_cache_set_shape split: prod.splits option.splits)

lemma invalidate_shape: "cache_shape c \<Longrightarrow> cache_shape (invalidate_user_cache i c)"
  unfolding invalidate_user_cache_def cache_shape_def
  by (metis (no_types, lifting) distinct_map_filter le_trans length_filter_le)

lemma apply_user_op_shape: "cache_shape (snd dc) \<Longrightarrow> cache_shape (snd (apply_user_op hash opn dc))"
  by (cases dc, cases opn)
    (auto simp: update_user_status_def update_user_rate_limit_def reset_user_api_key_def delete_user_def
      get_user_shape invalidate_shape split: option.split)

text \<open>
  C16. After any sequence of lookups and admin actions that do not overlap, database errors
  included, a lookup answers exactly what the users table says: a disabled user, a reset key
  or a deleted user never survives in the cache.
\<close>

theorem user_lookup_coherent:
  assumes "wf_users d0" and "foldl (\<lambda>dc opn. apply_user_op hash opn dc) (d0, []) ops = (d, c)"
  shows "(case fst (get_user fault now k d c) of
      Found u \<Rightarrow> find_user k d = Some u
    | Missing \<Rightarrow> find_user k d = None
    | DbError \<Rightarrow> fault) \<and>
    length c \<le> 4096 \<and> distinct (map ce_key c)"
proof -
  have "cache_shape (snd (foldl (\<lambda>dc opn. apply_user_op hash opn dc) (d0, []) ops))"
    by (induction ops rule: rev_induct) (simp_all add: cache_shape_def [of "[]"] apply_user_op_shape)
  then have shape: "length c \<le> 4096 \<and> distinct (map ce_key c)"
    using assms(2) by (simp add: cache_shape_def user_cache_cap_def)
  have "wf_users d \<and> users_coherent d c"
    using assms(2)
  proof (induction ops arbitrary: d c rule: rev_induct)
    case Nil
    have "users_coherent d []" unfolding uc.coherent_def by (simp add: cache_holds_def)
    with Nil assms(1) show ?case by simp
  next
    case (snoc opn ops)
    obtain d1 c1 where "foldl (\<lambda>dc opn. apply_user_op hash opn dc) (d0, []) ops = (d1, c1)" by fastforce
    with snoc user_op_keeps [of d1 c1 hash opn d c] show ?case by simp
  qed
  then show ?thesis
    using get_user_coherent [of d c fault now k]
    using shape by (cases "get_user fault now k d c") (auto split: db_result.split)
qed

definition sample_users :: user_db where
  "sample_users = \<lparr>ud_users = [\<lparr>us_id = 1, us_name = ''ann'', us_api_key = ''h'', us_status = ''active'',
                      us_rate_limit = 10, us_created_at = []\<rparr>], ud_next = 2\<rparr>"

lemma user_lookup_coherent_witness:
  "case fst (get_user False 9 (ApiKey ''h'') (fst (apply_user_op id (SetStatus False 1 ''disabled'')
       (apply_user_op id (Lookup False 3 (ApiKey ''h'')) (sample_users, []))))
     (snd (apply_user_op id (SetStatus False 1 ''disabled'')
       (apply_user_op id (Lookup False 3 (ApiKey ''h'')) (sample_users, []))))) of
   Found u \<Rightarrow> us_status u = ''disabled'' | Missing \<Rightarrow> False | DbError \<Rightarrow> False"
proof -
  let ?ops = "[Lookup False 3 (ApiKey ''h''), SetStatus False 1 ''disabled'']"
  let ?dc = "foldl (\<lambda>dc opn. apply_user_op id opn dc) (sample_users, []) ?ops"
  have wf: "wf_users sample_users" by (simp add: wf_users_def sample_users_def)
  have "?dc = (fst ?dc, snd ?dc)" by simp
  from user_lookup_coherent [OF wf this, where fault = False and now = 9 and k = "ApiKey ''h''"]
  show ?thesis
    by (auto simp: find_user_def sample_users_def get_user_def user_cache_get_def update_user_status_def
        update_row_def split: db_result.splits)
qed

text \<open>
  Lookups and updates that overlap are not covered: a request that read the row before an
  update and caches it after the invalidation leaves the old row in the cache, and the
  disabled user is still let in five minutes later.
\<close>

theorem stale_user_after_race:
  "\<exists>row. find_user (ApiKey ''h'') sample_users = Some row \<and> us_status row = ''active'' \<and>
     (let ((d, c), ok) = update_user_status False 1 ''disabled'' (sample_users, []);
          c1 = user_cache_set 0 (ApiKey ''h'') row c
      in ok \<and> map_option us_status (find_user (ApiKey ''h'') d) = Some ''disabled'' \<and>
         fst (get_user False user_cache_ttl (ApiKey ''h'') d c1) = Found row)"
  by (simp add: find_user_def sample_users_def update_user_status_def update_row_def user_cache_set_def
      invalidate_user_cache_def get_user_def user_cache_get_def user_cache_cap_def)

end
