(* ===== verification/Chat_Streams.thy ===== *)
theory Chat_Streams
  imports OpenAI_Translate
begin

section \<open>engine.go: the two chat streams\<close>

text \<open>
  \<open>ollamaStream\<close> and \<open>passthroughStream\<close> implement \<open>ChatStream\<close>: \<open>Recv\<close> gives payloads until
  \<open>io.EOF\<close> or an error. The interface is the locale \<open>chat_stream\<close>; both models interpret it.
  The scanner is the list of lines the body still holds and the error the body ends with.
  Ollama's typed chunk is encoded by \<open>enc\<close> (\<open>json.Marshal\<close>), whose result type is left open.
\<close>

subsection \<open>The line scanner\<close>

record scanner =
  sc_lines :: "string list"
  sc_err :: "string option" \<comment> \<open>\<open>None\<close>: the body ends with EOF\<close>

definition max_stream_line :: nat where "max_stream_line = 4 * 1024 * 1024"

text \<open>
  \<open>for s.scanner.Scan() {...}\<close>: the loop runs to the first line on which \<open>f\<close> has a result. A
  line that fills the buffer ends the scan with an error, and what follows it is lost.
\<close>

fun scan_lines :: "(string \<Rightarrow> 'a option) \<Rightarrow> string list \<Rightarrow> string option \<Rightarrow> 'a option \<times> scanner" where
  "scan_lines f [] e = (None, \<lparr>sc_lines = [], sc_err = e\<rparr>)"
| "scan_lines f (l # ls) e =
     (if max_stream_line \<le> length l
      then (None, \<lparr>sc_lines = [], sc_err = Some ''bufio.Scanner: token too long''\<rparr>)
      else (case f l of None \<Rightarrow> scan_lines f ls e | Some a \<Rightarrow> (Some a, \<lparr>sc_lines = ls, sc_err = e\<rparr>)))"

definition scan_until :: "(string \<Rightarrow> 'a option) \<Rightarrow> scanner \<Rightarrow> 'a option \<times> scanner" where
  "scan_until f s = scan_lines f (sc_lines s) (sc_err s)"

lemma scan_until_None:
  "scan_until f s = (None, s') \<Longrightarrow> sc_lines s' = [] \<and> (\<forall>g. scan_until g s' = (None, s'))"
proof (cases s)
  case (fields ls e)
  assume "scan_until f s = (None, s')"
  with fields have "scan_lines f ls e = (None, s')" by (simp add: scan_until_def)
  then have "sc_lines s' = []" by (induction f ls e rule: scan_lines.induct) (auto split: if_splits option.splits)
  then show ?thesis by (cases s') (simp add: scan_until_def)
qed

lemma scan_until_Some:
  "scan_until f s = (Some a, s') \<Longrightarrow> length (sc_lines s') < length (sc_lines s)"
proof (cases s)
  case (fields ls e)
  assume "scan_until f s = (Some a, s')"
  with fields have "scan_lines f ls e = (Some a, s')" by (simp add: scan_until_def)
  then have "length (sc_lines s') < length ls"
    by (induction f ls e rule: scan_lines.induct) (auto split: if_splits option.splits)
  with fields show ?thesis by simp
qed

subsection \<open>The interface\<close>

record chunk_meta =
  cm_audit :: string
  cm_model :: string
  cm_finish :: string
  cm_in :: int
  cm_out :: int

definition no_meta :: chunk_meta where
  "no_meta = \<lparr>cm_audit = [], cm_model = [], cm_finish = [], cm_in = 0, cm_out = 0\<rparr>"

datatype 'p recv = Got 'p chunk_meta | Eof | Failed string

definition got :: "'p recv \<Rightarrow> bool" where
  "got r = (case r of Got _ _ \<Rightarrow> True | _ \<Rightarrow> False)"

lemma got_simps [simp]: "got (Got p m)" "\<not> got Eof" "\<not> got (Failed e)"
  by (simp_all add: got_def)

text \<open>
  The loop of a caller: one \<open>Recv\<close> per entry of \<open>is\<close> (the instants at which it is called),
  until the first result that is not a payload.
\<close>

fun pull :: "('i \<Rightarrow> 's \<Rightarrow> 's \<times> 'p recv) \<Rightarrow> 'i list \<Rightarrow> 's \<Rightarrow> ('p \<times> chunk_meta) list \<times> 'p recv option \<times> 's" where
  "pull recv [] s = ([], None, s)"
| "pull recv (i # is) s =
     (case recv i s of
        (s1, Got p m) \<Rightarrow> (let (ps, r, s2) = pull recv is s1 in ((p, m) # ps, r, s2))
      | (s1, r) \<Rightarrow> ([], Some r, s1))"

locale chat_stream =
  fixes recv :: "'i \<Rightarrow> 's \<Rightarrow> 's \<times> 'p recv"
    and left :: "'s \<Rightarrow> nat"
  assumes progress: "recv i s = (s', Got p m) \<Longrightarrow> left s' < left s"
    and sticky: "recv i s = (s', r) \<Longrightarrow> \<not> got r \<Longrightarrow> recv j s' = (s', r)"
begin

lemma pull_ends:
  "left s < length is \<Longrightarrow> \<exists>ps r s'. pull recv is s = (ps, Some r, s') \<and> \<not> got r \<and> length ps \<le> left s"
proof (induction "is" arbitrary: s)
  case Nil
  then show ?case by simp
next
  case (Cons i "is")
  obtain s1 r where r: "recv i s = (s1, r)" by fastforce
  show ?case
  proof (cases r)
    case (Got p m)
    with r progress have "left s1 < left s" by simp
    with Cons.prems Cons.IH [of s1] r Got show ?thesis by (fastforce simp: Let_def)
  qed (use r in simp_all)
qed

lemma pull_end_stays:
  "pull recv is s = (ps, Some r, s') \<Longrightarrow> recv j s' = (s', r)"
proof (induction "is" arbitrary: s ps)
  case Nil
  then show ?case by simp
next
  case (Cons i "is")
  obtain s1 q where q: "recv i s = (s1, q)" by fastforce
  show ?case
  proof (cases q)
    case (Got p m)
    with q Cons.prems obtain ps' where "pull recv is s1 = (ps', Some r, s')"
      by (auto simp: Let_def split: prod.splits)
    then show ?thesis by (rule Cons.IH)
  qed (use q Cons.prems sticky [OF q] in auto)
qed

end

subsection \<open>Audit text\<close>

definition tool_call_audit :: "string \<Rightarrow> string \<Rightarrow> string" where
  "tool_call_audit name args =
     (if name \<noteq> [] then CHR 0x0A # ''[tool_call '' @ name @ ''] '' else []) @ args"

definition delta_audit_text :: "delta \<Rightarrow> string" where
  "delta_audit_text d =
     d_content d @ concat (map (\<lambda>t. tool_call_audit (fc_name (tc_function (st_call t)))
                                      (fc_arguments (tc_function (st_call t)))) (d_tool_calls d))"

record audit_choice =
  ac_finish :: "string option"
  ac_content :: string
  ac_tools :: "(string \<times> string) list" \<comment> \<open>name and arguments\<close>

record audit_chunk =
  acc_model :: string
  acc_choices :: "audit_choice list"
  acc_usage :: "usage option"

definition meta_choice :: "chunk_meta \<Rightarrow> audit_choice \<Rightarrow> chunk_meta" where
  "meta_choice m ch =
     m\<lparr>cm_audit := cm_audit m @ ac_content ch @ concat (map (\<lambda>(n, a). tool_call_audit n a) (ac_tools ch)),
       cm_finish := (case ac_finish ch of None \<Rightarrow> cm_finish m | Some f \<Rightarrow> f)\<rparr>"

definition meta_from_chunk :: "(string \<Rightarrow> audit_chunk option) \<Rightarrow> string \<Rightarrow> chunk_meta" where
  "meta_from_chunk decode payload =
     (case decode payload of
        None \<Rightarrow> no_meta
      | Some c \<Rightarrow>
          foldl meta_choice
            (case acc_usage c of
               None \<Rightarrow> no_meta\<lparr>cm_model := acc_model c\<rparr>
             | Some u \<Rightarrow> no_meta\<lparr>cm_model := acc_model c, cm_in := u_prompt u, cm_out := u_completion u\<rparr>)
            (acc_choices c))"

subsection \<open>Ollama's JSON lines\<close>

record ollama_stream =
  os_scanner :: scanner
  os_completion_id :: string
  os_first :: bool
  os_done :: bool
  os_tool_calls :: int
  os_rnd :: nat

definition renumber :: "int \<Rightarrow> stream_tool_call list \<Rightarrow> stream_tool_call list" where
  "renumber n ts = map (\<lambda>(j, t). t\<lparr>st_index := n + int j\<rparr>) (enumerate 0 ts)"

text \<open>A decoded line becomes the chunk: the calls renumbered, the finish reason corrected.\<close>

definition ollama_chunk ::
  "(json \<Rightarrow> string option) \<Rightarrow> (nat \<Rightarrow> string) \<Rightarrow> int \<Rightarrow> obj \<Rightarrow> ollama_stream \<Rightarrow>
   chat_completion_chunk \<times> ollama_stream" where
  "ollama_chunk marshal rnd now line s =
     (let (c, k) = format_stream_chunk marshal rnd now (os_rnd s) line (os_completion_id s) (os_first s);
          choice = hd (ck_choices c);
          calls = renumber (os_tool_calls s) (d_tool_calls (cc_delta choice));
          n = os_tool_calls s + int (length calls);
          choice' = choice\<lparr>cc_delta := (cc_delta choice)\<lparr>d_tool_calls := calls\<rparr>,
                           cc_finish := (if cc_finish choice \<noteq> None \<and> 0 < n
                                         then Some finish_tool_calls else cc_finish choice)\<rparr>
      in (c\<lparr>ck_choices := choice' # tl (ck_choices c)\<rparr>, s\<lparr>os_tool_calls := n, os_rnd := k\<rparr>))"

definition chunk_meta_of :: "chat_completion_chunk \<Rightarrow> chunk_meta" where
  "chunk_meta_of c =
     (let choice = hd (ck_choices c) in
      \<lparr>cm_audit = delta_audit_text (cc_delta choice), cm_model = ck_model c,
       cm_finish = (case cc_finish choice of None \<Rightarrow> [] | Some f \<Rightarrow> f),
       cm_in = (case ck_usage c of None \<Rightarrow> 0 | Some u \<Rightarrow> u_prompt u),
       cm_out = (case ck_usage c of None \<Rightarrow> 0 | Some u \<Rightarrow> u_completion u)\<rparr>)"

definition ollama_line :: "(string \<Rightarrow> obj option) \<Rightarrow> string \<Rightarrow> obj option" where
  "ollama_line unmarshal l =
     (let line = trim_space l in if line = [] then None else unmarshal line)"

definition end_of_scan :: "scanner \<Rightarrow> 'p recv" where
  "end_of_scan sc = (case sc_err sc of None \<Rightarrow> Eof | Some e \<Rightarrow> Failed e)"

definition ollama_recv ::
  "(string \<Rightarrow> obj option) \<Rightarrow> (json \<Rightarrow> string option) \<Rightarrow> (chat_completion_chunk \<Rightarrow> 'p option) \<Rightarrow>
   (nat \<Rightarrow> string) \<Rightarrow> int \<Rightarrow> ollama_stream \<Rightarrow> ollama_stream \<times> 'p recv" where
  "ollama_recv unmarshal marshal enc rnd now s =
     (if os_done s then (s, Eof)
      else case scan_until (ollama_line unmarshal) (os_scanner s) of
        (None, sc) \<Rightarrow> (s\<lparr>os_scanner := sc\<rparr>, end_of_scan sc)
      | (Some line, sc) \<Rightarrow>
          (let (c, s1) = ollama_chunk marshal rnd now line (s\<lparr>os_scanner := sc\<rparr>) in
           case enc c of
             None \<Rightarrow> (s1, Failed ''json'')
           | Some p \<Rightarrow>
               (s1\<lparr>os_first := False, os_done := as_bool (idx line ''done'')\<rparr>, Got p (chunk_meta_of c))))"

definition new_ollama_stream :: "(nat \<Rightarrow> string) \<Rightarrow> nat \<Rightarrow> string list \<Rightarrow> string option \<Rightarrow> ollama_stream" where
  "new_ollama_stream rnd k ls e =
     (let (cid, k1) = new_completion_id rnd k in
      \<lparr>os_scanner = \<lparr>sc_lines = ls, sc_err = e\<rparr>, os_completion_id = cid, os_first = True,
       os_done = False, os_tool_calls = 0, os_rnd = k1\<rparr>)"

subsection \<open>OpenAI SSE passthrough\<close>

record passthrough_stream =
  ps_scanner :: scanner
  ps_done :: bool

definition data_payload :: "string \<Rightarrow> string option" where
  "data_payload l =
     (case cut_prefix (trim_space l) ''data:'' of
        None \<Rightarrow> None
      | Some p \<Rightarrow> (let payload = trim_space p in if payload = [] then None else Some payload))"

definition passthrough_recv ::
  "(string \<Rightarrow> audit_chunk option) \<Rightarrow> int \<Rightarrow> passthrough_stream \<Rightarrow> passthrough_stream \<times> string recv" where
  "passthrough_recv decode now s =
     (if ps_done s then (s, Eof)
      else case scan_until data_payload (ps_scanner s) of
        (None, sc) \<Rightarrow> (s\<lparr>ps_scanner := sc\<rparr>, end_of_scan sc)
      | (Some payload, sc) \<Rightarrow>
          if payload = ''[DONE]'' then (s\<lparr>ps_scanner := sc, ps_done := True\<rparr>, Eof)
          else (s\<lparr>ps_scanner := sc\<rparr>, Got payload (meta_from_chunk decode payload)))"

definition new_passthrough_stream :: "string list \<Rightarrow> string option \<Rightarrow> passthrough_stream" where
  "new_passthrough_stream ls e = \<lparr>ps_scanner = \<lparr>sc_lines = ls, sc_err = e\<rparr>, ps_done = False\<rparr>"

subsection \<open>Both are chat streams\<close>

lemma ollama_chunk_keeps:
  "os_scanner (snd (ollama_chunk marshal rnd now line s)) = os_scanner s"
  "os_done (snd (ollama_chunk marshal rnd now line s)) = os_done s"
  by (simp_all add: ollama_chunk_def Let_def case_prod_beta)

lemma end_of_scan_not_got [simp]: "\<not> got (end_of_scan sc)"
  by (simp add: end_of_scan_def split: option.split)

lemma end_of_scan_Got [simp]: "end_of_scan sc \<noteq> Got p m"
  by (simp add: end_of_scan_def split: option.split)

lemma scan_until_again: "scan_until f s = (None, s') \<Longrightarrow> scan_until g s' = (None, s')"
  using scan_until_None by blast

interpretation ol: chat_stream
  "ollama_recv unmarshal marshal (\<lambda>c. Some (enc c)) rnd" "\<lambda>s. length (sc_lines (os_scanner s))"
  for unmarshal marshal and enc :: "chat_completion_chunk \<Rightarrow> 'p" and rnd
proof (unfold_locales, goal_cases)
  case (1 i s s' p m)
  obtain x sc where sc: "scan_until (ollama_line unmarshal) (os_scanner s) = (x, sc)" by fastforce
  with 1 show ?case
    by (cases x) (auto simp: ollama_recv_def Let_def case_prod_beta ollama_chunk_keeps
        dest: scan_until_Some split: if_splits)
next
  case (2 i s s' r j)
  obtain x sc where sc: "scan_until (ollama_line unmarshal) (os_scanner s) = (x, sc)" by fastforce
  with 2 show ?case
    by (cases x) (auto simp: ollama_recv_def Let_def case_prod_beta 
        scan_until_again [of "ollama_line unmarshal" "os_scanner s" sc "ollama_line unmarshal"]
        split: if_splits)
qed

interpretation pt: chat_stream "passthrough_recv decode" "\<lambda>s. length (sc_lines (ps_scanner s))"
  for decode
proof (unfold_locales, goal_cases)
  case (1 i s s' p m)
  obtain x sc where sc: "scan_until data_payload (ps_scanner s) = (x, sc)" by fastforce
  with 1 show ?case
    by (cases x) (auto simp: passthrough_recv_def dest: scan_until_Some split: if_splits)
next
  case (2 i s s' r j)
  obtain x sc where sc: "scan_until data_payload (ps_scanner s) = (x, sc)" by fastforce
  with 2 show ?case
    by (cases x) (auto simp: passthrough_recv_def
        scan_until_again [of data_payload "ps_scanner s" sc data_payload] split: if_splits)
qed

text \<open>
  A stream ends: over a body of \<open>n\<close> lines at most \<open>n\<close> payloads come, then an end of stream
  or an error, and every later \<open>Recv\<close> repeats that result and changes nothing.
\<close>

theorem streams_end:
  assumes "length ls < length nows"
  shows "(\<exists>ps r s. pull (ollama_recv unmarshal marshal (\<lambda>c. Some (enc c)) rnd) nows (new_ollama_stream rnd k ls e) =
           (ps, Some r, s) \<and> \<not> got r \<and> length ps \<le> length ls \<and>
           ollama_recv unmarshal marshal (\<lambda>c. Some (enc c)) rnd now s = (s, r)) \<and>
         (\<exists>ps r s. pull (passthrough_recv decode) nows (new_passthrough_stream ls e) = (ps, Some r, s) \<and>
           \<not> got r \<and> length ps \<le> length ls \<and> passthrough_recv decode now s = (s, r))"
    (is "?A \<and> ?B")
proof
  let ?recv = "ollama_recv unmarshal marshal (\<lambda>c. Some (enc c)) rnd"
  have "length (sc_lines (os_scanner (new_ollama_stream rnd k ls e))) = length ls"
    by (simp add: new_ollama_stream_def new_completion_id_def)
  with assms ol.pull_ends [of "new_ollama_stream rnd k ls e" nows unmarshal marshal enc rnd]
  obtain ps r s where "pull ?recv nows (new_ollama_stream rnd k ls e) = (ps, Some r, s)"
      "\<not> got r" "length ps \<le> length ls" by auto
  then show ?A by (auto dest: ol.pull_end_stays)
next
  have "length (sc_lines (ps_scanner (new_passthrough_stream ls e))) = length ls"
    by (simp add: new_passthrough_stream_def)
  with assms pt.pull_ends [of "new_passthrough_stream ls e" nows decode]
  obtain ps r s where "pull (passthrough_recv decode) nows (new_passthrough_stream ls e) = (ps, Some r, s)"
      "\<not> got r" "length ps \<le> length ls" by auto
  then show ?B by (auto dest: pt.pull_end_stays)
qed

lemma streams_end_witness:
  "\<exists>ps r s. pull (passthrough_recv (\<lambda>_. None)) [0, 0] (new_passthrough_stream [''data: {}''] None) = (ps, Some r, s) \<and>
     \<not> got r \<and> length ps \<le> 1 \<and> passthrough_recv (\<lambda>_. None) 5 s = (s, r)"
  using streams_end [of "[''data: {}'']" "[0, 0]" "\<lambda>_. None" "\<lambda>_. None" "\<lambda>_. ()" "\<lambda>_. []" 0 None 5 "\<lambda>_. None"]
  by simp

subsection \<open>What an Ollama stream sends\<close>

definition choice_of :: "chat_completion_chunk \<Rightarrow> chunk_choice" where
  "choice_of c = hd (ck_choices c)"

definition call_indices :: "chat_completion_chunk \<Rightarrow> int list" where
  "call_indices c = map st_index (d_tool_calls (cc_delta (choice_of c)))"

lemma call_indices_renumber: "map st_index (renumber n ts) = map (\<lambda>j. n + int j) [0..<length ts]"
  by (rule nth_equalityI) (simp_all add: renumber_def case_prod_beta nth_enumerate_eq)

lemma length_renumber [simp]: "length (renumber n ts) = length ts"
  by (simp add: renumber_def)

text \<open>One line's chunk, in the terms the theorem below uses.\<close>

lemma ollama_chunk_shape:
  fixes s
  assumes "ollama_chunk marshal rnd now line s = (c, s1)"
  defines "n \<equiv> length (call_indices c)"
  shows "ck_id c = os_completion_id s"
    and "length (ck_choices c) = 1"
    and "call_indices c = map (\<lambda>j. os_tool_calls s + int j) [0..<n]"
    and "os_tool_calls s1 = os_tool_calls s + int n"
    and "os_first s1 = os_first s" and "os_completion_id s1 = os_completion_id s"
    and "d_role (cc_delta (choice_of c)) = (if os_first s then ''assistant'' else [])"
    and "cc_finish (choice_of c) =
      (if as_bool (idx line ''done'')
       then Some (if 0 < os_tool_calls s1 then finish_tool_calls else ollama_finish_reason line) else None)"
  using assms(1)
  by (auto simp: n_def ollama_chunk_def format_stream_chunk_def Let_def case_prod_beta choice_of_def
      call_indices_def call_indices_renumber)

text \<open>The chunks of a stream, from any of its states on.\<close>

definition well_numbered :: "int \<Rightarrow> chat_completion_chunk list \<Rightarrow> bool" where
  "well_numbered n cs \<longleftrightarrow>
     concat (map call_indices cs) = map (\<lambda>j. n + int j) [0..<length (concat (map call_indices cs))]"

fun roles_ok :: "bool \<Rightarrow> chat_completion_chunk list \<Rightarrow> bool" where
  "roles_ok first [] = True"
| "roles_ok first (c # cs) =
     (d_role (cc_delta (choice_of c)) = (if first then ''assistant'' else []) \<and> roles_ok False cs)"

text \<open>Only the last chunk may finish, with \<open>tool_calls\<close> when a call was made so far.\<close>

fun finish_ok :: "int \<Rightarrow> chat_completion_chunk list \<Rightarrow> bool" where
  "finish_ok n [] = True"
| "finish_ok n (c # cs) =
     (let n' = n + int (length (call_indices c)) in
      (case cc_finish (choice_of c) of
         None \<Rightarrow> True
       | Some f \<Rightarrow> cs = [] \<and> (if 0 < n' then f = finish_tool_calls else f \<in> {finish_stop, finish_length})) \<and>
      finish_ok n' cs)"

lemma well_numbered_Cons:
  "call_indices c = map (\<lambda>j. n + int j) [0..<length (call_indices c)] \<Longrightarrow>
   well_numbered (n + int (length (call_indices c))) cs \<Longrightarrow> well_numbered n (c # cs)"
proof -
  let ?m = "length (call_indices c)" and ?k = "length (concat (map call_indices cs))"
  assume c: "call_indices c = map (\<lambda>j. n + int j) [0..<?m]" and cs: "well_numbered (n + int ?m) cs"
  from cs have "concat (map call_indices cs) = map (\<lambda>j. n + int ?m + int j) [0..<?k]"
    by (simp only: well_numbered_def)
  also have "\<dots> = map (\<lambda>j. n + int j) (map (\<lambda>j. j + ?m) [0..<?k])"
    by (simp add: add.commute add.left_commute del: length_concat)
  also have "map (\<lambda>j. j + ?m) [0..<?k] = [?m..<?m + ?k]"
    by (simp add: map_add_upt add.commute)
  finally have cs': "concat (map call_indices cs) = map (\<lambda>j. n + int j) [?m..<?m + ?k]" .
  have "concat (map call_indices (c # cs)) = call_indices c @ concat (map call_indices cs)" by simp
  also have "\<dots> = map (\<lambda>j. n + int j) [0..<?m] @ map (\<lambda>j. n + int j) [?m..<?m + ?k]"
    by (subst cs', subst c) (rule refl)
  also have "\<dots> = map (\<lambda>j. n + int j) [0..<?m + ?k]"
    by (simp only: map_append [symmetric] upt_add_eq_append [OF le0])
  finally show ?thesis by (simp only: well_numbered_def) simp
qed

lemma ollama_recv_done: "os_done s \<Longrightarrow> pull (ollama_recv unm marshal enc rnd) is s = ([], if is = [] then None else Some Eof, s)"
  by (cases "is") (simp_all add: ollama_recv_def)

text \<open>What the invariants need of one \<open>Recv\<close> that has a payload.\<close>

lemma ollama_recv_Got:
  assumes "ollama_recv unm marshal Some rnd now s = (s1, Got c m)"
  obtains line where "length (ck_choices c) = 1" and "ck_id c = os_completion_id s"
    and "os_completion_id s1 = os_completion_id s"
    and "call_indices c = map (\<lambda>j. os_tool_calls s + int j) [0..<length (call_indices c)]"
    and "os_tool_calls s1 = os_tool_calls s + int (length (call_indices c))"
    and "\<not> os_first s1"
    and "d_role (cc_delta (choice_of c)) = (if os_first s then ''assistant'' else [])"
    and "os_done s1 = as_bool (idx line ''done'')"
    and "cc_finish (choice_of c) =
      (if os_done s1 then Some (if 0 < os_tool_calls s1 then finish_tool_calls else ollama_finish_reason line) else None)"
    and "m = chunk_meta_of c"
proof -
  obtain x sc where sc: "scan_until (ollama_line unm) (os_scanner s) = (x, sc)" by fastforce
  with assms obtain line where x: "x = Some line"
    by (cases x) (auto simp: ollama_recv_def split: if_splits)
  obtain c' s' where c': "ollama_chunk marshal rnd now line (s\<lparr>os_scanner := sc\<rparr>) = (c', s')" by fastforce
  from assms sc x c' have eq: "c' = c" "s1 = s'\<lparr>os_first := False, os_done := as_bool (idx line ''done'')\<rparr>"
      "m = chunk_meta_of c"
    by (auto simp: ollama_recv_def split: if_splits)
  note shape = ollama_chunk_shape [OF c' [unfolded eq(1)]]
  show thesis
    by (rule that [of line]) (use shape eq in simp_all)
qed

lemma ollama_pull_ok:
  assumes "pull (ollama_recv unm marshal Some rnd) nows s = (ps, r, s')"
  shows "well_numbered (os_tool_calls s) (map fst ps) \<and> roles_ok (os_first s) (map fst ps) \<and>
    (0 \<le> os_tool_calls s \<longrightarrow> finish_ok (os_tool_calls s) (map fst ps)) \<and>
    list_all (\<lambda>(c, m). ck_id c = os_completion_id s \<and> length (ck_choices c) = 1 \<and> m = chunk_meta_of c) ps"
  using assms
proof (induction nows arbitrary: s ps)
  case Nil
  then show ?case by (simp add: well_numbered_def)
next
  case (Cons now nows)
  obtain s1 q where q: "ollama_recv unm marshal Some rnd now s = (s1, q)" by fastforce
  show ?case
  proof (cases q)
    case (Got c m)
    with q have "ollama_recv unm marshal Some rnd now s = (s1, Got c m)" by simp
    then obtain line where c: "length (ck_choices c) = 1" "ck_id c = os_completion_id s"
      "os_completion_id s1 = os_completion_id s"
      "call_indices c = map (\<lambda>j. os_tool_calls s + int j) [0..<length (call_indices c)]"
      "os_tool_calls s1 = os_tool_calls s + int (length (call_indices c))" "\<not> os_first s1"
      "d_role (cc_delta (choice_of c)) = (if os_first s then ''assistant'' else [])"
      "os_done s1 = as_bool (idx line ''done'')"
      "cc_finish (choice_of c) =
        (if os_done s1 then Some (if 0 < os_tool_calls s1 then finish_tool_calls else ollama_finish_reason line)
         else None)" "m = chunk_meta_of c"
      by (rule ollama_recv_Got)
    from Cons.prems q Got obtain ps1 where ps1: "pull (ollama_recv unm marshal Some rnd) nows s1 = (ps1, r, s')"
        and ps: "ps = (c, m) # ps1" by (auto simp: Let_def split: prod.splits)
    note IH = Cons.IH [OF ps1]
    have "well_numbered (os_tool_calls s) (c # map fst ps1)"
      using IH c(5) by (intro well_numbered_Cons [OF c(4)]) simp
    moreover have "os_done s1 \<Longrightarrow> ps1 = []"
      using ps1 ollama_recv_done [of s1 unm marshal Some rnd nows] by simp
    moreover have "ollama_finish_reason line \<in> {finish_stop, finish_length}"
      by (simp add: ollama_finish_reason_def)
    ultimately show ?thesis using IH c ps by (simp add: Let_def)
  qed (use q Cons.prems in \<open>auto simp: well_numbered_def\<close>)
qed

text \<open>
  C32. The chunks an Ollama stream yields, over any body: all carry the stream's completion id
  and one choice; only the first has the role; the tool calls are numbered 0, 1, 2, ...
  across the whole stream; and only the last chunk may carry a finish reason, which is
  \<open>tool_calls\<close> when any chunk of the stream made a call and \<open>stop\<close> or \<open>length\<close> otherwise.
\<close>

theorem ollama_stream_chunks:
  "let chunks = map fst (fst (pull (ollama_recv unm marshal Some rnd) nows (new_ollama_stream rnd k ls e)))
   in well_numbered 0 chunks \<and> roles_ok True chunks \<and> finish_ok 0 chunks \<and>
      list_all (\<lambda>c. ck_id c = ''chatcmpl-'' @ rnd k \<and> length (ck_choices c) = 1) chunks"
proof -
  obtain ps r s' where p: "pull (ollama_recv unm marshal Some rnd) nows (new_ollama_stream rnd k ls e) = (ps, r, s')"
    using prod_cases3 by blast
  have init: "os_tool_calls (new_ollama_stream rnd k ls e) = 0" "os_first (new_ollama_stream rnd k ls e)"
    "os_completion_id (new_ollama_stream rnd k ls e) = ''chatcmpl-'' @ rnd k"
    by (simp_all add: new_ollama_stream_def new_completion_id_def)
  from ollama_pull_ok [OF p] show ?thesis
    unfolding p Let_def fst_conv init by (auto simp: init list_all_iff)
qed

subsection \<open>What a passthrough stream sends\<close>

lemma scan_lines_short:
  assumes "list_all (\<lambda>l. length l < max_stream_line) ls"
  shows "scan_lines f ls e =
    (case List.map_filter f ls of
       [] \<Rightarrow> (None, \<lparr>sc_lines = [], sc_err = e\<rparr>)
     | a # _ \<Rightarrow> (Some a, \<lparr>sc_lines = tl (dropWhile (\<lambda>l. f l = None) ls), sc_err = e\<rparr>))"
  using assms by (induction ls) (auto simp: List.map_filter_simps split: option.split list.split)

lemma map_filter_dropWhile:
  "List.map_filter f ls = a # as \<Longrightarrow> List.map_filter f (tl (dropWhile (\<lambda>l. f l = None) ls)) = as"
  by (induction ls) (auto simp: List.map_filter_simps split: option.splits)

lemma set_tl_dropWhile: "set (tl (dropWhile P xs)) \<subseteq> set xs"
  by (induction xs) auto

text \<open>
  Over a body whose lines fit the buffer, a passthrough stream yields exactly the
  non-empty \<open>data:\<close> payloads before the first \<open>[DONE]\<close>, unmodified and in order, and then
  ends cleanly if there was a \<open>[DONE]\<close> or else the way the body ended.
\<close>

theorem passthrough_payloads:
  assumes "list_all (\<lambda>l. length l < max_stream_line) ls" and "length ls < length nows"
  shows "let payloads = List.map_filter data_payload ls;
             (ps, r, s) = pull (passthrough_recv decode) nows (new_passthrough_stream ls e)
         in map fst ps = takeWhile (\<lambda>p. p \<noteq> ''[DONE]'') payloads \<and>
            r = Some (if ''[DONE]'' \<in> set payloads then Eof
                      else (case e of None \<Rightarrow> Eof | Some x \<Rightarrow> Failed x))"
  using assms
proof (induction nows arbitrary: ls)
  case Nil
  then show ?case by simp
next
  case (Cons now nows)
  let ?s = "new_passthrough_stream ls e"
  have scan: "scan_until data_payload (ps_scanner ?s) =
    (case List.map_filter data_payload ls of
       [] \<Rightarrow> (None, \<lparr>sc_lines = [], sc_err = e\<rparr>)
     | a # _ \<Rightarrow> (Some a, \<lparr>sc_lines = tl (dropWhile (\<lambda>l. data_payload l = None) ls), sc_err = e\<rparr>))"
    using scan_lines_short [OF Cons.prems(1)] by (simp add: scan_until_def new_passthrough_stream_def)
  show ?case
  proof (cases "List.map_filter data_payload ls")
    case Nil
    with scan show ?thesis
      by (simp add: passthrough_recv_def new_passthrough_stream_def end_of_scan_def split: option.split)
  next
    case (Cons a as)
    let ?rest = "tl (dropWhile (\<lambda>l. data_payload l = None) ls)"
    have rest: "List.map_filter data_payload ?rest = as" using Cons by (rule map_filter_dropWhile)
    have "length (dropWhile (\<lambda>l. data_payload l = None) ls) \<le> length ls" by (rule length_dropWhile_le)
    moreover have "ls \<noteq> []" using Cons by (auto simp: List.map_filter_simps)
    ultimately have "length ?rest < length nows"
      using Cons.prems(2) by (cases ls) auto
    moreover have "list_all (\<lambda>l. length l < max_stream_line) ?rest"
      using Cons.prems(1) set_tl_dropWhile [of "\<lambda>l. data_payload l = None" ls] by (auto simp: list_all_iff)
    ultimately have IH: "let payloads = as; (ps, r, s) = pull (passthrough_recv decode) nows (new_passthrough_stream ?rest e)
         in map fst ps = takeWhile (\<lambda>p. p \<noteq> ''[DONE]'') payloads \<and>
            r = Some (if ''[DONE]'' \<in> set payloads then Eof
                      else (case e of None \<Rightarrow> Eof | Some x \<Rightarrow> Failed x))"
      using Cons.IH [of ?rest] unfolding rest by blast
    show ?thesis
    proof (cases "a = ''[DONE]''")
      case True
      with scan Cons show ?thesis by (simp add: passthrough_recv_def new_passthrough_stream_def)
    next
      case False
      with scan Cons have "passthrough_recv decode now ?s =
          (new_passthrough_stream ?rest e, Got a (meta_from_chunk decode a))"
        by (simp add: passthrough_recv_def new_passthrough_stream_def)
      with IH False Cons show ?thesis by (auto simp: Let_def split: prod.splits)
    qed
  qed
qed

lemma passthrough_payloads_witness:
  "let (ps, r, s) = pull (passthrough_recv (\<lambda>_. None)) [0, 0, 0, 0]
         (new_passthrough_stream [''data: {}'', '': ping'', ''data: [DONE]''] None)
   in map fst ps = [''{}''] \<and> r = Some Eof"
  using passthrough_payloads [of "[''data: {}'', '': ping'', ''data: [DONE]'']" "[0, 0, 0, 0]" "\<lambda>_. None" None]
  by (simp add: data_payload_def prefix_eval trim_space_eval List.map_filter_simps max_stream_line_def
      case_prod_beta Let_def)

subsection \<open>The two streams report the same metadata\<close>

text \<open>What \<open>auditChunk\<close> reads of a chunk the gateway itself encodes.\<close>

definition audit_view :: "chat_completion_chunk \<Rightarrow> audit_chunk" where
  "audit_view c =
     \<lparr>acc_model = ck_model c,
      acc_choices = map (\<lambda>ch. \<lparr>ac_finish = cc_finish ch, ac_content = d_content (cc_delta ch),
        ac_tools = map (\<lambda>t. (fc_name (tc_function (st_call t)), fc_arguments (tc_function (st_call t))))
                     (d_tool_calls (cc_delta ch))\<rparr>) (ck_choices c),
      acc_usage = ck_usage c\<rparr>"

text \<open>
  When a gateway's Ollama stream is read by another gateway as an OpenAI engine, the
  metadata taken from the bytes of a chunk is the metadata the first one took from the
  typed chunk: audit text, model, finish reason and token counts.
\<close>

theorem stream_metadata_agree:
  assumes "decode (enc c) = Some (audit_view c)" and "length (ck_choices c) = 1"
  shows "meta_from_chunk decode (enc c) = chunk_meta_of c"
proof -
  obtain ch where "ck_choices c = [ch]" using assms(2) by (auto simp: length_Suc_conv)
  then show ?thesis using assms(1)
    by (auto simp: meta_from_chunk_def audit_view_def meta_choice_def chunk_meta_of_def no_meta_def
        delta_audit_text_def o_def split: option.split)
qed

lemma stream_metadata_agree_witness:
  "let c = \<lparr>ck_id = ''i'', ck_object = ''chat.completion.chunk'', ck_created = 0, ck_model = ''m'',
            ck_choices = [\<lparr>cc_index = 0, cc_delta = \<lparr>d_role = [], d_content = ''hi'', d_tool_calls = []\<rparr>,
                           cc_finish = None\<rparr>], ck_usage = None\<rparr>
   in meta_from_chunk (\<lambda>_. Some (audit_view c)) ''x'' = chunk_meta_of c"
  unfolding Let_def by (rule stream_metadata_agree [where enc = "\<lambda>_. ''x''"]) simp_all

end
