(* ===== verification/Request_Detail.thy ===== *)
theory Request_Detail
  imports Chat_Streams Anthropic_Translate Text_Bounds
begin

section \<open>request_detail.go: what the request log learns about a request\<close>

text \<open>
  The collector one request's handlers write into. A nil collector (a handler called without
  the logging middleware) is \<open>None\<close>, on which every setter does nothing. \<open>truncate_to\<close> with
  a positive bound never panics; its result is taken with \<open>the\<close>.
\<close>

record request_detail =
  rd_id :: string
  rd_start :: int
  rd_model_requested :: string
  rd_model_served :: string
  rd_engine_name :: string
  rd_engine_type :: string
  rd_streamed :: bool
  rd_stop_reason :: string
  rd_in :: int
  rd_out :: int
  rd_ttft :: int
  rd_duration :: int
  rd_upstream_err :: string
  rd_outcome :: string
  rd_user_agent :: string

definition cut_512 :: "string \<Rightarrow> string" where
  "cut_512 s = the (truncate_to s 512)"

definition new_request_id :: "(nat \<Rightarrow> string) \<Rightarrow> nat \<Rightarrow> string" where
  "new_request_id rnd k = ''req_'' @ rnd k"

definition new_request_detail :: "(nat \<Rightarrow> string) \<Rightarrow> nat \<Rightarrow> int \<Rightarrow> string \<Rightarrow> request_detail" where
  "new_request_detail rnd k now agent =
     \<lparr>rd_id = new_request_id rnd k, rd_start = now, rd_model_requested = [], rd_model_served = [],
      rd_engine_name = [], rd_engine_type = [], rd_streamed = False, rd_stop_reason = [], rd_in = 0,
      rd_out = 0, rd_ttft = 0, rd_duration = 0, rd_upstream_err = [], rd_outcome = [],
      rd_user_agent = cut_512 agent\<rparr>"

definition set_routed :: "string \<Rightarrow> string \<Rightarrow> string \<Rightarrow> request_detail option \<Rightarrow> request_detail option" where
  "set_routed name ty model =
     map_option (\<lambda>d. d\<lparr>rd_engine_name := name, rd_engine_type := ty, rd_model_requested := model\<rparr>)"

definition set_streamed :: "request_detail option \<Rightarrow> request_detail option" where
  "set_streamed = map_option (\<lambda>d. d\<lparr>rd_streamed := True\<rparr>)"

definition apply_meta :: "chunk_meta \<Rightarrow> request_detail option \<Rightarrow> request_detail option" where
  "apply_meta m =
     map_option (\<lambda>d.
       let d1 = (if cm_model m \<noteq> [] then d\<lparr>rd_model_served := cm_model m\<rparr> else d);
           d2 = (if cm_in m \<noteq> 0 \<or> cm_out m \<noteq> 0 then d1\<lparr>rd_in := cm_in m, rd_out := cm_out m\<rparr> else d1)
       in if cm_finish m \<noteq> [] then d2\<lparr>rd_stop_reason := cm_finish m\<rparr> else d2)"

definition set_first_token :: "int \<Rightarrow> request_detail option \<Rightarrow> request_detail option" where
  "set_first_token now =
     map_option (\<lambda>d. if rd_ttft d \<noteq> 0 then d else d\<lparr>rd_ttft := now - rd_start d\<rparr>)"

definition set_upstream_err :: "string option \<Rightarrow> request_detail option \<Rightarrow> request_detail option" where
  "set_upstream_err err =
     map_option (\<lambda>d. case err of None \<Rightarrow> d | Some e \<Rightarrow> d\<lparr>rd_upstream_err := cut_512 e\<rparr>)"

definition set_outcome :: "string \<Rightarrow> request_detail option \<Rightarrow> request_detail option" where
  "set_outcome out = map_option (\<lambda>d. d\<lparr>rd_outcome := out\<rparr>)"

text \<open>The completion is typed (Ollama) or the engine's own map (OpenAI-compatible).\<close>

definition typed_detail :: "chat_completion \<Rightarrow> request_detail \<Rightarrow> request_detail" where
  "typed_detail c d =
     (let d1 = (if cpl_model c \<noteq> [] then d\<lparr>rd_model_served := cpl_model c\<rparr> else d);
          d2 = d1\<lparr>rd_in := u_prompt (cpl_usage c), rd_out := u_completion (cpl_usage c)\<rparr>
      in foldl (\<lambda>d ch. case ch_finish ch of None \<Rightarrow> d | Some f \<Rightarrow> d\<lparr>rd_stop_reason := f\<rparr>) d2 (cpl_choices c))"

definition map_detail :: "obj \<Rightarrow> request_detail \<Rightarrow> request_detail" where
  "map_detail p d =
     (let model = as_str (idx p ''model''); u = idx p ''usage'';
          d1 = (if model \<noteq> [] then d\<lparr>rd_model_served := model\<rparr> else d);
          d2 = (if is_obj u
                then d1\<lparr>rd_in := to_int (idx (as_obj u) ''prompt_tokens''),
                        rd_out := to_int (idx (as_obj u) ''completion_tokens'')\<rparr>
                else d1)
      in foldl (\<lambda>d ci. let fr = as_str (idx (as_obj ci) ''finish_reason'') in
                       if is_obj ci \<and> fr \<noteq> [] then d\<lparr>rd_stop_reason := fr\<rparr> else d)
           d2 (as_arr (idx p ''choices'')))"

definition record_completion_detail :: "payload \<Rightarrow> request_detail option \<Rightarrow> request_detail option" where
  "record_completion_detail p =
     map_option (case p of PTyped c \<Rightarrow> typed_detail c | PMap m \<Rightarrow> map_detail m)"

definition record_anthropic_detail :: "anthropic_message \<Rightarrow> request_detail option \<Rightarrow> request_detail option" where
  "record_anthropic_detail msg =
     map_option (\<lambda>d.
       let d1 = (if am_model msg \<noteq> [] then d\<lparr>rd_model_served := am_model msg\<rparr> else d);
           d2 = d1\<lparr>rd_in := au_input (am_usage msg), rd_out := au_output (am_usage msg)\<rparr>
       in case am_stop_reason msg of None \<Rightarrow> d2 | Some r \<Rightarrow> d2\<lparr>rd_stop_reason := r\<rparr>)"

subsection \<open>What the fields end up holding\<close>

definition last_some :: "'b \<Rightarrow> ('a \<Rightarrow> bool) \<Rightarrow> ('a \<Rightarrow> 'b) \<Rightarrow> 'a list \<Rightarrow> 'b" where
  "last_some d P f xs = (case filter P (rev xs) of [] \<Rightarrow> d | x # _ \<Rightarrow> f x)"

lemma last_some_snoc: "last_some d P f (xs @ [x]) = (if P x then f x else last_some d P f xs)"
  by (simp add: last_some_def)

text \<open>
  Folding the frames of a stream into the collector leaves the model, the finish reason and
  the token counts of the last frame that carried each of them, whatever came in between.
\<close>

theorem apply_meta_last_wins:
  "foldl (\<lambda>d m. apply_meta m d) (Some d) ms =
     Some (d\<lparr>rd_model_served := last_some (rd_model_served d) (\<lambda>m. cm_model m \<noteq> []) cm_model ms,
             rd_in := last_some (rd_in d) (\<lambda>m. cm_in m \<noteq> 0 \<or> cm_out m \<noteq> 0) cm_in ms,
             rd_out := last_some (rd_out d) (\<lambda>m. cm_in m \<noteq> 0 \<or> cm_out m \<noteq> 0) cm_out ms,
             rd_stop_reason := last_some (rd_stop_reason d) (\<lambda>m. cm_finish m \<noteq> []) cm_finish ms\<rparr>)"
proof (induction ms rule: rev_induct)
  case Nil
  show ?case by (cases d) (simp add: last_some_def)
next
  case (snoc m ms)
  then show ?case by (simp add: last_some_snoc apply_meta_def Let_def)
qed

lemma apply_meta_last_wins_witness:
  "map_option rd_out (foldl (\<lambda>d m. apply_meta m d) (Some (new_request_detail (\<lambda>_. []) 0 0 []))
     [no_meta\<lparr>cm_out := 3\<rparr>, no_meta]) = Some 3"
  unfolding apply_meta_last_wins by (simp add: last_some_def no_meta_def)

text \<open>
  A typed completion and the map a client would read from it leave the same record, so both
  branches of \<open>recordCompletionDetail\<close> agree.
\<close>

lemma finish_fold_agree:
  assumes "\<forall>ch \<in> set chs. ch_finish ch \<noteq> Some []"
  shows "foldl (\<lambda>d ci. let fr = as_str (idx (as_obj ci) ''finish_reason'') in
                       if is_obj ci \<and> fr \<noteq> [] then d\<lparr>rd_stop_reason := fr\<rparr> else d) d (map choice_json chs) =
    foldl (\<lambda>d ch. case ch_finish ch of None \<Rightarrow> d | Some f \<Rightarrow> d\<lparr>rd_stop_reason := f\<rparr>) (d :: request_detail) chs"
  using assms
  by (induction chs arbitrary: d) (auto simp: choice_json_def opt_str_def split: option.split)

lemma record_completion_agree:
  assumes "in_int64 (u_prompt (cpl_usage c))" and "in_int64 (u_completion (cpl_usage c))"
    and "\<forall>ch \<in> set (cpl_choices c). ch_finish ch \<noteq> Some []"
  shows "map_detail (as_obj (completion_json c)) d = typed_detail c d"
proof -
  have "to_int (JNum n 0) = n" if "in_int64 n" for n
    using that by (simp add: float_to_int_def num_trunc_def Let_def)
  with assms show ?thesis
    by (simp add: map_detail_def typed_detail_def completion_json_def usage_json_def
        finish_fold_agree [unfolded Let_def] Let_def)
qed

text \<open>The time to first token is that of the first frame.\<close>

lemma set_first_token_once:
  "t - rd_start d \<noteq> 0 \<Longrightarrow> set_first_token t' (set_first_token t (Some d)) = set_first_token t (Some d) \<or> rd_ttft d \<noteq> 0"
  by (simp add: set_first_token_def)

end
