(* ===== verification/Log_Writer.thy ===== *)
theory Log_Writer
  imports Request_Detail
begin

section \<open>logwriter.go: the batched log writers\<close>

text \<open>
  A bounded queue filled by the handlers and a goroutine that empties it in batches. Both
  writers run the same loop over their own entry type; here it is one set of definitions,
  polymorphic in the entry. An event is one branch of the writer's \<open>select\<close>, or a send of a
  handler. \<open>wr_flushed\<close> is the sequence of batches handed to the flush function.
\<close>

definition log_queue_size :: nat where "log_queue_size = 1024"
definition flush_threshold :: nat where "flush_threshold = 100"

record 'e writer =
  wr_queue :: "'e list"
  wr_batch :: "'e list"
  wr_timer :: bool
  wr_flushed :: "'e list list"
  wr_dropped :: nat
  wr_stopped :: bool

definition new_writer :: "'e writer" where
  "new_writer = \<lparr>wr_queue = [], wr_batch = [], wr_timer = False, wr_flushed = [], wr_dropped = 0, wr_stopped = False\<rparr>"

text \<open>The \<open>select\<close> with a \<open>default\<close>: a full queue drops the entry.\<close>

definition enqueue :: "'e \<Rightarrow> 'e writer \<Rightarrow> 'e writer" where
  "enqueue e w =
     (if length (wr_queue w) < log_queue_size then w\<lparr>wr_queue := wr_queue w @ [e]\<rparr>
      else w\<lparr>wr_dropped := wr_dropped w + 1\<rparr>)"

definition flush :: "'e writer \<Rightarrow> 'e writer" where
  "flush w =
     (let w1 = (if wr_batch w \<noteq> [] then w\<lparr>wr_flushed := wr_flushed w @ [wr_batch w], wr_batch := []\<rparr> else w)
      in w1\<lparr>wr_timer := False\<rparr>)"

definition receive :: "'e writer \<Rightarrow> 'e writer" where
  "receive w =
     (case wr_queue w of
        [] \<Rightarrow> w
      | e # q \<Rightarrow>
          let w1 = w\<lparr>wr_queue := q, wr_batch := wr_batch w @ [e], wr_timer := True\<rparr> in
          if flush_threshold \<le> length (wr_batch w1) then flush w1 else w1)"

definition timer_fired :: "'e writer \<Rightarrow> 'e writer" where
  "timer_fired w = (if wr_timer w then flush (w\<lparr>wr_timer := False\<rparr>) else w)"

definition shut_down :: "'e writer \<Rightarrow> 'e writer" where
  "shut_down w =
     (flush (w\<lparr>wr_batch := wr_batch w @ wr_queue w, wr_queue := []\<rparr>))\<lparr>wr_stopped := True\<rparr>"

datatype 'e writer_event = Send 'e | Receive | Timer | Done

fun writer_step :: "'e writer_event \<Rightarrow> 'e writer \<Rightarrow> 'e writer" where
  "writer_step (Send e) w = enqueue e w"
| "writer_step Receive w = (if wr_stopped w then w else receive w)"
| "writer_step Timer w = (if wr_stopped w then w else timer_fired w)"
| "writer_step Done w = (if wr_stopped w then w else shut_down w)"

definition run_writer :: "'e writer_event list \<Rightarrow> 'e writer" where
  "run_writer evs = foldl (\<lambda>w ev. writer_step ev w) new_writer evs"

subsection \<open>The two entry types and what a flush stores\<close>

record interaction_entry =
  ie_user :: int
  ie_model :: string
  ie_prompt :: "string + json"
  ie_response :: "string + json"
  ie_ts :: string

text \<open>
  \<open>marshal\<close> is \<open>json.Marshal\<close> and \<open>sprint\<close> the fallback \<open>fmt.Sprintf("%v", v)\<close>; \<open>limit\<close> is
  \<open>cfg.MaxMsgLen\<close>. \<open>None\<close>: the panic of a negative limit.
\<close>

definition marshal_audit :: "(json \<Rightarrow> string option) \<Rightarrow> (json \<Rightarrow> string) \<Rightarrow> json \<Rightarrow> string" where
  "marshal_audit marshal sprint v = (case marshal v of None \<Rightarrow> sprint v | Some b \<Rightarrow> b)"

definition audit_field ::
  "(json \<Rightarrow> string option) \<Rightarrow> (json \<Rightarrow> string) \<Rightarrow> int \<Rightarrow> string + json \<Rightarrow> string option" where
  "audit_field marshal sprint limit v =
     (case v of
        Inl s \<Rightarrow> truncate_input limit s
      | Inr j \<Rightarrow> truncate_input limit (marshal_audit marshal sprint j))"

record request_entry =
  re_ts :: string
  re_method :: string
  re_path :: string
  re_client_ip :: string
  re_user_name :: string
  re_status :: int
  re_detail :: "request_detail option"

record request_log =
  rl_ts :: string
  rl_method :: string
  rl_path :: string
  rl_client_ip :: string
  rl_user_name :: string
  rl_status :: int
  rl_request_id :: string
  rl_model_requested :: string
  rl_model_served :: string
  rl_engine_name :: string
  rl_engine_type :: string
  rl_streamed :: int
  rl_ttft_ms :: int
  rl_duration_ms :: int
  rl_in :: int
  rl_out :: int
  rl_stop_reason :: string
  rl_outcome :: string
  rl_upstream_err :: string
  rl_user_agent :: string

definition millis :: "int \<Rightarrow> int" where "millis d = go_div d 1000000"

definition request_row :: "request_entry \<Rightarrow> request_log" where
  "request_row e =
     (case re_detail e of
        None \<Rightarrow>
          \<lparr>rl_ts = re_ts e, rl_method = re_method e, rl_path = re_path e, rl_client_ip = re_client_ip e,
           rl_user_name = re_user_name e, rl_status = re_status e, rl_request_id = [],
           rl_model_requested = [], rl_model_served = [], rl_engine_name = [], rl_engine_type = [],
           rl_streamed = 0, rl_ttft_ms = 0, rl_duration_ms = 0, rl_in = 0, rl_out = 0,
           rl_stop_reason = [], rl_outcome = [], rl_upstream_err = [], rl_user_agent = []\<rparr>
      | Some d \<Rightarrow>
          \<lparr>rl_ts = re_ts e, rl_method = re_method e, rl_path = re_path e, rl_client_ip = re_client_ip e,
           rl_user_name = re_user_name e, rl_status = re_status e, rl_request_id = rd_id d,
           rl_model_requested = rd_model_requested d, rl_model_served = rd_model_served d,
           rl_engine_name = rd_engine_name d, rl_engine_type = rd_engine_type d,
           rl_streamed = (if rd_streamed d then 1 else 0),
           rl_ttft_ms = (if rd_ttft d \<noteq> 0 then millis (rd_ttft d) else 0),
           rl_duration_ms = millis (rd_duration d), rl_in = rd_in d, rl_out = rd_out d,
           rl_stop_reason = rd_stop_reason d, rl_outcome = rd_outcome d,
           rl_upstream_err = rd_upstream_err d, rl_user_agent = rd_user_agent d\<rparr>)"

text \<open>
  One transaction per batch: when it cannot begin, prepare or commit nothing is stored; a row
  whose own \<open>INSERT\<close> fails (\<open>bad\<close>) is skipped. The log line is the only trace of either.
\<close>

definition flush_request_batch ::
  "bool \<Rightarrow> (request_log \<Rightarrow> bool) \<Rightarrow> request_entry list \<Rightarrow> request_log list \<Rightarrow> request_log list" where
  "flush_request_batch fault bad batch table =
     (if batch = [] \<or> fault then table else table @ filter (\<lambda>r. \<not> bad r) (map request_row batch))"

record interaction_log =
  il_user :: int
  il_model :: string
  il_prompt :: string
  il_response :: string
  il_ts :: string

definition interaction_row ::
  "(json \<Rightarrow> string option) \<Rightarrow> (json \<Rightarrow> string) \<Rightarrow> int \<Rightarrow> interaction_entry \<Rightarrow> interaction_log option" where
  "interaction_row marshal sprint limit e =
     (case (audit_field marshal sprint limit (ie_prompt e), audit_field marshal sprint limit (ie_response e)) of
        (Some p, Some r) \<Rightarrow> Some \<lparr>il_user = ie_user e, il_model = ie_model e, il_prompt = p, il_response = r, il_ts = ie_ts e\<rparr>
      | _ \<Rightarrow> None)"

text \<open>\<open>None\<close>: the writer goroutine panics.\<close>

definition flush_interaction_batch ::
  "(json \<Rightarrow> string option) \<Rightarrow> (json \<Rightarrow> string) \<Rightarrow> int \<Rightarrow> bool \<Rightarrow> (interaction_log \<Rightarrow> bool) \<Rightarrow>
   interaction_entry list \<Rightarrow> interaction_log list \<Rightarrow> interaction_log list option" where
  "flush_interaction_batch marshal sprint limit fault bad batch table =
     (if batch = [] \<or> fault then Some table
      else map_option (\<lambda>rows. table @ filter (\<lambda>r. \<not> bad r) rows)
             (those (map (interaction_row marshal sprint limit) batch)))"

subsection \<open>No entry is lost, duplicated or reordered\<close>

text \<open>The entries the queue accepted, in order, over a run.\<close>

fun accepted :: "'e writer_event list \<Rightarrow> 'e writer \<Rightarrow> 'e list" where
  "accepted [] w = []"
| "accepted (ev # evs) w =
     (case ev of Send e \<Rightarrow> if length (wr_queue w) < log_queue_size then [e] else [] | _ \<Rightarrow> []) @
     accepted evs (writer_step ev w)"

definition sent :: "'e writer_event list \<Rightarrow> 'e list" where
  "sent evs = concat (map (\<lambda>ev. case ev of Send e \<Rightarrow> [e] | _ \<Rightarrow> []) evs)"

definition holding :: "'e writer \<Rightarrow> 'e list" where
  "holding w = concat (wr_flushed w) @ wr_batch w @ wr_queue w"

definition writer_inv :: "'e writer \<Rightarrow> bool" where
  "writer_inv w \<longleftrightarrow>
     length (wr_queue w) \<le> log_queue_size \<and> length (wr_batch w) < flush_threshold \<and>
     list_all (\<lambda>b. b \<noteq> []) (wr_flushed w) \<and>
     (wr_batch w \<noteq> [] \<longrightarrow> wr_timer w) \<and> (wr_stopped w \<longrightarrow> wr_batch w = [])"

lemma flush_shape:
  "concat (wr_flushed (flush w)) = concat (wr_flushed w) @ wr_batch w" "wr_batch (flush w) = []"
  "wr_queue (flush w) = wr_queue w" "wr_dropped (flush w) = wr_dropped w" "wr_stopped (flush w) = wr_stopped w"
  "list_all (\<lambda>b. b \<noteq> []) (wr_flushed (flush w)) = list_all (\<lambda>b. b \<noteq> []) (wr_flushed w)"
  by (simp_all add: flush_def Let_def)

lemma thresholds [simp]: "0 < flush_threshold"
  by (simp add: flush_threshold_def)

lemma writer_step_holding:
  "holding (writer_step ev w) =
     holding w @ (case ev of Send e \<Rightarrow> if length (wr_queue w) < log_queue_size then [e] else [] | _ \<Rightarrow> [])"
  by (cases ev)
    (auto simp: holding_def enqueue_def receive_def timer_fired_def shut_down_def flush_shape Let_def
      split: list.split)

lemma writer_step_inv: "writer_inv w \<Longrightarrow> writer_inv (writer_step ev w)"
  by (cases ev)
    (auto simp: writer_inv_def enqueue_def receive_def timer_fired_def shut_down_def flush_shape Let_def
      split: list.split)

lemma writer_run:
  assumes "writer_inv w"
  shows "holding (foldl (\<lambda>w ev. writer_step ev w) w evs) = holding w @ accepted evs w \<and>
    writer_inv (foldl (\<lambda>w ev. writer_step ev w) w evs) \<and>
    wr_dropped (foldl (\<lambda>w ev. writer_step ev w) w evs) + length (accepted evs w) =
      wr_dropped w + length (sent evs)"
  using assms
proof (induction evs arbitrary: w)
  case Nil
  then show ?case by (simp add: sent_def)
next
  case (Cons ev evs)
  have "wr_dropped (writer_step ev w) +
      length (case ev of Send e \<Rightarrow> if length (wr_queue w) < log_queue_size then [e] else [] | _ \<Rightarrow> []) =
      wr_dropped w + length (case ev of Send e \<Rightarrow> [e] | _ \<Rightarrow> [])"
    by (cases ev) (auto simp: enqueue_def receive_def timer_fired_def shut_down_def flush_shape Let_def
        split: list.split)
  with Cons.IH [OF writer_step_inv [OF Cons.prems, of ev]] show ?case
    by (simp add: writer_step_holding sent_def)
qed

text \<open>
  C20. Over any interleaving of sends, receives, timer firings and a shutdown, every log entry
  the queue accepted is flushed, batched or queued exactly once and in order; what was not
  accepted is counted as dropped; the queue and the batch keep their bounds; and an
  unflushed batch always has its timer running, or the writer has stopped and left nothing in it.
\<close>

theorem log_entries_conserved:
  "let w = run_writer evs in
     concat (wr_flushed w) @ wr_batch w @ wr_queue w = accepted evs new_writer \<and>
     wr_dropped w + length (accepted evs new_writer) = length (sent evs) \<and>
     length (wr_queue w) \<le> 1024 \<and> length (wr_batch w) < 100 \<and>
     (wr_timer w \<or> wr_batch w = [])"
proof -
  have init: "writer_inv new_writer" by (simp add: writer_inv_def new_writer_def)
  let ?w = "run_writer evs"
  have "holding ?w = accepted evs new_writer" "writer_inv ?w"
    "wr_dropped ?w + length (accepted evs new_writer) = length (sent evs)"
    using writer_run [OF init, of evs]
    by (simp_all add: run_writer_def holding_def [of new_writer]) (simp_all add: new_writer_def)
  then show ?thesis
    by (auto simp: Let_def holding_def writer_inv_def log_queue_size_def flush_threshold_def)
qed

text \<open>A shutdown hands everything accepted so far to the flush function.\<close>

lemma shut_down_drains:
  "\<not> wr_stopped w \<Longrightarrow> concat (wr_flushed (writer_step Done w)) = holding w \<and>
     wr_batch (writer_step Done w) = [] \<and> wr_queue (writer_step Done w) = []"
  by (simp add: shut_down_def flush_shape holding_def)

end
