(* ===== verification/Http_Layer.thy ===== *)
theory Http_Layer
  imports Api_Requests User_Store Log_Writer
begin

section \<open>main.go, csrf.go and metrics.go: the middleware around every handler\<close>

text \<open>
  A request passes six layers: metrics, recovery, CORS, API authentication, CSRF and the request
  log. The recorder they share is \<open>http_response\<close>: what \<open>statusRecorder\<close> believes, and
  in \<open>rp_wire\<close> the status net/http has really committed. A handler is any function of the
  request that yields what it writes, the new application state \<open>'a\<close> and whether it panicked; its
  panic is a boolean that the layers pass outwards as Go unwinds.
\<close>

subsection \<open>Requests and responses\<close>

record http_request =
  hr_method :: string
  hr_path :: string
  hr_headers :: "string \<Rightarrow> string" \<comment> \<open>\<open>Header.Get\<close>\<close>
  hr_remote :: string
  hr_session :: session
  hr_form :: "string \<Rightarrow> string" \<comment> \<open>\<open>PostFormValue\<close>, empty for a body that does not parse\<close>

datatype out = Bytes string | JsonOut reply_body | SseOut reply_body | SseEnd

record http_response =
  rp_status :: int
  rp_wrote :: bool
  rp_wire :: "int option"
  rp_headers :: "string \<rightharpoonup> string"
  rp_body :: "out list"

definition new_recorder :: http_response where
  "new_recorder = \<lparr>rp_status = 200, rp_wrote = False, rp_wire = None, rp_headers = Map.empty, rp_body = []\<rparr>"

definition set_header :: "string \<Rightarrow> string \<Rightarrow> http_response \<Rightarrow> http_response" where
  "set_header k v p = p\<lparr>rp_headers := (rp_headers p)(k \<mapsto> v)\<rparr>"

definition commit :: "int \<Rightarrow> http_response \<Rightarrow> http_response" where
  "commit code p = (case rp_wire p of None \<Rightarrow> p\<lparr>rp_wire := Some code\<rparr> | Some _ \<Rightarrow> p)"

definition write_header :: "int \<Rightarrow> http_response \<Rightarrow> http_response" where
  "write_header code p =
     commit code (if rp_wrote p then p else p\<lparr>rp_status := code, rp_wrote := True\<rparr>)"

definition write_out :: "out \<Rightarrow> http_response \<Rightarrow> http_response" where
  "write_out x p = (let p1 = commit 200 (p\<lparr>rp_wrote := True\<rparr>) in p1\<lparr>rp_body := rp_body p1 @ [x]\<rparr>)"

text \<open>\<open>Flush\<close> forwards to net/http, which commits a 200; the recorder takes no note.\<close>

definition flush_out :: "http_response \<Rightarrow> http_response" where
  "flush_out p = commit 200 p"

text \<open>\<open>Hijack\<close>, given whether the handoff succeeded, and \<open>ReadFrom\<close> of a source's bytes.\<close>

definition hijack :: "bool \<Rightarrow> http_response \<Rightarrow> http_response" where
  "hijack ok p = (if ok then p\<lparr>rp_wrote := True\<rparr> else p)"

definition read_from :: "string \<Rightarrow> http_response \<Rightarrow> http_response" where
  "read_from src p = (if src = [] then p\<lparr>rp_wrote := True\<rparr> else write_out (Bytes src) p)"

definition json_response :: "int \<times> reply_body \<Rightarrow> http_response \<Rightarrow> http_response" where
  "json_response r p =
     write_out (JsonOut (snd r)) (write_header (fst r) (set_header ''Content-Type'' ''application/json'' p))"

definition http_error :: "string \<Rightarrow> int \<Rightarrow> http_response \<Rightarrow> http_response" where
  "http_error msg code p =
     write_out (Bytes msg) (write_header code (set_header ''Content-Type'' ''text/plain; charset=utf-8'' p))"

text \<open>What the client sees when the handler chain has returned.\<close>

definition seen_status :: "http_response \<Rightarrow> int" where
  "seen_status p = (case rp_wire p of None \<Rightarrow> 200 | Some c \<Rightarrow> c)"

definition panic_status :: "http_response \<Rightarrow> int" where
  "panic_status p = (if rp_wrote p then rp_status p else 500)"

definition api_path :: "http_request \<Rightarrow> bool" where
  "api_path rq \<longleftrightarrow> has_prefix (hr_path rq) ''/v1/''"

definition write_panic_response :: "http_request \<Rightarrow> http_response \<Rightarrow> http_response" where
  "write_panic_response rq p =
     (if \<not> rp_wrote p then
        (if api_path rq then json_response (write_error OpenAIApi 500 ''Internal server error'' ''api_error'') p
         else http_error ''Internal server error'' 500 p)
      else if has_prefix (case rp_headers p ''Content-Type'' of None \<Rightarrow> [] | Some v \<Rightarrow> v) ''text/event-stream''
      then flush_out (write_out SseEnd
             (write_out (SseOut (snd (write_error OpenAIApi 500 ''Internal server error'' ''api_error''))) p))
      else p)"

subsection \<open>The state the layers share\<close>

record 'a world =
  wd_app :: 'a
  wd_users :: user_db
  wd_cache :: user_cache
  wd_log :: "request_entry writer"
  wd_total :: "(string \<times> string \<times> int) list" \<comment> \<open>requests counted: path bucket, method, status\<close>
  wd_inflight :: "string \<Rightarrow> int"
  wd_panics :: "string list"

record 'a exchange =
  xc_resp :: http_response
  xc_detail :: "request_detail option"
  xc_world :: "'a world"

record http_env =
  he_hash :: "string \<Rightarrow> string"
  he_fault :: bool
  he_now :: int
  he_end :: int \<comment> \<open>when the handler has returned\<close>
  he_rnd :: "nat \<Rightarrow> string"
  he_draws :: nat
  he_time :: "int \<Rightarrow> string"

type_synonym 'a layer = "http_request \<Rightarrow> user option \<Rightarrow> 'a exchange \<Rightarrow> 'a exchange \<times> bool"

definition on_resp :: "(http_response \<Rightarrow> http_response) \<Rightarrow> 'a exchange \<Rightarrow> 'a exchange" where
  "on_resp f x = x\<lparr>xc_resp := f (xc_resp x)\<rparr>"

definition on_world :: "('a world \<Rightarrow> 'a world) \<Rightarrow> 'a exchange \<Rightarrow> 'a exchange" where
  "on_world f x = x\<lparr>xc_world := f (xc_world x)\<rparr>"

subsection \<open>metrics.go\<close>

text \<open>\<open>None\<close>: the panic of \<open>path[1:]\<close> on an empty path, which the router never passes on.\<close>

definition bucket_paths :: "string list" where
  "bucket_paths =
     [''/v1/chat/completions'', ''/v1/models'', ''/v1/messages'', ''/v1/messages/count_tokens'',
      ''/health'', ''/metrics'', ''/'', ''/admin'', ''/logout'']"

definition path_bucket :: "string \<Rightarrow> string option" where
  "path_bucket path =
     (if path \<in> set bucket_paths then Some path
      else if has_prefix path ''/admin/'' then Some ''/admin/*''
      else if has_prefix path ''/v1/'' then Some ''/v1/*''
      else case path of
        [] \<Rightarrow> None
      | c # rest \<Rightarrow>
          (let seg = takeWhile (\<lambda>c. c \<noteq> CHR ''/'') rest in
           if CHR ''/'' \<in> set rest \<and> seg \<noteq> [] then Some (c # seg @ ''/*'') else Some path))"

definition metrics_middleware :: "'a layer \<Rightarrow> 'a layer" where
  "metrics_middleware next rq usr x =
     (case path_bucket (hr_path rq) of
        None \<Rightarrow> (x, True)
      | Some b \<Rightarrow>
          let (x1, panicked) = next rq usr (on_world (\<lambda>w. w\<lparr>wd_inflight := (wd_inflight w)(b := wd_inflight w b + 1)\<rparr>) x);
              status = (if panicked then panic_status (xc_resp x1) else rp_status (xc_resp x1))
          in (on_world (\<lambda>w. w\<lparr>wd_inflight := (wd_inflight w)(b := wd_inflight w b - 1),
                              wd_total := wd_total w @ [(b, hr_method rq, status)]\<rparr>) x1, panicked))"

definition metrics_token_valid :: "string \<Rightarrow> http_request \<Rightarrow> bool" where
  "metrics_token_valid configured rq =
     (if configured = [] then False
      else case cut_prefix (hr_headers rq ''Authorization'') ''Bearer '' of
        None \<Rightarrow> False
      | Some given \<Rightarrow> given = configured)"

text \<open>\<open>None\<close>: the request reaches the Prometheus handler.\<close>

definition handle_metrics :: "string \<Rightarrow> http_request \<Rightarrow> (http_response \<Rightarrow> http_response) option" where
  "handle_metrics configured rq =
     (if \<not> metrics_token_valid configured rq \<and> \<not> sn_admin (hr_session rq)
      then Some (\<lambda>p. http_error ''Unauthorized'' 401 (set_header ''WWW-Authenticate'' ''Bearer realm=\"gw42-metrics\"'' p))
      else None)"

subsection \<open>Recovery and CORS\<close>

definition recovery_middleware :: "'a layer \<Rightarrow> 'a layer" where
  "recovery_middleware next rq usr x =
     (let (x1, panicked) = next rq usr x in
      if panicked
      then (on_resp (write_panic_response rq)
              (on_world (\<lambda>w. w\<lparr>wd_panics := wd_panics w @ [the (path_bucket (hr_path rq))]\<rparr>) x1), False)
      else (x1, False))"

definition cors_headers :: "(string \<times> string) list" where
  "cors_headers =
     [(''Access-Control-Allow-Origin'', ''*''), (''Access-Control-Allow-Methods'', ''GET, POST, OPTIONS''),
      (''Access-Control-Allow-Headers'', ''Authorization, Content-Type, X-Api-Key, Anthropic-Version, Anthropic-Beta''),
      (''Access-Control-Max-Age'', ''86400'')]"

definition set_cors :: "http_response \<Rightarrow> http_response" where
  "set_cors p = foldl (\<lambda>p (k, v). set_header k v p) p cors_headers"

definition cors_middleware :: "'a layer \<Rightarrow> 'a layer" where
  "cors_middleware next rq usr x = next rq usr (if api_path rq then on_resp set_cors x else x)"

subsection \<open>API authentication\<close>

definition api_key_from_request :: "http_request \<Rightarrow> string" where
  "api_key_from_request rq =
     (let auth = hr_headers rq ''Authorization'' in
      if has_prefix auth ''Bearer '' then drop 7 auth
      else if has_prefix (hr_path rq) ''/v1/messages'' then hr_headers rq ''x-api-key''
      else [])"

definition error_flavour :: "http_request \<Rightarrow> api_flavour" where
  "error_flavour rq = (if has_prefix (hr_path rq) ''/v1/messages'' then AnthropicApi else OpenAIApi)"

definition api_auth_middleware :: "http_env \<Rightarrow> 'a layer \<Rightarrow> 'a layer" where
  "api_auth_middleware env next rq usr x =
     (if \<not> api_path rq \<or> hr_method rq = ''OPTIONS'' then next rq usr x
      else
        let key = api_key_from_request rq in
        if key = []
        then (on_resp (json_response (write_error (error_flavour rq) 401 ''Missing API key'' ''authentication_error'')) x, False)
        else
          let (found, cache) = get_user_by_api_key (he_hash env) (he_fault env) (he_now env) key
                                 (wd_users (xc_world x)) (wd_cache (xc_world x));
              x1 = on_world (\<lambda>w. w\<lparr>wd_cache := cache\<rparr>) x
          in case found of
               Found u \<Rightarrow>
                 if us_status u \<noteq> ''active''
                 then (on_resp (json_response (write_error (error_flavour rq) 401 ''Invalid API key'' ''authentication_error'')) x1, False)
                 else next rq (Some u) x1
             | _ \<Rightarrow> (on_resp (json_response (write_error (error_flavour rq) 401 ''Invalid API key'' ''authentication_error'')) x1, False))"

subsection \<open>csrf.go\<close>

definition csrf_protected :: "http_request \<Rightarrow> bool" where
  "csrf_protected rq \<longleftrightarrow> hr_method rq \<notin> {''GET'', ''HEAD'', ''OPTIONS'', ''TRACE''} \<and> \<not> api_path rq"

definition csrf_sent :: "http_request \<Rightarrow> string" where
  "csrf_sent rq = (let given = hr_headers rq ''X-CSRF-Token'' in if given = [] then hr_form rq ''_csrf'' else given)"

text \<open>The dash of the message is the three bytes of U+2014.\<close>

definition csrf_refusal :: string where
  "csrf_refusal =
     ''CSRF token missing or invalid '' @ [CHR 0xE2, CHR 0x80, CHR 0x94] @ '' reload the page and retry.''"

definition csrf_middleware :: "'a layer \<Rightarrow> 'a layer" where
  "csrf_middleware next rq usr x =
     (if \<not> csrf_protected rq then next rq usr x
      else let want = sn_csrf (hr_session rq) in
        if want = [] \<or> want \<noteq> csrf_sent rq then (on_resp (http_error csrf_refusal 403) x, False)
        else next rq usr x)"

text \<open>\<open>draw\<close> is the fresh token; \<open>None\<close>: \<open>crypto/rand\<close> failed.\<close>

definition csrf_token :: "string option \<Rightarrow> session \<Rightarrow> string \<times> session" where
  "csrf_token draw s =
     (if sn_csrf s \<noteq> [] then (sn_csrf s, s)
      else case draw of None \<Rightarrow> ([], s) | Some tok \<Rightarrow> (tok, s\<lparr>sn_csrf := tok\<rparr>))"

text \<open>\<open>given\<close> is the query's \<open>_csrf\<close>.\<close>

definition csrf_query_valid :: "session \<Rightarrow> string \<Rightarrow> bool" where
  "csrf_query_valid s given \<longleftrightarrow> sn_csrf s \<noteq> [] \<and> sn_csrf s = given"

subsection \<open>The request log\<close>

definition split_host :: "string \<Rightarrow> string option" where
  "split_host s =
     (if \<not> split_host_port_ok s then None
      else let i = the (last_colon s) in
        Some (if hd s = CHR ''['' then drop 1 (take (i - 1) s) else take i s))"

definition client_ip :: "http_request \<Rightarrow> string" where
  "client_ip rq =
     (let fwd = hr_headers rq ''X-Forwarded-For'' in
      if fwd \<noteq> [] then trim_space (hd (split_n 2 CHR '','' fwd))
      else case split_host (hr_remote rq) of Some h \<Rightarrow> h | None \<Rightarrow> hr_remote rq)"

definition enqueue_request_log ::
  "http_env \<Rightarrow> string \<Rightarrow> string \<Rightarrow> string \<Rightarrow> string \<Rightarrow> int \<Rightarrow> request_detail option \<Rightarrow>
   request_entry writer \<Rightarrow> request_entry writer" where
  [simp]: "enqueue_request_log env meth path ip name status d =
     enqueue \<lparr>re_ts = he_time env (he_end env), re_method = meth, re_path = path, re_client_ip = ip,
              re_user_name = name, re_status = status, re_detail = d\<rparr>"

definition request_logging_middleware :: "http_env \<Rightarrow> 'a layer \<Rightarrow> 'a layer" where
  "request_logging_middleware env next rq usr x =
     (if \<not> api_path rq then next rq usr x
      else
        let d = new_request_detail (he_rnd env) (he_draws env) (he_now env) (hr_headers rq ''User-Agent'');
            (x1, panicked) = next rq usr (on_resp (set_header ''X-Request-ID'' (rd_id d)) (x\<lparr>xc_detail := Some d\<rparr>));
            status = (if panicked then panic_status (xc_resp x1) else rp_status (xc_resp x1));
            name = (case usr of None \<Rightarrow> [] | Some u \<Rightarrow> us_name u);
            ended = map_option (\<lambda>d. d\<lparr>rd_duration := he_end env - rd_start d\<rparr>) (xc_detail x1)
        in (on_world (\<lambda>w. w\<lparr>wd_log := enqueue_request_log env (hr_method rq) (hr_path rq) (client_ip rq) name status ended
              (wd_log w)\<rparr>) x1, panicked))"

definition middleware_chain :: "http_env \<Rightarrow> 'a layer \<Rightarrow> 'a layer" where
  "middleware_chain env h =
     metrics_middleware (recovery_middleware (cors_middleware (api_auth_middleware env
       (csrf_middleware (request_logging_middleware env h)))))"

subsection \<open>Handlers\<close>

datatype act = SetHeader string string | WriteHeader int | Write out | Flush

fun run_act :: "http_response \<Rightarrow> act \<Rightarrow> http_response" where
  "run_act p (SetHeader k v) = set_header k v p"
| "run_act p (WriteHeader code) = write_header code p"
| "run_act p (Write b) = write_out b p"
| "run_act p Flush = flush_out p"

text \<open>
  A handler: what it does to the response, the collector and the application, and whether it
  ended in a panic.
\<close>

type_synonym 'a handler =
  "http_request \<Rightarrow> user option \<Rightarrow> request_detail option \<Rightarrow> 'a \<Rightarrow> act list \<times> request_detail option \<times> 'a \<times> bool"

definition serve :: "'a handler \<Rightarrow> 'a layer" where
  "serve h rq usr x =
     (let (acts, d, app, panicked) = h rq usr (xc_detail x) (wd_app (xc_world x)) in
      (\<lparr>xc_resp = foldl run_act (xc_resp x) acts, xc_detail = d, xc_world = (xc_world x)\<lparr>wd_app := app\<rparr>\<rparr>, panicked))"

subsection \<open>Who reaches a handler\<close>

abbreviation app :: "'a exchange \<Rightarrow> 'a" where
  "app x \<equiv> wd_app (xc_world x)"

lemma on_fields [simp]:
  "xc_world (on_resp f x) = xc_world x" "xc_detail (on_resp f x) = xc_detail x" "xc_resp (on_resp f x) = f (xc_resp x)"
  "xc_world (on_world g x) = g (xc_world x)" "xc_detail (on_world g x) = xc_detail x" "xc_resp (on_world g x) = xc_resp x"
  by (simp_all add: on_resp_def on_world_def)

text \<open>
  A run of the layer \<open>L\<close> from \<open>x\<close> that changes the application state does so by running
  the handler, whose guards \<open>G\<close> then hold of the request, the user it is given and the state.
\<close>

definition reaches ::
  "'a handler \<Rightarrow> (http_request \<Rightarrow> user option \<Rightarrow> 'a world \<Rightarrow> user option \<Rightarrow> bool) \<Rightarrow> 'a layer \<Rightarrow> bool" where
  "reaches h G L \<longleftrightarrow>
     (\<forall>rq usr x. app (fst (L rq usr x)) = app x \<or>
        (\<exists>u d. app (fst (L rq usr x)) = fst (snd (snd (h rq u d (app x)))) \<and> G rq usr (xc_world x) u))"

lemma reachesI:
  assumes "\<And>rq usr x. app (fst (L rq usr x)) \<noteq> app x \<Longrightarrow>
    \<exists>u d. app (fst (L rq usr x)) = fst (snd (snd (h rq u d (app x)))) \<and> G rq usr (xc_world x) u"
  shows "reaches h G L"
  using assms unfolding reaches_def by blast

lemma reachesD:
  "reaches h G L \<Longrightarrow> app (fst (L rq usr x)) \<noteq> app x \<Longrightarrow>
   \<exists>u d. app (fst (L rq usr x)) = fst (snd (snd (h rq u d (app x)))) \<and> G rq usr (xc_world x) u"
  unfolding reaches_def by blast

text \<open>A layer that runs another on a changed exchange of the same application.\<close>

lemma reaches_through:
  assumes "reaches h G L" and "r = app (fst (L rq usr y))" and "r \<noteq> app x" and "xc_world y = w" and "wd_app w = app x"
  shows "\<exists>u d. r = fst (snd (snd (h rq u d (app x)))) \<and> G rq usr w u"
  using reachesD [OF assms(1), of rq usr y] assms(2-5) by simp

lemma serve_reaches: "reaches h (\<lambda>rq usr w u. u = usr) (serve h)"
  by (rule reachesI) (auto simp: serve_def Let_def case_prod_beta)

lemma logging_reaches:
  assumes "reaches h G L"
  shows "reaches h G (request_logging_middleware env L)"
proof (rule reachesI, goal_cases)
  case (1 rq usr x)
  let ?d = "new_request_detail (he_rnd env) (he_draws env) (he_now env) (hr_headers rq ''User-Agent'')"
  let ?x = "if api_path rq then on_resp (set_header ''X-Request-ID'' (rd_id ?d)) (x\<lparr>xc_detail := Some ?d\<rparr>) else x"
  have run: "app (fst (request_logging_middleware env L rq usr x)) = app (fst (L rq usr ?x))"
    by (simp add: request_logging_middleware_def Let_def case_prod_beta)
  have "xc_world ?x = xc_world x" by simp
  from reaches_through [OF assms run 1 this refl] show ?case .
qed

lemma csrf_reaches:
  assumes "reaches h G L"
  shows "reaches h (\<lambda>rq usr w u. G rq usr w u \<and>
    (csrf_protected rq \<longrightarrow> sn_csrf (hr_session rq) \<noteq> [] \<and> csrf_sent rq = sn_csrf (hr_session rq))) (csrf_middleware L)"
proof (rule reachesI, goal_cases)
  case (1 rq usr x)
  then have "csrf_middleware L rq usr x = L rq usr x"
      "csrf_protected rq \<longrightarrow> sn_csrf (hr_session rq) \<noteq> [] \<and> csrf_sent rq = sn_csrf (hr_session rq)"
    by (auto simp: csrf_middleware_def Let_def split: if_splits)
  note run = this
  from reaches_through [OF assms _ 1, of rq usr x] run show ?case by simp
qed

definition authenticated :: "http_env \<Rightarrow> http_request \<Rightarrow> 'a world \<Rightarrow> user \<Rightarrow> bool" where
  "authenticated env rq w u \<longleftrightarrow>
     api_key_from_request rq \<noteq> [] \<and> us_status u = ''active'' \<and>
     fst (get_user_by_api_key (he_hash env) (he_fault env) (he_now env) (api_key_from_request rq) (wd_users w) (wd_cache w)) = Found u"

lemma auth_reaches:
  assumes "reaches h (\<lambda>rq usr w u. u = usr \<and> G rq) L"
  shows "reaches h (\<lambda>rq usr w u. G rq \<and>
    (if api_path rq \<and> hr_method rq \<noteq> ''OPTIONS'' then \<exists>v. u = Some v \<and> authenticated env rq w v else u = usr))
    (api_auth_middleware env L)"
proof (rule reachesI, goal_cases)
  case (1 rq usr x)
  let ?r = "get_user_by_api_key (he_hash env) (he_fault env) (he_now env) (api_key_from_request rq)
              (wd_users (xc_world x)) (wd_cache (xc_world x))"
  show ?case
  proof (cases "api_path rq \<and> hr_method rq \<noteq> ''OPTIONS''")
    case False
    then have "api_auth_middleware env L rq usr x = L rq usr x" by (auto simp: api_auth_middleware_def)
    with reaches_through [OF assms _ 1, of rq usr x] False show ?thesis by auto
  next
    case True
    with 1 obtain v where v: "authenticated env rq (xc_world x) v"
      and run: "api_auth_middleware env L rq usr x = L rq (Some v) (on_world (\<lambda>w. w\<lparr>wd_cache := snd ?r\<rparr>) x)"
      by (auto simp: api_auth_middleware_def authenticated_def Let_def case_prod_beta split: if_splits db_result.splits)
    from run have "app (fst (api_auth_middleware env L rq usr x)) =
        app (fst (L rq (Some v) (on_world (\<lambda>w. w\<lparr>wd_cache := snd ?r\<rparr>) x)))" by simp
    from reaches_through [OF assms this 1] v True show ?thesis by auto
  qed
qed

lemma outer_reaches:
  assumes "reaches h G L"
    and G: "\<And>rq usr w u f. G rq usr (wd_inflight_update f w) u = G rq usr w u"
  shows "reaches h G (metrics_middleware (recovery_middleware (cors_middleware L)))"
proof (rule reachesI, goal_cases)
  case (1 rq usr x)
  show ?case
  proof (cases "path_bucket (hr_path rq)")
    case None
    with 1 show ?thesis by (simp add: metrics_middleware_def)
  next
    case (Some b)
    let ?w = "(xc_world x)\<lparr>wd_inflight := (wd_inflight (xc_world x))(b := wd_inflight (xc_world x) b + 1)\<rparr>"
    let ?x = "on_world (\<lambda>w. w\<lparr>wd_inflight := (wd_inflight w)(b := wd_inflight w b + 1)\<rparr>) x"
    let ?y = "if api_path rq then on_resp set_cors ?x else ?x"
    have run: "app (fst (metrics_middleware (recovery_middleware (cors_middleware L)) rq usr x)) = app (fst (L rq usr ?y))"
      using Some by (simp add: metrics_middleware_def recovery_middleware_def cors_middleware_def Let_def case_prod_beta)
    have "xc_world ?y = ?w" by simp
    from reaches_through [OF assms(1) run 1 this] show ?thesis by (simp add: G)
  qed
qed

definition csrf_held :: "http_request \<Rightarrow> bool" where
  "csrf_held rq \<longleftrightarrow>
     (csrf_protected rq \<longrightarrow> sn_csrf (hr_session rq) \<noteq> [] \<and> csrf_sent rq = sn_csrf (hr_session rq))"

lemma chain_reaches:
  "reaches h (\<lambda>rq usr w u. csrf_held rq \<and>
      (if api_path rq \<and> hr_method rq \<noteq> ''OPTIONS'' then \<exists>v. u = Some v \<and> authenticated env rq w v else u = usr))
    (middleware_chain env (serve h))"
proof -
  have "reaches h (\<lambda>rq usr w u. u = usr) (request_logging_middleware env (serve h))"
    by (rule logging_reaches [OF serve_reaches])
  then have "reaches h (\<lambda>rq usr w u. u = usr \<and> csrf_held rq) (csrf_middleware (request_logging_middleware env (serve h)))"
    unfolding csrf_held_def by (rule csrf_reaches)
  then have "reaches h (\<lambda>rq usr w u. csrf_held rq \<and>
      (if api_path rq \<and> hr_method rq \<noteq> ''OPTIONS'' then \<exists>v. u = Some v \<and> authenticated env rq w v else u = usr))
    (api_auth_middleware env (csrf_middleware (request_logging_middleware env (serve h))))"
    by (rule auth_reaches)
  then show ?thesis unfolding middleware_chain_def by (rule outer_reaches) (simp add: authenticated_def)
qed

lemma authenticated_owner:
  assumes "users_coherent (wd_users w) (wd_cache w)" and "authenticated env rq w v"
  shows "find_user (ApiKey (he_hash env (api_key_from_request rq))) (wd_users w) = Some v \<and> us_status v = ''active''"
  using assms(2) get_user_coherent [OF assms(1), of "he_fault env" "he_now env" "ApiKey (he_hash env (api_key_from_request rq))"]
  by (auto simp: authenticated_def get_user_by_api_key_def prod_eq_iff)



subsection \<open>What is recorded of a response\<close>

text \<open>
  The recorder agrees with the wire: nothing committed and nothing noted, or both with the same
  status.
\<close>

definition fresh :: "http_response \<Rightarrow> bool" where
  "fresh p \<longleftrightarrow> rp_wire p = None \<and> \<not> rp_wrote p \<and> rp_status p = 200"

definition rec_ok :: "http_response \<Rightarrow> bool" where
  "rec_ok p \<longleftrightarrow> fresh p \<or> rp_wrote p \<and> rp_wire p = Some (rp_status p)"

lemmas response_defs = set_header_def commit_def write_header_def write_out_def flush_out_def
  json_response_def http_error_def seen_status_def panic_status_def

lemma fresh_new [simp]: "fresh new_recorder"
  by (simp add: fresh_def new_recorder_def)

lemma fresh_ok [simp, intro]: "fresh p \<Longrightarrow> rec_ok p"
  by (simp add: rec_ok_def)

lemma rec_ok_steps [simp]:
  "fresh (set_header k v p) = fresh p" "rec_ok (set_header k v p) = rec_ok p"
  "rec_ok p \<Longrightarrow> rec_ok (write_header c p)" "rec_ok p \<Longrightarrow> rec_ok (write_out b p)"
  "rec_ok p \<Longrightarrow> rec_ok (json_response r p)" "rec_ok p \<Longrightarrow> rec_ok (http_error m c p)"
  "rp_wrote p \<Longrightarrow> rec_ok p \<Longrightarrow> rec_ok (flush_out p)"
  by (auto simp: rec_ok_def fresh_def response_defs split: option.splits)

lemma wrote_steps [simp]:
  "rp_wrote (set_header k v p) = rp_wrote p" "rp_wrote (write_header c p)" "rp_wrote (write_out b p)"
  "rp_wrote (flush_out p) = rp_wrote p"
  by (auto simp: response_defs split: option.splits)

lemma rec_ok_seen: "rec_ok p \<Longrightarrow> seen_status p = rp_status p"
  by (auto simp: rec_ok_def fresh_def seen_status_def)

lemma fresh_set_cors [simp]: "fresh (set_cors p) = fresh p"
  by (simp add: set_cors_def cors_headers_def)

text \<open>A handler that flushes only what it has begun to write.\<close>

fun settles :: "bool \<Rightarrow> act list \<Rightarrow> bool" where
  "settles w [] = True"
| "settles w (SetHeader k v # acts) = settles w acts"
| "settles w (WriteHeader c # acts) = settles True acts"
| "settles w (Write b # acts) = settles True acts"
| "settles w (Flush # acts) = (w \<and> settles w acts)"

lemma settles_rec_ok: "settles w acts \<Longrightarrow> rec_ok p \<Longrightarrow> (w \<longrightarrow> rp_wrote p) \<Longrightarrow> rec_ok (foldl run_act p acts)"
  by (induction w acts arbitrary: p rule: settles.induct) auto

definition write_settled :: "'a handler \<Rightarrow> bool" where
  "write_settled h \<longleftrightarrow> (\<forall>rq usr d a. settles False (fst (h rq usr d a)))"

text \<open>The status the layers below note for a run that may have panicked.\<close>

definition noted_status :: "'a exchange \<times> bool \<Rightarrow> int" where
  "noted_status r = (if snd r then panic_status (xc_resp (fst r)) else rp_status (xc_resp (fst r)))"

definition same_books :: "'a world \<Rightarrow> 'a world \<Rightarrow> bool" where
  "same_books w v \<longleftrightarrow> wd_total v = wd_total w \<and> wd_inflight v = wd_inflight w \<and> wd_panics v = wd_panics w"

text \<open>
  A layer that leaves the recorder in agreement with the wire and the collectors alone, and logs
  at most one row, with the status that will be noted.
\<close>

definition bookkeeping :: "'a layer \<Rightarrow> bool" where
  "bookkeeping L \<longleftrightarrow>
     (\<forall>rq usr x. fresh (xc_resp x) \<longrightarrow>
        rec_ok (xc_resp (fst (L rq usr x))) \<and> same_books (xc_world x) (xc_world (fst (L rq usr x))) \<and>
        (wd_log (xc_world (fst (L rq usr x))) = wd_log (xc_world x) \<or>
         (\<exists>e. wd_log (xc_world (fst (L rq usr x))) = enqueue e (wd_log (xc_world x)) \<and>
              re_status e = noted_status (L rq usr x))))"

lemma bookkeepingI:
  assumes "\<And>rq usr x. fresh (xc_resp x) \<Longrightarrow> rec_ok (xc_resp (fst (L rq usr x)))"
    and "\<And>rq usr x. fresh (xc_resp x) \<Longrightarrow> same_books (xc_world x) (xc_world (fst (L rq usr x)))"
    and "\<And>rq usr x. fresh (xc_resp x) \<Longrightarrow> wd_log (xc_world (fst (L rq usr x))) = wd_log (xc_world x) \<or>
         (\<exists>e. wd_log (xc_world (fst (L rq usr x))) = enqueue e (wd_log (xc_world x)) \<and> re_status e = noted_status (L rq usr x))"
  shows "bookkeeping L"
  using assms unfolding bookkeeping_def by blast

lemma bookkeepingD:
  assumes "bookkeeping L" and "fresh (xc_resp x)"
  shows "rec_ok (xc_resp (fst (L rq usr x)))" and "same_books (xc_world x) (xc_world (fst (L rq usr x)))"
    and "wd_log (xc_world (fst (L rq usr x))) = wd_log (xc_world x) \<or>
         (\<exists>e. wd_log (xc_world (fst (L rq usr x))) = enqueue e (wd_log (xc_world x)) \<and> re_status e = noted_status (L rq usr x))"
  using assms unfolding bookkeeping_def by blast+

lemma serve_fields [simp]:
  "wd_log (xc_world (fst (serve h rq usr x))) = wd_log (xc_world x)"
  "same_books (xc_world x) (xc_world (fst (serve h rq usr x)))"
  "xc_resp (fst (serve h rq usr x)) = foldl run_act (xc_resp x) (fst (h rq usr (xc_detail x) (app x)))"
  "snd (serve h rq usr x) = snd (snd (snd (h rq usr (xc_detail x) (app x))))"
  by (simp_all add: serve_def same_books_def Let_def case_prod_beta)

lemma logging_bookkeeping:
  assumes "write_settled h"
  shows "bookkeeping (request_logging_middleware env (serve h))"
proof (rule bookkeepingI, goal_cases)
  case (1 rq usr x)
  then show ?case using assms
    by (auto simp: request_logging_middleware_def write_settled_def Let_def case_prod_beta intro!: settles_rec_ok)
next
  case (2 rq usr x)
  show ?case
    by (auto simp: request_logging_middleware_def same_books_def serve_def Let_def case_prod_beta)
next
  case (3 rq usr x)
  show ?case
    by (auto simp: request_logging_middleware_def noted_status_def Let_def case_prod_beta)
qed

text \<open>A layer that answers itself or runs the next one, leaving the collectors and the log alone.\<close>

definition quiet :: "'a exchange \<Rightarrow> 'a exchange \<Rightarrow> bool" where
  "quiet x y \<longleftrightarrow> same_books (xc_world x) (xc_world y) \<and> wd_log (xc_world y) = wd_log (xc_world x)"

inductive hands_on :: "'a layer \<Rightarrow> http_request \<Rightarrow> 'a exchange \<Rightarrow> 'a exchange \<times> bool \<Rightarrow> bool" for L rq x where
  runs: "quiet x y \<Longrightarrow> fresh (xc_resp y) = fresh (xc_resp x) \<Longrightarrow> hands_on L rq x (L rq u y)"
| answers: "quiet x y \<Longrightarrow> fresh (xc_resp x) \<longrightarrow> rec_ok (xc_resp y) \<Longrightarrow> hands_on L rq x (y, False)"

lemma quietI [simp]:
  "quiet x x" "quiet x (on_resp f x)" "quiet x (on_world (\<lambda>w. w\<lparr>wd_cache := c\<rparr>) x)"
  "quiet x (on_resp f (on_world (\<lambda>w. w\<lparr>wd_cache := c\<rparr>) x))"
  by (simp_all add: quiet_def same_books_def)

lemma hands_on_bookkeeping:
  assumes L: "bookkeeping L" and pass: "\<And>rq usr x. hands_on L rq x (M rq usr x)"
  shows "bookkeeping M"
  unfolding bookkeeping_def
proof (intro allI impI, goal_cases)
  case (1 rq usr x)
  from pass [of rq x usr] 1 show ?case
  proof cases
    case (runs y u)
    with 1 bookkeepingD [OF L, of y rq u] show ?thesis by (simp add: quiet_def same_books_def)
  next
    case (answers y)
    with 1 show ?thesis by (simp add: quiet_def)
  qed
qed

lemma csrf_bookkeeping: "bookkeeping L \<Longrightarrow> bookkeeping (csrf_middleware L)"
  by (erule hands_on_bookkeeping) (auto simp: csrf_middleware_def Let_def intro: hands_on.intros)

lemma auth_bookkeeping: "bookkeeping L \<Longrightarrow> bookkeeping (api_auth_middleware env L)"
  by (erule hands_on_bookkeeping)
    (auto simp: api_auth_middleware_def Let_def case_prod_beta split: db_result.splits intro: hands_on.intros)

lemma cors_bookkeeping: "bookkeeping L \<Longrightarrow> bookkeeping (cors_middleware L)"
  by (erule hands_on_bookkeeping) (auto simp: cors_middleware_def intro: hands_on.intros)

lemma panic_response_ok [simp]:
  assumes "rec_ok p"
  shows "rec_ok (write_panic_response rq p)" and "rp_status (write_panic_response rq p) = panic_status p"
  using assms
  by (auto simp: write_panic_response_def write_error_def rec_ok_def fresh_def response_defs Let_def split: option.splits)

lemma path_bucket_total: "path \<noteq> [] \<Longrightarrow> \<exists>b. path_bucket path = Some b"
  by (cases path) (auto simp: path_bucket_def Let_def)

lemma chain_inner_bookkeeping:
  assumes "write_settled h"
  shows "bookkeeping (cors_middleware (api_auth_middleware env (csrf_middleware (request_logging_middleware env (serve h)))))"
  by (intro cors_bookkeeping auth_bookkeeping csrf_bookkeeping logging_bookkeeping assms)

text \<open>
  Every request the server takes is answered and accounted for, whatever its handler does: the
  chain never ends in a panic, the metrics count it once under its path with the status the client
  saw, the gauge of requests in flight returns to its value, and a row of the request log, if one
  is written, has that same status. The handler must not flush before it writes.
\<close>

theorem responses_accounted:
  assumes "write_settled h" and "fresh (xc_resp x)" and "hr_path rq \<noteq> []"
  shows "let r = middleware_chain env (serve h) rq None x in \<not> snd r \<and>
    (\<exists>b. path_bucket (hr_path rq) = Some b \<and>
         wd_total (xc_world (fst r)) = wd_total (xc_world x) @ [(b, hr_method rq, seen_status (xc_resp (fst r)))]) \<and>
    wd_inflight (xc_world (fst r)) = wd_inflight (xc_world x) \<and>
    (wd_log (xc_world (fst r)) = wd_log (xc_world x) \<or>
     (\<exists>e. wd_log (xc_world (fst r)) = enqueue e (wd_log (xc_world x)) \<and> re_status e = seen_status (xc_resp (fst r))))"
proof -
  obtain b where b: "path_bucket (hr_path rq) = Some b" using path_bucket_total [OF assms(3)] by blast
  let ?L = "cors_middleware (api_auth_middleware env (csrf_middleware (request_logging_middleware env (serve h))))"
  let ?x = "on_world (\<lambda>w. w\<lparr>wd_inflight := (wd_inflight w)(b := wd_inflight w b + 1)\<rparr>) x"
  define q where "q = ?L rq None ?x"
  have "fresh (xc_resp ?x)" using assms(2) by simp
  note books = bookkeepingD [OF chain_inner_bookkeeping [OF assms(1)] this, of env rq None, folded q_def]
  show ?thesis
    using books b by (cases "snd q") (simp_all add: noted_status_def middleware_chain_def metrics_middleware_def recovery_middleware_def q_def [symmetric] Let_def
        case_prod_beta same_books_def rec_ok_seen)
qed

subsection \<open>The layers at work\<close>

definition sample_env :: http_env where
  "sample_env = \<lparr>he_hash = id, he_fault = False, he_now = 5, he_end = 9, he_rnd = (\<lambda>n. ''r''), he_draws = 0, he_time = (\<lambda>t. [])\<rparr>"

definition sample_request :: http_request where
  "sample_request =
     \<lparr>hr_method = ''POST'', hr_path = ''/v1/chat/completions'',
      hr_headers = (\<lambda>k. if k = ''Authorization'' then ''Bearer h'' else []), hr_remote = ''10.0.0.1:80'',
      hr_session = \<lparr>sn_admin = False, sn_csrf = [], sn_flashes = [], sn_exported = {}\<rparr>, hr_form = (\<lambda>k. [])\<rparr>"

definition sample_exchange :: "nat exchange" where
  "sample_exchange =
     \<lparr>xc_resp = new_recorder, xc_detail = None,
      xc_world = \<lparr>wd_app = 0, wd_users = sample_users, wd_cache = [], wd_log = new_writer, wd_total = [],
                  wd_inflight = (\<lambda>_. 0), wd_panics = []\<rparr>\<rparr>"

text \<open>A handler that counts its calls and panics in the middle of its answer.\<close>

definition sample_handler :: "nat handler" where
  "sample_handler rq u d a = ([WriteHeader 200, Write (Bytes ''x''), Flush], d, Suc a, True)"

lemma sample_path: "path_bucket ''/v1/chat/completions'' = Some ''/v1/chat/completions''" "api_path sample_request"
  "hr_method sample_request = ''POST''" "hr_path sample_request = ''/v1/chat/completions''" "\<not> csrf_protected sample_request"
  "api_key_from_request sample_request = ''h''"
  by (simp_all add: sample_request_def path_bucket_def bucket_paths_def api_path_def has_prefix_def csrf_protected_def
      api_key_from_request_def)

lemma chain_sample_fields: "he_hash sample_env = id" "app sample_exchange = 0" "wd_users (xc_world sample_exchange) = sample_users"
  "wd_cache (xc_world sample_exchange) = []" "wd_total (xc_world sample_exchange) = []" "fresh (xc_resp sample_exchange)"
  by (simp_all add: sample_env_def sample_exchange_def)

lemma chain_sample_run: "app (fst (middleware_chain sample_env (serve sample_handler) sample_request None sample_exchange)) \<noteq> 0"
  by code_simp


lemma responses_accounted_witness:
  "wd_total (xc_world (fst (middleware_chain sample_env (serve sample_handler) sample_request None sample_exchange))) =
     [(''/v1/chat/completions'', ''POST'',
       seen_status (xc_resp (fst (middleware_chain sample_env (serve sample_handler) sample_request None sample_exchange))))]"
proof -
  have "write_settled sample_handler" "hr_path sample_request \<noteq> []"
    by (simp_all add: write_settled_def sample_handler_def sample_path)
  from responses_accounted [OF this(1) chain_sample_fields(6) this(2), of sample_env] show ?thesis
    by (simp add: Let_def sample_path chain_sample_fields)
qed

text \<open>\<open>Flush\<close> sends an implicit 200 that the recorder does not note: the status of a panic or
  of a late \<open>WriteHeader\<close> is then counted as one the client never saw.\<close>

theorem flush_hides_commit:
  "panic_status (flush_out new_recorder) = 500 \<and>
   seen_status (write_panic_response rq (flush_out new_recorder)) = 200 \<and>
   rp_status (write_header 404 (flush_out new_recorder)) = 404 \<and> seen_status (write_header 404 (flush_out new_recorder)) = 200"
  by (simp add: write_panic_response_def new_recorder_def write_error_def response_defs Let_def)

text \<open>A hijacked connection gets no error body on top of its own protocol.\<close>

lemma hijacked_left_alone: "rp_headers p ''Content-Type'' = None \<Longrightarrow> write_panic_response rq (hijack True p) = hijack True p"
  by (simp add: write_panic_response_def hijack_def has_prefix_def)

lemma unset_token_refused: "\<not> metrics_token_valid [] rq"
  by (simp add: metrics_token_valid_def)

end
