(* ===== verification/Anthropic_Stream.thy ===== *)
theory Anthropic_Stream
  imports Anthropic_Translate
begin

section \<open>anthropic.go: the stream translation\<close>

text \<open>
  \<open>anthropicStream\<close> turns OpenAI chunks (flat deltas) into Anthropic's stream events
  (explicitly opened and closed content blocks). The state record is the struct; the strings
  of its \<open>open\<close> field are the three constructors of \<open>open_block\<close>. \<open>decode\<close> is
  \<open>json.Unmarshal\<close> of a payload into \<open>streamChunk\<close>. The reader at the other end is written
  as a partial function on the reader's state, so that a protocol error is \<open>None\<close>; the
  theorems run that reader over what the translator emits.
\<close>

subsection \<open>State, chunks and events\<close>

record sc_tool_call =
  sct_index :: int
  sct_id :: string
  sct_name :: string
  sct_args :: string

record sc_choice =
  scc_content :: string
  scc_tools :: "sc_tool_call list"
  scc_finish :: "string option"

record stream_chunk =
  sk_choices :: "sc_choice list"
  sk_usage :: "usage option"

datatype open_block = NoBlock | TextBlock | ToolBlock

datatype block_delta = TextDelta string | InputJsonDelta string

datatype sse_event =
    MessageStart anthropic_message
  | BlockStart int content_block
  | BlockDelta int block_delta
  | BlockStop int
  | MessageDelta string anthropic_usage
  | MessageStop

record anthropic_stream =
  st_id :: string
  st_model :: string
  st_started :: bool
  st_open :: open_block
  st_block_index :: int
  st_tool_index :: int
  st_saw_tool :: bool
  st_finish :: string
  st_usage :: anthropic_usage
  st_rnd :: nat \<comment> \<open>random draws so far\<close>

fun event_name :: "sse_event \<Rightarrow> string" where
  "event_name (MessageStart _) = ''message_start''"
| "event_name (BlockStart _ _) = ''content_block_start''"
| "event_name (BlockDelta _ _) = ''content_block_delta''"
| "event_name (BlockStop _) = ''content_block_stop''"
| "event_name (MessageDelta _ _) = ''message_delta''"
| "event_name MessageStop = ''message_stop''"

subsection \<open>The translator\<close>

definition new_anthropic_stream :: "(nat \<Rightarrow> string) \<Rightarrow> nat \<Rightarrow> string \<Rightarrow> anthropic_stream" where
  "new_anthropic_stream rnd k model =
     (let (i, k1) = new_message_id rnd k in
      \<lparr>st_id = i, st_model = model, st_started = False, st_open = NoBlock, st_block_index = -1,
       st_tool_index = 0, st_saw_tool = False, st_finish = [],
       st_usage = \<lparr>au_input = 0, au_output = 0\<rparr>, st_rnd = k1\<rparr>)"

definition stream_start :: "anthropic_stream \<Rightarrow> anthropic_stream \<times> sse_event" where
  "stream_start s =
     (s\<lparr>st_started := True\<rparr>,
      MessageStart \<lparr>am_id = st_id s, am_type = ''message'', am_role = ''assistant'',
        am_model = st_model s, am_content = [], am_stop_reason = None, am_stop_sequence = None,
        am_usage = \<lparr>au_input = 0, au_output = 0\<rparr>\<rparr>)"

definition close_block :: "anthropic_stream \<Rightarrow> anthropic_stream \<times> sse_event list" where
  "close_block s =
     (if st_open s = NoBlock then (s, [])
      else (s\<lparr>st_open := NoBlock\<rparr>, [BlockStop (st_block_index s)]))"

text \<open>The body of \<open>chunk\<close> for one choice's text.\<close>

definition content_step :: "string \<Rightarrow> anthropic_stream \<Rightarrow> anthropic_stream \<times> sse_event list" where
  "content_step text s =
     (if text = [] then (s, [])
      else if st_open s \<noteq> TextBlock then
        (let (s1, closed) = close_block s;
             s2 = s1\<lparr>st_block_index := st_block_index s1 + 1, st_open := TextBlock\<rparr>
         in (s2, closed @ [BlockStart (st_block_index s2) (text_block []),
                           BlockDelta (st_block_index s2) (TextDelta text)]))
      else (s, [BlockDelta (st_block_index s) (TextDelta text)]))"

text \<open>The body of the loop over one choice's tool-call fragments.\<close>

definition args_delta :: "int \<Rightarrow> string \<Rightarrow> sse_event list" where
  "args_delta i args = (if args = [] then [] else [BlockDelta i (InputJsonDelta args)])"

definition tool_step ::
  "(nat \<Rightarrow> string) \<Rightarrow> sc_tool_call \<Rightarrow> anthropic_stream \<Rightarrow> anthropic_stream \<times> sse_event list" where
  "tool_step rnd tc s =
     (if st_open s \<noteq> ToolBlock \<or> st_tool_index s \<noteq> sct_index tc then
        (let (s1, closed) = close_block s;
             (i, k) = (if sct_id tc = [] then new_tool_use_id rnd (st_rnd s1)
                       else (sct_id tc, st_rnd s1));
             s2 = s1\<lparr>st_block_index := st_block_index s1 + 1, st_open := ToolBlock,
                     st_tool_index := sct_index tc, st_saw_tool := True, st_rnd := k\<rparr>
         in (s2, closed @
               [BlockStart (st_block_index s2)
                  \<lparr>cb_type = ''tool_use'', cb_text = None, cb_id = i, cb_name = sct_name tc,
                   cb_input = Some ''{}''\<rparr>] @
               args_delta (st_block_index s2) (sct_args tc)))
      else (s, args_delta (st_block_index s) (sct_args tc)))"

fun tool_steps ::
  "(nat \<Rightarrow> string) \<Rightarrow> sc_tool_call list \<Rightarrow> anthropic_stream \<Rightarrow> anthropic_stream \<times> sse_event list" where
  "tool_steps rnd [] s = (s, [])"
| "tool_steps rnd (tc # tcs) s =
     (let (s1, e1) = tool_step rnd tc s; (s2, e2) = tool_steps rnd tcs s1 in (s2, e1 @ e2))"

definition choice_step ::
  "(nat \<Rightarrow> string) \<Rightarrow> sc_choice \<Rightarrow> anthropic_stream \<Rightarrow> anthropic_stream \<times> sse_event list" where
  "choice_step rnd ch s =
     (let (s1, e1) = content_step (scc_content ch) s;
          (s2, e2) = tool_steps rnd (scc_tools ch) s1;
          s3 = (case scc_finish ch of None \<Rightarrow> s2 | Some f \<Rightarrow> s2\<lparr>st_finish := f\<rparr>)
      in (s3, e1 @ e2))"

fun choice_steps ::
  "(nat \<Rightarrow> string) \<Rightarrow> sc_choice list \<Rightarrow> anthropic_stream \<Rightarrow> anthropic_stream \<times> sse_event list" where
  "choice_steps rnd [] s = (s, [])"
| "choice_steps rnd (ch # chs) s =
     (let (s1, e1) = choice_step rnd ch s; (s2, e2) = choice_steps rnd chs s1 in (s2, e1 @ e2))"

definition chunk ::
  "(string \<Rightarrow> stream_chunk option) \<Rightarrow> (nat \<Rightarrow> string) \<Rightarrow> string \<Rightarrow> anthropic_stream \<Rightarrow>
   anthropic_stream \<times> sse_event list" where
  "chunk decode rnd p s =
     (case decode p of
        None \<Rightarrow> (s, [])
      | Some c \<Rightarrow>
          choice_steps rnd (sk_choices c)
            (case sk_usage c of
               None \<Rightarrow> s
             | Some u \<Rightarrow> s\<lparr>st_usage := \<lparr>au_input = u_prompt u, au_output = u_completion u\<rparr>\<rparr>))"

definition stream_end :: "anthropic_stream \<Rightarrow> anthropic_stream \<times> sse_event list" where
  "stream_end s =
     (let (s1, closed) = close_block s;
          stop = (if st_saw_tool s1 then stop_tool_use else stop_reason_from_finish (st_finish s1))
      in (s1, closed @ [MessageDelta stop (st_usage s1), MessageStop]))"

text \<open>A whole stream: \<open>start\<close>, one \<open>chunk\<close> per payload, \<open>end\<close>.\<close>

fun chunks ::
  "(string \<Rightarrow> stream_chunk option) \<Rightarrow> (nat \<Rightarrow> string) \<Rightarrow> string list \<Rightarrow> anthropic_stream \<Rightarrow>
   anthropic_stream \<times> sse_event list" where
  "chunks decode rnd [] s = (s, [])"
| "chunks decode rnd (p # ps) s =
     (let (s1, e1) = chunk decode rnd p s; (s2, e2) = chunks decode rnd ps s1 in (s2, e1 @ e2))"

definition stream_events ::
  "(string \<Rightarrow> stream_chunk option) \<Rightarrow> (nat \<Rightarrow> string) \<Rightarrow> nat \<Rightarrow> string \<Rightarrow> string list \<Rightarrow> sse_event list" where
  "stream_events decode rnd k model ps =
     (let (s1, e) = stream_start (new_anthropic_stream rnd k model);
          (s2, es) = chunks decode rnd ps s1
      in e # es @ snd (stream_end s2))"

subsection \<open>The reader of the events\<close>

text \<open>
  The documented protocol: one \<open>message_start\<close>; then blocks with consecutive indices from 0,
  each opened, extended by deltas of its own kind, and closed before the next; then one
  \<open>message_delta\<close> and one \<open>message_stop\<close>.
\<close>

datatype read_block = RText string | RTool (rt_id: string) (rt_name: string) (rt_input: string)

datatype reader =
    Waiting
  | Reading "read_block list" "read_block option"
  | Closing "read_block list" string anthropic_usage
  | Finished "read_block list" string anthropic_usage

definition opened :: "content_block \<Rightarrow> read_block option" where
  "opened b =
     (if cb_type b = ''text'' then map_option RText (cb_text b)
      else if cb_type b = ''tool_use'' \<and> cb_id b \<noteq> [] then Some (RTool (cb_id b) (cb_name b) [])
      else None)"

fun extended :: "read_block \<Rightarrow> block_delta \<Rightarrow> read_block option" where
  "extended (RText t) (TextDelta d) = Some (RText (t @ d))"
| "extended (RTool i n a) (InputJsonDelta d) = Some (RTool i n (a @ d))"
| "extended _ _ = None"

fun read_event :: "reader \<Rightarrow> sse_event \<Rightarrow> reader option" where
  "read_event Waiting (MessageStart m) = (if am_content m = [] then Some (Reading [] None) else None)"
| "read_event (Reading bs None) (BlockStart i b) =
     (if i = int (length bs) then map_option (\<lambda>r. Reading bs (Some r)) (opened b) else None)"
| "read_event (Reading bs (Some r)) (BlockDelta i d) =
     (if i = int (length bs) then map_option (\<lambda>r'. Reading bs (Some r')) (extended r d) else None)"
| "read_event (Reading bs (Some r)) (BlockStop i) =
     (if i = int (length bs) then Some (Reading (bs @ [r]) None) else None)"
| "read_event (Reading bs None) (MessageDelta stop u) = Some (Closing bs stop u)"
| "read_event (Closing bs stop u) MessageStop = Some (Finished bs stop u)"
| "read_event _ _ = None"

fun read_events :: "reader \<Rightarrow> sse_event list \<Rightarrow> reader option" where
  "read_events r [] = Some r"
| "read_events r (e # es) = (case read_event r e of None \<Rightarrow> None | Some r' \<Rightarrow> read_events r' es)"

lemma read_events_append:
  "read_events r (es @ fs) = (case read_events r es of None \<Rightarrow> None | Some r' \<Rightarrow> read_events r' fs)"
  by (induction es arbitrary: r) (auto split: option.split)

subsection \<open>What the chunks say, without the translator\<close>

text \<open>
  The flat sequence of deltas the engine sent, and the blocks it stands for: a block is a
  maximal run of text deltas, or of fragments of one tool call.
\<close>

datatype piece = PText string | PTool sc_tool_call

definition choice_pieces :: "sc_choice \<Rightarrow> piece list" where
  "choice_pieces ch =
     (if scc_content ch = [] then [] else [PText (scc_content ch)]) @ map PTool (scc_tools ch)"

definition stream_pieces :: "(string \<Rightarrow> stream_chunk option) \<Rightarrow> string list \<Rightarrow> piece list" where
  "stream_pieces decode ps =
     concat (map (\<lambda>p. case decode p of None \<Rightarrow> []
                      | Some c \<Rightarrow> concat (map choice_pieces (sk_choices c))) ps)"

fun same_run :: "piece \<Rightarrow> piece \<Rightarrow> bool" where
  "same_run (PText _) (PText _) = True"
| "same_run (PTool a) (PTool b) = (sct_index a = sct_index b)"
| "same_run _ _ = False"

fun piece_text :: "piece \<Rightarrow> string" where
  "piece_text (PText t) = t"
| "piece_text (PTool tc) = sct_args tc"

function runs :: "piece list \<Rightarrow> (piece \<times> string) list" where
  "runs [] = []"
| "runs (p # ps) =
     (p, piece_text p @ concat (map piece_text (takeWhile (same_run p) ps)))
       # runs (dropWhile (same_run p) ps)"
  by pat_completeness auto
termination
  by (relation "measure length") (auto simp: less_Suc_eq_le length_dropWhile_le)

text \<open>A block read back matches a run: its kind, its text, and a tool call's name and id.\<close>

fun block_of_run :: "read_block \<Rightarrow> piece \<times> string \<Rightarrow> bool" where
  "block_of_run (RText t) (PText _, s) = (t = s)"
| "block_of_run (RTool i n a) (PTool tc, s) =
     (i \<noteq> [] \<and> (sct_id tc \<noteq> [] \<longrightarrow> i = sct_id tc) \<and> n = sct_name tc \<and> a = s)"
| "block_of_run _ _ = False"

subsection \<open>Runs grow at the end\<close>

lemma same_run_refl [simp]: "same_run p p"
  by (cases p) simp_all

lemma same_run_trans: "same_run p q \<Longrightarrow> same_run q r \<longleftrightarrow> same_run p r"
  by (cases p; cases q; cases r) auto

lemma runs_eq_Nil [simp]: "runs ps = [] \<longleftrightarrow> ps = []"
  by (cases ps) simp_all

lemma last_dropWhile_append: "\<exists>x \<in> set xs. \<not> P x \<Longrightarrow> last (dropWhile P xs) = last xs"
  by (induction xs) auto

lemma runs_snoc:
  "runs (ps @ [p]) =
     (if ps \<noteq> [] \<and> same_run (last ps) p
      then butlast (runs ps) @ [(fst (last (runs ps)), snd (last (runs ps)) @ piece_text p)]
      else runs ps @ [(p, piece_text p)])"
proof (induction ps rule: runs.induct)
  case 1
  then show ?case by simp
next
  case (2 q qs)
  show ?case
  proof (cases "\<forall>x \<in> set qs. same_run q x")
    case True
    then have all: "takeWhile (same_run q) qs = qs" "dropWhile (same_run q) qs = []" by auto
    have "same_run q (last (q # qs))" using True by auto
    then have "same_run (last (q # qs)) p \<longleftrightarrow> same_run q p" by (rule same_run_trans)
    moreover have "runs (q # qs) = [(q, piece_text q @ concat (map piece_text qs))]"
      by (simp only: runs.simps all)
    moreover have "runs (q # qs @ [p]) =
        (if same_run q p then [(q, piece_text q @ concat (map piece_text qs) @ piece_text p)]
         else [(q, piece_text q @ concat (map piece_text qs)), (p, piece_text p)])"
      using True by (simp add: takeWhile_append2 dropWhile_append2 all del: takeWhile_eq_all_conv)
    ultimately show ?thesis by (simp add: last_ConsL del: runs.simps last.simps)
  next
    case False
    then have some: "dropWhile (same_run q) qs \<noteq> []" and "qs \<noteq> []" by auto
    moreover have "last (dropWhile (same_run q) qs) = last (q # qs)"
      using False \<open>qs \<noteq> []\<close> by (simp add: last_dropWhile_append)
    moreover have "takeWhile (same_run q) (qs @ [p]) = takeWhile (same_run q) qs"
      and "dropWhile (same_run q) (qs @ [p]) = dropWhile (same_run q) qs @ [p]"
      using False by (auto simp: takeWhile_append1 dropWhile_append1)
    moreover have "\<not> (\<forall>x \<in> set qs. same_run q x)" by (fact False)
    ultimately show ?thesis using 2 by (auto simp: last_ConsR)
  qed
qed

lemma runs_last_same: "ps \<noteq> [] \<Longrightarrow> same_run (fst (last (runs ps))) (last ps)"
proof (induction ps rule: rev_induct)
  case Nil
  then show ?case by simp
next
  case (snoc p ps)
  then show ?case
    using same_run_trans [of "fst (last (runs ps))" "last ps" p] by (auto simp: runs_snoc)
qed

lemma runs_same:
  assumes "ps \<noteq> []" and "same_run (last ps) p" and "list_all2 block_of_run (bs @ [b]) (runs ps)"
    and "\<And>q s. block_of_run b (q, s) \<Longrightarrow> block_of_run b' (q, s @ piece_text p)"
  shows "list_all2 block_of_run (bs @ [b']) (runs (ps @ [p]))"
proof -
  obtain rs r where rs: "runs ps = rs @ [r]" using assms(1) by (cases "runs ps" rule: rev_cases) auto
  obtain q t where r: "r = (q, t)" by fastforce
  from assms(3) rs r have "list_all2 block_of_run bs rs" and "block_of_run b (q, t)"
    by (auto simp: list_all2_append1 list_all2_Cons1 append_eq_append_conv2 append_eq_Cons_conv)
  with assms(1,2,4) rs r show ?thesis
    by (simp add: runs_snoc list_all2_appendI)
qed

lemma runs_new:
  assumes "ps = [] \<or> \<not> same_run (last ps) p" and "list_all2 block_of_run bs (runs ps)"
    and "block_of_run b (p, piece_text p)"
  shows "list_all2 block_of_run (bs @ [b]) (runs (ps @ [p]))"
  using assms by (auto simp: runs_snoc intro: list_all2_appendI)

subsection \<open>The translator keeps the reader in step\<close>

definition open_piece :: "anthropic_stream \<Rightarrow> piece \<Rightarrow> bool" where
  "open_piece s p \<longleftrightarrow>
     (case p of PText _ \<Rightarrow> st_open s = TextBlock
      | PTool tc \<Rightarrow> st_open s = ToolBlock \<and> st_tool_index s = sct_index tc)"

definition in_step :: "anthropic_stream \<Rightarrow> reader \<Rightarrow> piece list \<Rightarrow> bool" where
  "in_step s r ps \<longleftrightarrow>
     st_saw_tool s = (\<exists>tc. PTool tc \<in> set ps) \<and>
     (if ps = [] then st_open s = NoBlock \<and> st_block_index s = -1 \<and> r = Reading [] None
      else \<exists>bs b. r = Reading bs (Some b) \<and> st_block_index s = int (length bs) \<and>
             list_all2 block_of_run (bs @ [b]) (runs ps) \<and> open_piece s (last ps))"

lemma in_step_cong:
  "in_step s r ps \<Longrightarrow> in_step (s\<lparr>st_finish := f\<rparr>) r ps"
  "in_step s r ps \<Longrightarrow> in_step (s\<lparr>st_usage := u\<rparr>) r ps"
  by (auto simp: in_step_def open_piece_def split: piece.splits)

text \<open>Closing the open block leaves the reader with all runs read.\<close>

lemma close_in_step:
  assumes "in_step s r ps"
  obtains bs where "read_events r (snd (close_block s)) = Some (Reading bs None)"
    and "list_all2 block_of_run bs (runs ps)" and "st_block_index s + 1 = int (length bs)"
proof (cases "ps = []")
  case True
  with assms that [of "[]"] show ?thesis by (simp add: in_step_def close_block_def)
next
  case False
  with assms obtain bs b where "r = Reading bs (Some b)" "st_block_index s = int (length bs)"
      "list_all2 block_of_run (bs @ [b]) (runs ps)" "open_piece s (last ps)"
    by (auto simp: in_step_def)
  with that [of "bs @ [b]"] show ?thesis
    by (auto simp: close_block_def open_piece_def split: piece.splits)
qed

lemma close_block_state:
  "st_block_index (fst (close_block s)) = st_block_index s"
  "st_rnd (fst (close_block s)) = st_rnd s"
  "st_saw_tool (fst (close_block s)) = st_saw_tool s"
  "st_finish (fst (close_block s)) = st_finish s"
  "st_usage (fst (close_block s)) = st_usage s"
  by (simp_all add: close_block_def)

lemma open_piece_same_run:
  "open_piece s (last ps) \<Longrightarrow> open_piece s p \<longleftrightarrow> same_run (last ps) p"
  by (cases "last ps"; cases p) (auto simp: open_piece_def)

lemma in_step_same_run:
  assumes "in_step s r ps"
  shows "open_piece s p \<longleftrightarrow> ps \<noteq> [] \<and> same_run (last ps) p"
proof (cases "ps = []")
  case True
  with assms show ?thesis by (auto simp: in_step_def open_piece_def split: piece.split)
next
  case False
  with assms have "open_piece s (last ps)" by (auto simp: in_step_def)
  with False show ?thesis by (simp add: open_piece_same_run)
qed

definition advances :: "(anthropic_stream \<Rightarrow> anthropic_stream \<times> sse_event list) \<Rightarrow> piece list \<Rightarrow> bool" where
  "advances f qs \<longleftrightarrow>
     (\<forall>s r ps. in_step s r ps \<longrightarrow>
        (\<exists>r'. read_events r (snd (f s)) = Some r' \<and> in_step (fst (f s)) r' (ps @ qs)))"

lemma advancesI:
  "(\<And>s r ps. in_step s r ps \<Longrightarrow>
      \<exists>r'. read_events r (snd (f s)) = Some r' \<and> in_step (fst (f s)) r' (ps @ qs)) \<Longrightarrow> advances f qs"
  by (auto simp: advances_def)

lemma advancesE:
  assumes "advances f qs" and "in_step s r ps"
  obtains r' where "read_events r (snd (f s)) = Some r'" and "in_step (fst (f s)) r' (ps @ qs)"
  using assms unfolding advances_def by blast

lemma advances_then:
  assumes "advances f ps" and "advances g qs"
    and "\<And>s. h s = (fst (g (fst (f s))), snd (f s) @ snd (g (fst (f s))))"
  shows "advances h (ps @ qs)"
proof (rule advancesI)
  fix s r rs
  assume "in_step s r rs"
  with assms(1) obtain r1 where r1: "read_events r (snd (f s)) = Some r1"
      "in_step (fst (f s)) r1 (rs @ ps)" by (rule advancesE)
  from assms(2) r1(2) obtain r2 where "read_events r1 (snd (g (fst (f s)))) = Some r2"
      "in_step (fst (g (fst (f s)))) r2 ((rs @ ps) @ qs)" by (rule advancesE)
  with r1(1) show "\<exists>r'. read_events r (snd (h s)) = Some r' \<and> in_step (fst (h s)) r' (rs @ ps @ qs)"
    by (simp add: assms(3) read_events_append)
qed

text \<open>A delta that opens a block, and one that extends the open block.\<close>

lemma open_advances:
  assumes "in_step s r ps" and "\<not> open_piece s p"
    and "opened b = Some rb" and "read_events (Reading bs0 (Some rb)) ds = Some (Reading bs0 (Some rb'))"
    and "bs0 = bs" and "read_events r (snd (close_block s)) = Some (Reading bs None)"
    and "list_all2 block_of_run bs (runs ps)" and "i = int (length bs)"
    and "block_of_run rb' (p, piece_text p)"
    and "st_block_index s' = i" and "open_piece s' p"
    and "st_saw_tool s' = (st_saw_tool s \<or> (\<exists>tc. p = PTool tc))"
  shows "\<exists>r'. read_events r (snd (close_block s) @ BlockStart i b # ds) = Some r' \<and> in_step s' r' (ps @ [p])"
proof -
  have "ps = [] \<or> \<not> same_run (last ps) p" using in_step_same_run [OF assms(1)] assms(2) by blast
  then have "list_all2 block_of_run (bs @ [rb']) (runs (ps @ [p]))" by (rule runs_new) fact+
  moreover have "read_events r (snd (close_block s) @ BlockStart i b # ds) = Some (Reading bs (Some rb'))"
    using assms(3-6,8) by (simp add: read_events_append)
  moreover have "st_saw_tool s = (\<exists>tc. PTool tc \<in> set ps)" using assms(1) by (simp add: in_step_def)
  ultimately show ?thesis using assms(8,10-12) by (auto simp: in_step_def)
qed

lemma extend_advances:
  assumes "in_step s r ps" and "open_piece s p"
    and "\<And>bs b. r = Reading bs (Some b) \<Longrightarrow> st_block_index s = int (length bs) \<Longrightarrow>
           (\<exists>q t. block_of_run b (q, t) \<and> same_run q p) \<Longrightarrow>
           \<exists>b'. read_events r ds = Some (Reading bs (Some b')) \<and>
             (\<forall>q t. block_of_run b (q, t) \<longrightarrow> block_of_run b' (q, t @ piece_text p))"
  shows "\<exists>r'. read_events r ds = Some r' \<and> in_step s r' (ps @ [p])"
proof -
  from in_step_same_run [OF assms(1), of p] assms(2) have ps: "ps \<noteq> []" "same_run (last ps) p" by auto
  with assms(1) obtain bs b where r: "r = Reading bs (Some b)" and i: "st_block_index s = int (length bs)"
    and m: "list_all2 block_of_run (bs @ [b]) (runs ps)" by (auto simp: in_step_def)
  obtain rs q t where rs: "runs ps = rs @ [(q, t)]" using ps(1) by (cases "runs ps" rule: rev_cases) auto
  with m have "block_of_run b (q, t)"
    by (auto simp: list_all2_append1 list_all2_Cons1 append_eq_append_conv2 append_eq_Cons_conv)
  moreover have "same_run q p"
    using runs_last_same [OF ps(1)] ps(2) rs by (simp add: same_run_trans)
  ultimately have "\<exists>q t. block_of_run b (q, t) \<and> same_run q p" by blast
  with assms(3) [OF r i] obtain b' where b': "read_events r ds = Some (Reading bs (Some b'))"
    "\<forall>q t. block_of_run b (q, t) \<longrightarrow> block_of_run b' (q, t @ piece_text p)" by blast
  with ps m have "list_all2 block_of_run (bs @ [b']) (runs (ps @ [p]))" by (intro runs_same) auto
  moreover have "\<exists>tc. PTool tc \<in> set ps" if "p = PTool tc" for tc
    using that ps last_in_set [OF ps(1)] by (cases "last ps") auto
  ultimately show ?thesis using assms(1,2) b'(1) i ps by (auto simp: in_step_def)
qed

lemma content_advances:
  "advances (content_step text) (if text = [] then [] else [PText text])"
proof (rule advancesI)
  fix s r ps
  assume st: "in_step s r ps"
  obtain bs where bs: "read_events r (snd (close_block s)) = Some (Reading bs None)"
      "list_all2 block_of_run bs (runs ps)" "st_block_index s + 1 = int (length bs)"
    using st by (rule close_in_step)
  let ?f = "content_step text s" and ?qs = "if text = [] then [] else [PText text]"
  consider "text = []" | "text \<noteq> []" "st_open s = TextBlock" | "text \<noteq> []" "st_open s \<noteq> TextBlock" by blast
  then show "\<exists>r'. read_events r (snd ?f) = Some r' \<and> in_step (fst ?f) r' (ps @ ?qs)"
  proof cases
    case 1
    with st show ?thesis by (simp add: content_step_def)
  next
    case 2
    have "\<exists>r'. read_events r [BlockDelta (st_block_index s) (TextDelta text)] = Some r' \<and>
        in_step s r' (ps @ [PText text])"
      using st
    proof (rule extend_advances)
      show "open_piece s (PText text)" using 2 by (simp add: open_piece_def)
    next
      fix cs b
      assume a: "r = Reading cs (Some b)" "st_block_index s = int (length cs)"
        "\<exists>q t. block_of_run b (q, t) \<and> same_run q (PText text)"
      from a(3) obtain t where "b = RText t"
        by (cases b) (auto elim!: same_run.elims block_of_run.elims)
      with a(1,2) show "\<exists>b'. read_events r [BlockDelta (st_block_index s) (TextDelta text)] =
            Some (Reading cs (Some b')) \<and>
          (\<forall>q t. block_of_run b (q, t) \<longrightarrow> block_of_run b' (q, t @ piece_text (PText text)))"
        by (auto elim!: block_of_run.elims)
    qed
    with 2 show ?thesis by (simp add: content_step_def)
  next
    case 3
    have "\<exists>r'. read_events r (snd (close_block s) @ BlockStart (st_block_index s + 1) (text_block []) #
          [BlockDelta (st_block_index s + 1) (TextDelta text)]) = Some r' \<and>
        in_step (fst ?f) r' (ps @ [PText text])"
      using st
    proof (rule open_advances [where bs = bs and rb = "RText []" and rb' = "RText text"])
      show "opened (text_block []) = Some (RText [])" by (simp add: opened_def text_block_def)
    qed (use bs 3 in \<open>auto simp: open_piece_def content_step_def Let_def case_prod_beta close_block_state\<close>)
    with 3 show ?thesis by (simp add: content_step_def Let_def case_prod_beta close_block_state)
  qed
qed

lemma tool_advances: "advances (tool_step rnd tc) [PTool tc]"
proof (rule advancesI)
  fix s r ps
  assume st: "in_step s r ps"
  obtain bs where bs: "read_events r (snd (close_block s)) = Some (Reading bs None)"
      "list_all2 block_of_run bs (runs ps)" "st_block_index s + 1 = int (length bs)"
    using st by (rule close_in_step)
  let ?f = "tool_step rnd tc s"
  show "\<exists>r'. read_events r (snd ?f) = Some r' \<and> in_step (fst ?f) r' (ps @ [PTool tc])"
  proof (cases "open_piece s (PTool tc)")
    case True
    have "\<exists>r'. read_events r (args_delta (st_block_index s) (sct_args tc)) = Some r' \<and>
        in_step s r' (ps @ [PTool tc])"
      using st True
    proof (rule extend_advances)
      fix cs b
      assume a: "r = Reading cs (Some b)" "st_block_index s = int (length cs)"
        "\<exists>q t. block_of_run b (q, t) \<and> same_run q (PTool tc)"
      from a(3) obtain i n t where "b = RTool i n t"
        by (cases b) (auto elim!: same_run.elims block_of_run.elims)
      with a(1,2) show "\<exists>b'. read_events r (args_delta (st_block_index s) (sct_args tc)) =
            Some (Reading cs (Some b')) \<and>
          (\<forall>q t. block_of_run b (q, t) \<longrightarrow> block_of_run b' (q, t @ piece_text (PTool tc)))"
        by (auto simp: args_delta_def elim!: block_of_run.elims)
    qed
    with True show ?thesis by (simp add: tool_step_def open_piece_def)
  next
    case False
    let ?i = "st_block_index s + 1"
    let ?id = "if sct_id tc = [] then ''toolu_'' @ rnd (st_rnd s) else sct_id tc"
    let ?b = "\<lparr>cb_type = ''tool_use'', cb_text = None, cb_id = ?id, cb_name = sct_name tc,
               cb_input = Some ''{}''\<rparr>"
    have ev: "snd ?f = snd (close_block s) @ BlockStart ?i ?b # args_delta ?i (sct_args tc)"
      using False
      by (simp add: tool_step_def open_piece_def Let_def case_prod_beta close_block_state new_tool_use_id_def)
    have "\<exists>r'. read_events r (snd (close_block s) @ BlockStart ?i ?b # args_delta ?i (sct_args tc)) = Some r' \<and>
        in_step (fst ?f) r' (ps @ [PTool tc])"
      using st False
    proof (rule open_advances [where bs = bs and rb = "RTool ?id (sct_name tc) []" and
        rb' = "RTool ?id (sct_name tc) (sct_args tc)"])
      show "opened ?b = Some (RTool ?id (sct_name tc) [])" by (simp add: opened_def)
      show "read_events (Reading bs (Some (RTool ?id (sct_name tc) []))) (args_delta ?i (sct_args tc)) =
          Some (Reading bs (Some (RTool ?id (sct_name tc) (sct_args tc))))"
        using bs(3) by (simp add: args_delta_def)
    qed (use bs False in \<open>auto simp: open_piece_def tool_step_def Let_def case_prod_beta close_block_state\<close>)
    with ev show ?thesis by simp
  qed
qed

lemma advances_idle: "(\<And>s. f s = (s, [])) \<Longrightarrow> advances f []"
  by (rule advancesI) simp

lemma tool_steps_advance: "advances (tool_steps rnd tcs) (map PTool tcs)"
proof (induction tcs)
  case Nil
  show ?case by (simp add: advances_idle)
next
  case (Cons tc tcs)
  have "advances (tool_steps rnd (tc # tcs)) ([PTool tc] @ map PTool tcs)"
    by (rule advances_then [OF tool_advances Cons.IH]) (simp add: case_prod_beta Let_def)
  then show ?case by (simp del: tool_steps.simps)
qed

lemma choice_step_advances: "advances (choice_step rnd ch) (choice_pieces ch)"
proof -
  let ?g = "\<lambda>s. let (s1, es) = tool_steps rnd (scc_tools ch) s
                in (case scc_finish ch of None \<Rightarrow> s1 | Some f \<Rightarrow> s1\<lparr>st_finish := f\<rparr>, es)"
  have "advances ?g (map PTool (scc_tools ch))"
  proof (rule advancesI)
    fix s r ps
    assume "in_step s r ps"
    with tool_steps_advance obtain r' where
      "read_events r (snd (tool_steps rnd (scc_tools ch) s)) = Some r'"
      "in_step (fst (tool_steps rnd (scc_tools ch) s)) r' (ps @ map PTool (scc_tools ch))"
      by (rule advancesE)
    then show "\<exists>r'. read_events r (snd (?g s)) = Some r' \<and>
        in_step (fst (?g s)) r' (ps @ map PTool (scc_tools ch))"
      by (simp add: case_prod_beta Let_def in_step_cong split: option.split)
  qed
  then have "advances (choice_step rnd ch)
      ((if scc_content ch = [] then [] else [PText (scc_content ch)]) @ map PTool (scc_tools ch))"
    by (rule advances_then [OF content_advances]) (simp add: choice_step_def case_prod_beta Let_def)
  then show ?thesis by (simp add: choice_pieces_def)
qed

lemma choice_steps_advance: "advances (choice_steps rnd chs) (concat (map choice_pieces chs))"
proof (induction chs)
  case Nil
  show ?case by (simp add: advances_idle)
next
  case (Cons ch chs)
  have "advances (choice_steps rnd (ch # chs)) (choice_pieces ch @ concat (map choice_pieces chs))"
    by (rule advances_then [OF choice_step_advances Cons.IH]) (simp add: case_prod_beta Let_def)
  then show ?case by (simp del: choice_steps.simps)
qed

lemma chunk_advances: "advances (chunk decode rnd p) (stream_pieces decode [p])"
proof (rule advancesI)
  fix s r ps
  assume st: "in_step s r ps"
  show "\<exists>r'. read_events r (snd (chunk decode rnd p s)) = Some r' \<and>
      in_step (fst (chunk decode rnd p s)) r' (ps @ stream_pieces decode [p])"
  proof (cases "decode p")
    case None
    with st show ?thesis by (simp add: chunk_def stream_pieces_def)
  next
    case (Some c)
    let ?s = "case sk_usage c of None \<Rightarrow> s
              | Some u \<Rightarrow> s\<lparr>st_usage := \<lparr>au_input = u_prompt u, au_output = u_completion u\<rparr>\<rparr>"
    have "in_step ?s r ps" using st by (auto split: option.split intro: in_step_cong)
    with choice_steps_advance obtain r' where "read_events r (snd (choice_steps rnd (sk_choices c) ?s)) = Some r'"
        "in_step (fst (choice_steps rnd (sk_choices c) ?s)) r' (ps @ concat (map choice_pieces (sk_choices c)))"
      by (rule advancesE)
    with Some show ?thesis by (simp add: chunk_def stream_pieces_def)
  qed
qed

lemma chunks_advance: "advances (chunks decode rnd ps) (stream_pieces decode ps)"
proof (induction ps)
  case Nil
  show ?case by (simp add: advances_idle stream_pieces_def)
next
  case (Cons p ps)
  have "advances (chunks decode rnd (p # ps)) (stream_pieces decode [p] @ stream_pieces decode ps)"
    by (rule advances_then [OF chunk_advances Cons.IH]) (simp add: case_prod_beta Let_def)
  then show ?case by (simp add: stream_pieces_def del: chunks.simps)
qed

subsection \<open>The finish reason and the usage are the last ones sent\<close>

definition last_or :: "'a \<Rightarrow> 'a list \<Rightarrow> 'a" where
  "last_or d xs = (if xs = [] then d else last xs)"

lemma last_or_append: "last_or d (xs @ ys) = last_or (last_or d xs) ys"
  by (simp add: last_or_def)

definition finishes :: "stream_chunk list \<Rightarrow> string list" where
  "finishes cs = List.map_filter scc_finish (concat (map sk_choices cs))"

definition usages :: "stream_chunk list \<Rightarrow> anthropic_usage list" where
  "usages cs = map (\<lambda>u. \<lparr>au_input = u_prompt u, au_output = u_completion u\<rparr>) (List.map_filter sk_usage cs)"

lemma tool_steps_keep:
  "st_finish (fst (tool_steps rnd tcs s)) = st_finish s \<and> st_usage (fst (tool_steps rnd tcs s)) = st_usage s"
  by (induction tcs arbitrary: s)
    (simp_all add: case_prod_beta Let_def tool_step_def close_block_state)

lemma choice_steps_finish:
  "st_finish (fst (choice_steps rnd chs s)) = last_or (st_finish s) (List.map_filter scc_finish chs) \<and>
   st_usage (fst (choice_steps rnd chs s)) = st_usage s"
proof (induction chs arbitrary: s)
  case Nil
  show ?case by (simp add: last_or_def List.map_filter_def)
next
  case (Cons ch chs)
  have "st_finish (fst (choice_step rnd ch s)) = last_or (st_finish s) (List.map_filter scc_finish [ch])"
    and "st_usage (fst (choice_step rnd ch s)) = st_usage s"
    by (auto simp: choice_step_def content_step_def case_prod_beta Let_def tool_steps_keep
        close_block_state last_or_def List.map_filter_def split: option.split)
  with Cons.IH show ?case
    by (simp add: case_prod_beta Let_def List.map_filter_def last_or_def split: option.split)
qed

lemma chunks_finish:
  "st_finish (fst (chunks decode rnd ps s)) = last_or (st_finish s) (finishes (List.map_filter decode ps)) \<and>
   st_usage (fst (chunks decode rnd ps s)) = last_or (st_usage s) (usages (List.map_filter decode ps))"
proof (induction ps arbitrary: s)
  case Nil
  show ?case by (simp add: last_or_def finishes_def usages_def List.map_filter_def)
next
  case (Cons p ps)
  show ?case
  proof (cases "decode p")
    case None
    then show ?thesis using Cons.IH by (simp add: chunk_def List.map_filter_def)
  next
    case (Some c)
    have "finishes (List.map_filter decode (p # ps)) =
        List.map_filter scc_finish (sk_choices c) @ finishes (List.map_filter decode ps)"
      and "usages (List.map_filter decode (p # ps)) =
        (case sk_usage c of None \<Rightarrow> []
         | Some u \<Rightarrow> [\<lparr>au_input = u_prompt u, au_output = u_completion u\<rparr>]) @
        usages (List.map_filter decode ps)"
      using Some by (simp_all add: finishes_def usages_def List.map_filter_def split: option.split)
    with Some show ?thesis
      by (simp add: chunk_def choice_steps_finish Cons.IH case_prod_beta Let_def last_or_append)
        (simp add: last_or_def split: option.split)
  qed
qed

text \<open>The state of the translator when the stream has ended, and what its events read back as.\<close>

definition stream_state :: "(string \<Rightarrow> stream_chunk option) \<Rightarrow> (nat \<Rightarrow> string) \<Rightarrow> nat \<Rightarrow> string \<Rightarrow> string list \<Rightarrow> anthropic_stream" where
  "stream_state decode rnd k model ps = fst (chunks decode rnd ps (fst (stream_start (new_anthropic_stream rnd k model))))"

lemma stream_state_reported:
  "st_finish (stream_state decode rnd k model ps) = last_or [] (finishes (List.map_filter decode ps))"
  "st_usage (stream_state decode rnd k model ps) = last_or \<lparr>au_input = 0, au_output = 0\<rparr> (usages (List.map_filter decode ps))"
  by (simp_all add: stream_state_def chunks_finish stream_start_def new_anthropic_stream_def new_message_id_def)

lemma events_read:
  "\<exists>blocks. read_events Waiting (stream_events decode rnd k model ps) =
      Some (Finished blocks
        (if \<exists>tc. PTool tc \<in> set (stream_pieces decode ps) then stop_tool_use
         else stop_reason_from_finish (st_finish (stream_state decode rnd k model ps)))
        (st_usage (stream_state decode rnd k model ps))) \<and>
    list_all2 block_of_run blocks (runs (stream_pieces decode ps))"
proof -
  let ?init = "fst (stream_start (new_anthropic_stream rnd k model))"
  let ?s = "stream_state decode rnd k model ps"
  have "in_step ?init (Reading [] None) []"
    by (simp add: in_step_def stream_start_def new_anthropic_stream_def new_message_id_def)
  with chunks_advance obtain r where
    r: "read_events (Reading [] None) (snd (chunks decode rnd ps ?init)) = Some r"
    and st: "in_step ?s r ([] @ stream_pieces decode ps)" unfolding stream_state_def by (rule advancesE)
  from st obtain bs where bs: "read_events r (snd (close_block ?s)) = Some (Reading bs None)"
      "list_all2 block_of_run bs (runs ([] @ stream_pieces decode ps))" by (rule close_in_step)
  have "st_saw_tool ?s = (\<exists>tc. PTool tc \<in> set (stream_pieces decode ps))"
    using st by (simp add: in_step_def)
  with r bs show ?thesis
    by (simp add: stream_events_def stream_start_def stream_end_def case_prod_beta Let_def
        read_events_append close_block_state stream_state_def)
qed

text \<open>
  C7. Whatever chunks the engine sends, undecodable ones included, the events of a stream
  are accepted by a reader of Anthropic's protocol; the blocks it assembles are the maximal
  runs of the engine's deltas (texts concatenated, the fragments of one tool call
  concatenated, under the call's name and its id or a generated one); the stop reason is
  \<open>tool_use\<close> exactly when there was a tool call and else follows the last finish reason;
  and the usage is the last one reported.
\<close>

theorem stream_read_back:
  "\<exists>blocks. read_events Waiting (stream_events decode rnd k model payloads) =
      Some (Finished blocks
        (if \<exists>tc. PTool tc \<in> set (stream_pieces decode payloads) then stop_tool_use
         else stop_reason_from_finish (last_or [] (finishes (List.map_filter decode payloads))))
        (last_or \<lparr>au_input = 0, au_output = 0\<rparr> (usages (List.map_filter decode payloads)))) \<and>
    list_all2 block_of_run blocks (runs (stream_pieces decode payloads))"
  using events_read [of decode rnd k model payloads] unfolding stream_state_reported .

end
