(* ===== verification/Stream_Deadline.thy ===== *)
theory Stream_Deadline
  imports Go_Prelude
begin

section \<open>engine.go: the inactivity deadline of a stream\<close>

text \<open>
  \<open>streamDeadline\<close>: a timer re-armed at every chunk for the sooner of the idle gap and what
  is left of the overall ceiling. The timer goroutine is the step \<open>sd_tick\<close>, which fires the
  timer when its instant has come; \<open>context.WithCancelCause\<close> keeps the first cause.
\<close>

datatype cancel_cause = StreamIdle | StreamLimit | Canceled

record stream_deadline =
  sd_idle :: int
  sd_max :: int \<comment> \<open>0: unbounded\<close>
  sd_timer :: "int option"
  sd_cause :: "cancel_cause option"

definition stream_idle :: int where "stream_idle = 60 * ns_second"
definition stream_max :: int where "stream_max = 30 * ns_minute"

definition sd_until :: "int \<Rightarrow> stream_deadline \<Rightarrow> int" where
  "sd_until now d =
     (let left = sd_idle d;
          left1 = (if sd_max d \<noteq> 0 \<and> sd_max d - now < left then sd_max d - now else left)
      in if left1 < 0 then 0 else left1)"

definition sd_cancel :: "cancel_cause \<Rightarrow> stream_deadline \<Rightarrow> stream_deadline" where
  "sd_cancel c d = (case sd_cause d of None \<Rightarrow> d\<lparr>sd_cause := Some c\<rparr> | Some _ \<Rightarrow> d)"

definition sd_touch :: "int \<Rightarrow> stream_deadline \<Rightarrow> stream_deadline" where
  "sd_touch now d = d\<lparr>sd_timer := Some (now + sd_until now d)\<rparr>"

definition new_stream_deadline :: "int \<Rightarrow> int \<Rightarrow> int \<Rightarrow> stream_deadline" where
  "new_stream_deadline now idle overall =
     sd_touch now \<lparr>sd_idle = idle, sd_max = (if 0 < overall then now + overall else 0),
                   sd_timer = None, sd_cause = None\<rparr>"

definition sd_fired :: "int \<Rightarrow> stream_deadline \<Rightarrow> stream_deadline" where
  "sd_fired now d =
     (if sd_max d \<noteq> 0 \<and> sd_max d \<le> now then sd_cancel StreamLimit d else sd_cancel StreamIdle d)"

text \<open>The timer goroutine, run by the time \<open>now\<close>: it fires at the instant it was armed for.\<close>

definition sd_tick :: "int \<Rightarrow> stream_deadline \<Rightarrow> stream_deadline" where
  "sd_tick now d =
     (case sd_timer d of
        None \<Rightarrow> d
      | Some t \<Rightarrow> if t \<le> now then sd_fired t (d\<lparr>sd_timer := None\<rparr>) else d)"

definition sd_why :: "stream_deadline \<Rightarrow> cancel_cause option" where
  "sd_why d = (if sd_cause d = Some Canceled then None else sd_cause d)"

definition sd_stop :: "stream_deadline \<Rightarrow> stream_deadline" where
  "sd_stop d = sd_cancel Canceled (d\<lparr>sd_timer := None\<rparr>)"

text \<open>A relay loop that reads chunks at the instants \<open>ts\<close> and is observed at \<open>now\<close>.\<close>

fun sd_run :: "stream_deadline \<Rightarrow> int list \<Rightarrow> int \<Rightarrow> stream_deadline" where
  "sd_run d [] now = sd_tick now d"
| "sd_run d (t # ts) now = sd_run (sd_touch t (sd_tick t d)) ts now"

text \<open>The specification: the first gap that is too long, or the ceiling, decides.\<close>

fun deadline_cause :: "int \<Rightarrow> int \<Rightarrow> int \<Rightarrow> int list \<Rightarrow> int \<Rightarrow> cancel_cause option" where
  "deadline_cause idle mx prev [] now =
     (if mx \<le> prev + idle \<and> mx \<le> now then Some StreamLimit
      else if prev + idle \<le> now then Some StreamIdle else None)"
| "deadline_cause idle mx prev (t # ts) now =
     (if mx \<le> prev + idle \<and> mx \<le> t then Some StreamLimit
      else if prev + idle \<le> t then Some StreamIdle
      else deadline_cause idle mx t ts now)"

lemma sd_run_cause_keeps: "sd_cause d = Some c \<Longrightarrow> sd_cause (sd_run d ts now) = Some c"
  by (induction ts arbitrary: d)
    (simp_all add: sd_tick_def sd_fired_def sd_cancel_def sd_touch_def split: option.split)

definition armed :: "stream_deadline \<Rightarrow> int \<Rightarrow> int \<Rightarrow> int \<Rightarrow> bool" where
  "armed d idle mx prev \<longleftrightarrow>
     sd_idle d = idle \<and> sd_max d = mx \<and> sd_cause d = None \<and>
     sd_timer d = Some (if mx < prev + idle then mx else prev + idle)"

lemma armed_touch:
  "sd_idle d = idle \<Longrightarrow> sd_max d = mx \<Longrightarrow> sd_cause d = None \<Longrightarrow> mx \<noteq> 0 \<Longrightarrow> t \<le> mx \<Longrightarrow> 0 < idle \<Longrightarrow>
   armed (sd_touch t d) idle mx t"
  by (auto simp: armed_def sd_touch_def sd_until_def Let_def)

lemma armed_tick:
  "armed d idle mx prev \<Longrightarrow> mx \<noteq> 0 \<Longrightarrow>
   sd_cause (sd_tick t d) =
     (if mx \<le> prev + idle \<and> mx \<le> t then Some StreamLimit
      else if prev + idle \<le> t then Some StreamIdle else None) \<and>
   sd_idle (sd_tick t d) = idle \<and> sd_max (sd_tick t d) = mx"
  by (auto simp: armed_def sd_tick_def sd_fired_def sd_cancel_def)

lemma armed_run:
  assumes "armed d idle mx prev" and "mx \<noteq> 0" and "0 < idle"
  shows "sd_cause (sd_run d ts now) = deadline_cause idle mx prev ts now"
  using assms(1)
proof (induction ts arbitrary: d prev)
  case Nil
  then show ?case using armed_tick [OF Nil assms(2), of now] by simp
next
  case (Cons t ts)
  note tick = armed_tick [OF Cons.prems assms(2), of t]
  show ?case
  proof (cases "sd_cause (sd_tick t d)")
    case None
    with tick have "armed (sd_touch t (sd_tick t d)) idle mx t"
      by (intro armed_touch) (use assms in \<open>auto split: if_splits\<close>)
    with Cons.IH None tick show ?thesis by (auto split: if_splits)
  next
    case (Some c)
    then have "sd_cause (sd_run (sd_touch t (sd_tick t d)) ts now) = Some c"
      by (intro sd_run_cause_keeps) (simp add: sd_touch_def)
    with Some tick show ?thesis by (auto split: if_splits)
  qed
qed

lemma deadline_cause_not_canceled: "deadline_cause idle mx prev ts now \<noteq> Some Canceled"
  by (induction idle mx prev ts now rule: deadline_cause.induct) auto

text \<open>
  C34. A stream opened at \<open>t0\<close> is cancelled exactly by the first thing to happen: a gap between
  chunks of the idle time (cause: idle) or the end of the overall ceiling (cause: limit); a
  stream whose chunks keep coming in time is never cancelled before the ceiling.
\<close>

theorem stream_deadline_exact:
  assumes "0 < t0" and "0 < idle" and "0 < overall"
  shows "sd_why (sd_run (new_stream_deadline t0 idle overall) ts now) =
         deadline_cause idle (t0 + overall) t0 ts now"
proof -
  have "armed (new_stream_deadline t0 idle overall) idle (t0 + overall) t0"
    unfolding new_stream_deadline_def by (rule armed_touch) (use assms in simp_all)
  then have "sd_cause (sd_run (new_stream_deadline t0 idle overall) ts now) =
      deadline_cause idle (t0 + overall) t0 ts now"
    using assms by (intro armed_run) simp_all
  moreover have "deadline_cause idle (t0 + overall) t0 ts now \<noteq> Some Canceled"
    by (rule deadline_cause_not_canceled)
  ultimately show ?thesis by (simp add: sd_why_def)
qed

lemma stream_deadline_exact_witness:
  "sd_why (sd_run (new_stream_deadline 1 10 100) [5, 14, 30] 31) = Some StreamIdle"
  using stream_deadline_exact [of 1 10 100 "[5, 14, 30]" 31] by simp

text \<open>Stopping does not erase the reason of an earlier cancel, and is none itself.\<close>

lemma sd_stop_why: "sd_cause d \<noteq> Some Canceled \<Longrightarrow> sd_why (sd_stop d) = sd_why d"
  by (auto simp: sd_why_def sd_stop_def sd_cancel_def split: option.split)

end
