(* ===== verification/Api_Relay.thy ===== *)
theory Api_Relay
  imports Api_Requests Anthropic_Stream Request_Detail Stream_Deadline
begin

section \<open>api_handlers.go: relaying a stream to the client\<close>

text \<open>
  \<open>streamCompletion\<close> and \<open>streamMessages\<close>. \<open>recv\<close> is the \<open>Recv\<close> of the engine's stream, called
  at the instants of a list, one per pass of the loop; a pass has one instant, at which its frame
  is also written. The connection accepts the writes of \<open>wi_room\<close> (\<open>None\<close>: all) and fails
  every later one, which is how a client that hangs up shows. The result is \<open>None\<close> while the
  list of instants is too short for the stream to end.
\<close>

subsection \<open>The connection\<close>

record 'f wire =
  wi_sent :: "'f list"
  wi_room :: "nat option"

definition put :: "'f \<Rightarrow> 'f wire \<Rightarrow> 'f wire \<times> bool" where
  "put f w =
     (case wi_room w of
        None \<Rightarrow> (w\<lparr>wi_sent := wi_sent w @ [f]\<rparr>, True)
      | Some 0 \<Rightarrow> (w, False)
      | Some (Suc n) \<Rightarrow> (\<lparr>wi_sent = wi_sent w @ [f], wi_room = Some n\<rparr>, True))"

text \<open>The closure \<open>send\<close>: it gives up at the first write that fails.\<close>

fun put_all :: "'f list \<Rightarrow> 'f wire \<Rightarrow> 'f wire \<times> bool" where
  "put_all [] w = (w, True)"
| "put_all (f # fs) w = (let (w1, ok) = put f w in if ok then put_all fs w1 else (w1, False))"

record 'f relay =
  ry_wire :: "'f wire"
  ry_audit :: stream_audit
  ry_outcome :: string
  ry_detail :: "request_detail option"
  ry_deadline :: stream_deadline

fun cause_text :: "cancel_cause \<Rightarrow> string" where
  "cause_text StreamIdle = ''stream idle timeout''"
| "cause_text StreamLimit = ''stream duration limit''"
| "cause_text Canceled = ''context canceled''"

text \<open>The deadline's cause replaces the read error when the gateway itself ended the stream.\<close>

definition why_failed :: "string \<Rightarrow> stream_deadline \<Rightarrow> string" where
  "why_failed e d = (case sd_why d of None \<Rightarrow> e | Some c \<Rightarrow> cause_text c)"

text \<open>The text the deferred function logs.\<close>

definition audit_response :: "'f relay \<Rightarrow> string" where
  "audit_response y =
     audit_string (ry_audit y) @
     (if ry_outcome y \<noteq> [] then CHR 0x0A # ''['' @ ry_outcome y @ '']'' else [])"

datatype 'f stream_reply = StreamError "int \<times> reply_body" | ClientGone | Streamed "'f list"

subsection \<open>OpenAI chunks\<close>

datatype 'p sse = SsePayload 'p | SseError error_response | SseDone

definition interrupted :: error_response where
  "interrupted = openai_error ''Stream interrupted'' ''api_error''"

definition end_completion :: "'p sse relay \<Rightarrow> 'p sse relay" where
  "end_completion y = y\<lparr>ry_wire := fst (put SseDone (ry_wire y))\<rparr>"

fun completion_loop ::
  "(int \<Rightarrow> 's \<Rightarrow> 's \<times> 'p recv) \<Rightarrow> int list \<Rightarrow> 's \<Rightarrow> 'p sse relay \<Rightarrow> 'p sse relay option" where
  "completion_loop recv [] s y = None"
| "completion_loop recv (t # ts) s y =
     (let (s1, r) = recv t s; y1 = y\<lparr>ry_deadline := sd_tick t (ry_deadline y)\<rparr> in
      case r of
        Eof \<Rightarrow> Some (end_completion y1)
      | Failed e \<Rightarrow>
          Some (end_completion (y1\<lparr>ry_wire := fst (put (SseError interrupted) (ry_wire y1)),
            ry_outcome := ''stream interrupted'',
            ry_detail := set_upstream_err (Some (why_failed e (ry_deadline y1))) (ry_detail y1)\<rparr>))
      | Got p m \<Rightarrow>
          (let y2 = y1\<lparr>ry_deadline := sd_touch t (ry_deadline y1)\<rparr>;
               (w, ok) = put (SsePayload p) (ry_wire y2)
           in if \<not> ok then Some (y2\<lparr>ry_wire := w, ry_outcome := ''client disconnected''\<rparr>)
              else completion_loop recv ts s1
                     (y2\<lparr>ry_wire := w, ry_detail := apply_meta m (set_first_token t (ry_detail y2)),
                         ry_audit := audit_write (ry_audit y2) (cm_audit m)\<rparr>)))"

definition new_relay :: "int \<Rightarrow> int \<Rightarrow> nat option \<Rightarrow> request_detail option \<Rightarrow> 'f relay" where
  "new_relay now limit room d =
     \<lparr>ry_wire = \<lparr>wi_sent = [], wi_room = room\<rparr>, ry_audit = audit_new limit, ry_outcome = [],
      ry_detail = set_streamed d, ry_deadline = new_stream_deadline now stream_idle stream_max\<rparr>"

text \<open>
  \<open>conn\<close> is what \<open>StreamChat\<close> returned, \<open>gone\<close> whether the request's context was done then,
  \<open>flushes\<close> whether the writer can flush. The result: the reply, the audited response, the
  request's detail.
\<close>

definition stream_completion ::
  "bool \<Rightarrow> (int \<Rightarrow> 's \<Rightarrow> 's \<times> 'p recv) \<Rightarrow> 's + string \<Rightarrow> bool \<Rightarrow> int \<Rightarrow> nat option \<Rightarrow> int \<Rightarrow> int list \<Rightarrow>
   request_detail option \<Rightarrow> ('p sse stream_reply \<times> string option \<times> request_detail option) option" where
  "stream_completion flushes recv conn gone limit room now ts d =
     (if \<not> flushes then Some (StreamError (write_error OpenAIApi 500 ''Streaming not supported'' ''api_error''), None, d)
      else case conn of
        Inr e \<Rightarrow>
          if gone then Some (ClientGone, None, d)
          else Some (StreamError (write_error OpenAIApi 502 ''Could not reach engine'' ''api_error''), None,
                     set_upstream_err (Some e) d)
      | Inl s \<Rightarrow>
          map_option (\<lambda>y. (Streamed (wi_sent (ry_wire y)), Some (audit_response y),
                           if ry_outcome y \<noteq> [] then set_outcome (ry_outcome y) (ry_detail y) else ry_detail y))
            (completion_loop recv ts s (new_relay now limit room d)))"

subsection \<open>Anthropic events\<close>

datatype message_frame = Event sse_event | ErrorEvent anthropic_error_response

fun message_loop ::
  "(string \<Rightarrow> stream_chunk option) \<Rightarrow> (nat \<Rightarrow> string) \<Rightarrow> (int \<Rightarrow> 's \<Rightarrow> 's \<times> string recv) \<Rightarrow> int list \<Rightarrow> 's \<Rightarrow>
   anthropic_stream \<Rightarrow> message_frame relay \<Rightarrow> message_frame relay option" where
  "message_loop decode rnd recv [] s tr y = None"
| "message_loop decode rnd recv (t # ts) s tr y =
     (let (s1, r) = recv t s; y1 = y\<lparr>ry_deadline := sd_tick t (ry_deadline y)\<rparr> in
      case r of
        Eof \<Rightarrow> Some (y1\<lparr>ry_wire := fst (put_all (map Event (snd (stream_end tr))) (ry_wire y1))\<rparr>)
      | Failed e \<Rightarrow>
          Some (y1\<lparr>ry_wire := fst (put (ErrorEvent (anthropic_error 500 ''Stream interrupted'' ''api_error'')) (ry_wire y1)),
            ry_outcome := ''stream interrupted'',
            ry_detail := set_upstream_err (Some (why_failed e (ry_deadline y1)))
                           (set_outcome ''stream interrupted'' (ry_detail y1))\<rparr>)
      | Got p m \<Rightarrow>
          (let y2 = y1\<lparr>ry_deadline := sd_touch t (ry_deadline y1)\<rparr>;
               (tr1, es) = chunk decode rnd p tr;
               (w, ok) = put_all (map Event es) (ry_wire y2)
           in if \<not> ok
              then Some (y2\<lparr>ry_wire := w, ry_outcome := ''client disconnected'',
                            ry_detail := set_outcome ''client disconnected'' (ry_detail y2)\<rparr>)
              else message_loop decode rnd recv ts s1 tr1
                     (y2\<lparr>ry_wire := w, ry_detail := apply_meta m (set_first_token t (ry_detail y2)),
                         ry_audit := audit_write (ry_audit y2) (cm_audit m)\<rparr>)))"

definition stream_messages ::
  "(string \<Rightarrow> stream_chunk option) \<Rightarrow> (nat \<Rightarrow> string) \<Rightarrow> nat \<Rightarrow> bool \<Rightarrow> (int \<Rightarrow> 's \<Rightarrow> 's \<times> string recv) \<Rightarrow>
   's + string \<Rightarrow> bool \<Rightarrow> int \<Rightarrow> nat option \<Rightarrow> string \<Rightarrow> int \<Rightarrow> int list \<Rightarrow> request_detail option \<Rightarrow>
   (message_frame stream_reply \<times> string option \<times> request_detail option) option" where
  "stream_messages decode rnd k flushes recv conn gone limit room model now ts d =
     (if \<not> flushes then Some (StreamError (write_error AnthropicApi 500 ''Streaming not supported'' ''api_error''), None, d)
      else case conn of
        Inr e \<Rightarrow>
          if gone then Some (ClientGone, None, d)
          else Some (StreamError (write_error AnthropicApi 502 ''Could not reach engine'' ''api_error''), None,
                     set_upstream_err (Some e) d)
      | Inl s \<Rightarrow>
          (let (tr, ev) = stream_start (new_anthropic_stream rnd k model);
               y = new_relay now limit room d;
               (w, ok) = put (Event ev) (ry_wire y)
           in map_option (\<lambda>y. (Streamed (wi_sent (ry_wire y)), Some (audit_response y), ry_detail y))
                (if \<not> ok then Some (y\<lparr>ry_wire := w, ry_outcome := ''client disconnected''\<rparr>)
                 else message_loop decode rnd recv ts s tr (y\<lparr>ry_wire := w\<rparr>))))"

subsection \<open>What the client receives\<close>

text \<open>The frames of a list that the connection accepts, and what it accepts after them.\<close>

definition accepted_of :: "nat option \<Rightarrow> 'a list \<Rightarrow> 'a list" where
  "accepted_of room fs = (case room of None \<Rightarrow> fs | Some n \<Rightarrow> take n fs)"

definition room_after :: "nat option \<Rightarrow> nat \<Rightarrow> nat option" where
  "room_after room k = map_option (\<lambda>n. n - k) room"

definition has_room :: "nat option \<Rightarrow> nat \<Rightarrow> bool" where
  "has_room room k \<longleftrightarrow> (case room of None \<Rightarrow> True | Some n \<Rightarrow> k \<le> n)"

named_theorems room

lemma accepted_of_Nil [simp]: "accepted_of room [] = []"
  by (simp add: accepted_of_def split: option.split)

lemma accepted_of_Cons [room]:
  "accepted_of room (f # fs) = (if has_room room (Suc 0) then f # accepted_of (room_after room (Suc 0)) fs else [])"
  by (auto simp: accepted_of_def has_room_def room_after_def take_Cons split: option.split nat.split)

lemma accepted_of_append [room]:
  "accepted_of room (fs @ gs) = accepted_of room fs @ accepted_of (room_after room (length fs)) gs"
  by (simp add: accepted_of_def room_after_def split: option.split)

lemma accepted_of_all [room]: "has_room room (length fs) \<Longrightarrow> accepted_of room fs = fs"
  by (simp add: accepted_of_def has_room_def split: option.splits)

lemma accepted_of_none [room]: "\<not> has_room room k \<Longrightarrow> accepted_of (room_after room k) fs = []"
  by (simp add: accepted_of_def has_room_def room_after_def split: option.splits)

lemma room_after_after [room]: "room_after (room_after room j) k = room_after room (j + k)"
  by (cases room) (simp_all add: room_after_def)

lemma room_after_0 [simp]: "room_after room 0 = room"
  by (cases room) (simp_all add: room_after_def)

lemma has_room_after [room]:
  "has_room room j \<Longrightarrow> has_room (room_after room j) k = has_room room (j + k)"
  by (auto simp: has_room_def room_after_def split: option.splits)

lemma has_room_0 [simp]: "has_room room 0"
  by (simp add: has_room_def split: option.split)

lemma put_eq:
  "put f w =
     (if has_room (wi_room w) (Suc 0)
      then (\<lparr>wi_sent = wi_sent w @ [f], wi_room = room_after (wi_room w) (Suc 0)\<rparr>, True) else (w, False))"
  by (cases w) (auto simp: put_def has_room_def room_after_def split: option.split nat.split)

lemma put_all_eq:
  "put_all fs w =
     (\<lparr>wi_sent = wi_sent w @ accepted_of (wi_room w) fs, wi_room = room_after (wi_room w) (length fs)\<rparr>,
      has_room (wi_room w) (length fs))"
proof (induction fs arbitrary: w)
  case (Cons f fs)
  show ?case
  proof (cases "has_room (wi_room w) (Suc 0)")
    case True
    with Cons show ?thesis by (simp add: put_eq room)
  next
    case False
    then have "wi_room w = Some 0" by (auto simp: has_room_def split: option.splits)
    then show ?thesis by (cases w) (simp add: put_eq has_room_def room_after_def accepted_of_def)
  qed
qed (cases w, simp)

text \<open>How a relayed stream ended for the client, in the words of the audit.\<close>

definition relay_outcome :: "bool \<Rightarrow> 'p recv \<Rightarrow> string" where
  "relay_outcome whole r =
     (if \<not> whole then ''client disconnected''
      else case r of Failed _ \<Rightarrow> ''stream interrupted'' | _ \<Rightarrow> [])"

definition sse_transcript :: "('p \<times> chunk_meta) list \<Rightarrow> 'p recv \<Rightarrow> 'p sse list" where
  "sse_transcript ps r =
     map (SsePayload \<circ> fst) ps @ (case r of Failed _ \<Rightarrow> [SseError interrupted] | _ \<Rightarrow> []) @ [SseDone]"

text \<open>The collector after the frames that reached the client, each at its instant.\<close>

definition detail_after :: "(int \<times> chunk_meta) list \<Rightarrow> request_detail option \<Rightarrow> request_detail option" where
  "detail_after tms d = foldl (\<lambda>d (t, m). apply_meta m (set_first_token t d)) d tms"

definition detail_end :: "bool \<Rightarrow> stream_deadline \<Rightarrow> 'p recv \<Rightarrow> request_detail option \<Rightarrow> request_detail option" where
  "detail_end whole dl r =
     (case r of Failed e \<Rightarrow> if whole then set_upstream_err (Some (why_failed e dl)) else id | _ \<Rightarrow> id)"

lemma sse_transcript_simps [simp]:
  "sse_transcript ((p, m) # ps) r = SsePayload p # sse_transcript ps r"
  "sse_transcript [] Eof = [SseDone]" "sse_transcript [] (Failed e) = [SseError interrupted, SseDone]"
  by (simp_all add: sse_transcript_def)

lemma detail_after_simps [simp]:
  "detail_after [] d = d"
  "detail_after ((t, m) # tms) d = detail_after tms (apply_meta m (set_first_token t d))"
  by (simp_all add: detail_after_def)

lemma audit_writes_simps [simp]:
  "audit_writes a [] = a" "audit_writes a (s # ss) = audit_writes (audit_write a s) ss"
  by (simp_all add: audit_writes_def)

lemma completion_loop_pull:
  assumes "pull recv ts s = (ps, Some r, s')"
  shows "\<exists>y'. completion_loop recv ts s y = Some y' \<and>
    wi_sent (ry_wire y') = wi_sent (ry_wire y) @ accepted_of (wi_room (ry_wire y)) (sse_transcript ps r) \<and>
    ry_audit y' = audit_writes (ry_audit y) (map (cm_audit \<circ> snd) (accepted_of (wi_room (ry_wire y)) ps)) \<and>
    (ry_outcome y = [] \<longrightarrow> ry_outcome y' = relay_outcome (has_room (wi_room (ry_wire y)) (length ps)) r) \<and>
    ry_detail y' =
      detail_end (has_room (wi_room (ry_wire y)) (length ps))
        (sd_run (ry_deadline y) (take (length ps) ts) (ts ! length ps)) r
      (detail_after (zip ts (map snd (accepted_of (wi_room (ry_wire y)) ps))) (ry_detail y))"
  using assms
proof (induction ts arbitrary: s ps y)
  case Nil
  then show ?case by simp
next
  case (Cons t ts)
  obtain s1 q where q: "recv t s = (s1, q)" by fastforce
  show ?case
  proof (cases q)
    case (Got p m)
    with q Cons.prems obtain ps' where ps: "ps = (p, m) # ps'" and more: "pull recv ts s1 = (ps', Some r, s')"
      by (auto simp: Let_def split: prod.splits)
    show ?thesis
    proof (cases "has_room (wi_room (ry_wire y)) (Suc 0)")
      case True
      let ?y = "y\<lparr>ry_deadline := sd_touch t (sd_tick t (ry_deadline y)),
        ry_wire := \<lparr>wi_sent = wi_sent (ry_wire y) @ [SsePayload p], wi_room = room_after (wi_room (ry_wire y)) (Suc 0)\<rparr>,
        ry_detail := apply_meta m (set_first_token t (ry_detail y)), ry_audit := audit_write (ry_audit y) (cm_audit m)\<rparr>"
      have "completion_loop recv (t # ts) s y = completion_loop recv ts s1 ?y"
        using q Got True by (simp add: put_eq Let_def)
      with Cons.IH [OF more, of ?y] True ps show ?thesis
        by (simp add: accepted_of_Cons has_room_after split del: if_split)
    next
      case False
      then have "wi_room (ry_wire y) = Some 0" by (auto simp: has_room_def split: option.splits)
      with q Got ps show ?thesis
        by (auto simp: put_eq has_room_def accepted_of_def relay_outcome_def
            detail_end_def Let_def split: recv.split)
    qed
  next
    case Eof
    with q Cons.prems have "ps = []" "r = Eof" by auto
    with q Eof show ?thesis
      by (cases "ry_wire y") (auto simp: end_completion_def put_eq room relay_outcome_def detail_end_def)
  next
    case (Failed e)
    with q Cons.prems have "ps = []" "r = Failed e" by auto
    with q Failed show ?thesis
      by (cases "ry_wire y") (auto simp: end_completion_def put_eq room relay_outcome_def detail_end_def Let_def)
  qed
qed

definition outcome_mark :: "string \<Rightarrow> string" where
  "outcome_mark out = (if out \<noteq> [] then CHR 0x0A # ''['' @ out @ '']'' else [])"

definition audited :: "int \<Rightarrow> ('p \<times> chunk_meta) list \<Rightarrow> string" where
  "audited limit ps = audit_string (audit_writes (audit_new limit) (map (cm_audit \<circ> snd) ps))"

text \<open>
  C10. Whatever the engine streams and whenever the client hangs up, the relay sends the payloads
  in order, then an error frame if the stream broke, then the terminator, cut where the client
  left; it audits exactly the payloads that reached the client, marks the way the stream ended,
  and records in the request's detail the metadata of those payloads, the outcome and, for a
  broken stream, why.
\<close>

theorem completion_relayed:
  fixes ps :: "('p \<times> chunk_meta) list"
  assumes "pull recv ts s = (ps, Some r, s')"
  shows "let seen = accepted_of room ps; whole = has_room room (length ps); out = relay_outcome whole r;
             dl = sd_run (new_stream_deadline now stream_idle stream_max) (take (length ps) ts) (ts ! length ps);
             d1 = detail_end whole dl r (detail_after (zip ts (map snd seen)) (set_streamed d))
         in stream_completion True recv (Inl s) gone limit room now ts d =
              Some (Streamed (accepted_of room (sse_transcript ps r)), Some (audited limit seen @ outcome_mark out),
                    if out \<noteq> [] then set_outcome out d1 else d1)"
  using completion_loop_pull [OF assms, of "new_relay now limit room d"]
  by (auto simp: stream_completion_def audit_response_def new_relay_def audited_def outcome_mark_def Let_def)

lemma completion_relayed_witness:
  "\<exists>detail. stream_completion True (passthrough_recv (\<lambda>_. None)) (Inl (new_passthrough_stream [''data: {}'', ''data: [DONE]''] None))
     False 100 (Some 1) 0 [1, 2] None =
   Some (Streamed [SsePayload ''{}''], Some [], detail)"
proof -
  have p: "pull (passthrough_recv (\<lambda>_. None)) [1, 2] (new_passthrough_stream [''data: {}'', ''data: [DONE]''] None) =
      ([(''{}'', no_meta)], Some Eof, \<lparr>ps_scanner = \<lparr>sc_lines = [], sc_err = None\<rparr>, ps_done = True\<rparr>)"
    by (simp add: passthrough_recv_def new_passthrough_stream_def scan_until_def data_payload_def go_strings
        max_stream_line_def meta_from_chunk_def Let_def)
  from completion_relayed [OF p, of "Some 1" 0 None False 100] show ?thesis
    by (simp add: accepted_of_def has_room_def relay_outcome_def audited_def outcome_mark_def no_meta_def audit_string_def
        audit_write_def audit_new_def trim_prefix_def has_prefix_def Let_def)
qed

subsection \<open>The same for Anthropic events\<close>

definition message_transcript ::
  "(string \<Rightarrow> stream_chunk option) \<Rightarrow> (nat \<Rightarrow> string) \<Rightarrow> string list \<Rightarrow> string recv \<Rightarrow> anthropic_stream \<Rightarrow> message_frame list" where
  "message_transcript decode rnd payloads r tr =
     (let (tr1, es) = chunks decode rnd payloads tr in
      map Event es @
      (case r of
         Failed _ \<Rightarrow> [ErrorEvent (anthropic_error 500 ''Stream interrupted'' ''api_error'')]
       | _ \<Rightarrow> map Event (snd (stream_end tr1))))"

text \<open>How many payloads had all their events accepted.\<close>

fun delivered ::
  "(string \<Rightarrow> stream_chunk option) \<Rightarrow> (nat \<Rightarrow> string) \<Rightarrow> nat option \<Rightarrow> string list \<Rightarrow> anthropic_stream \<Rightarrow> nat" where
  "delivered decode rnd room [] tr = 0"
| "delivered decode rnd room (p # payloads) tr =
     (let (tr1, es) = chunk decode rnd p tr in
      if has_room room (length es) then Suc (delivered decode rnd (room_after room (length es)) payloads tr1) else 0)"

definition message_detail_end :: "bool \<Rightarrow> stream_deadline \<Rightarrow> 'p recv \<Rightarrow> request_detail option \<Rightarrow> request_detail option" where
  "message_detail_end whole dl r d =
     (if \<not> whole then set_outcome ''client disconnected'' d
      else case r of
        Failed e \<Rightarrow> set_upstream_err (Some (why_failed e dl)) (set_outcome ''stream interrupted'' d)
      | _ \<Rightarrow> d)"

lemma message_transcript_simps [simp]:
  "message_transcript decode rnd (p # payloads) r tr =
     map Event (snd (chunk decode rnd p tr)) @ message_transcript decode rnd payloads r (fst (chunk decode rnd p tr))"
  "message_transcript decode rnd [] Eof tr = map Event (snd (stream_end tr))"
  "message_transcript decode rnd [] (Failed e) tr =
     [ErrorEvent (anthropic_error 500 ''Stream interrupted'' ''api_error'')]"
  by (auto simp: message_transcript_def Let_def case_prod_beta split: recv.split)

lemma message_loop_pull:
  assumes "pull recv ts s = (ps, Some r, s')"
  shows "\<exists>y'. message_loop decode rnd recv ts s tr y = Some y' \<and>
    (let room = wi_room (ry_wire y); n = delivered decode rnd room (map fst ps) tr in
     wi_sent (ry_wire y') = wi_sent (ry_wire y) @ accepted_of room (message_transcript decode rnd (map fst ps) r tr) \<and>
     ry_audit y' = audit_writes (ry_audit y) (map (cm_audit \<circ> snd) (take n ps)) \<and>
     (ry_outcome y = [] \<longrightarrow> ry_outcome y' = relay_outcome (n = length ps) r) \<and>
     ry_detail y' =
       message_detail_end (n = length ps) (sd_run (ry_deadline y) (take (length ps) ts) (ts ! length ps)) r
         (detail_after (zip ts (map snd (take n ps))) (ry_detail y)))"
  using assms
proof (induction ts arbitrary: s ps tr y)
  case Nil
  then show ?case by simp
next
  case (Cons t ts)
  obtain s1 q where q: "recv t s = (s1, q)" by fastforce
  show ?case
  proof (cases q)
    case (Got p m)
    with q Cons.prems obtain ps' where ps: "ps = (p, m) # ps'" and more: "pull recv ts s1 = (ps', Some r, s')"
      by (auto simp: Let_def split: prod.splits)
    obtain tr1 es where c: "chunk decode rnd p tr = (tr1, es)" by fastforce
    let ?room = "wi_room (ry_wire y)"
    show ?thesis
    proof (cases "has_room ?room (length es)")
      case True
      let ?y = "y\<lparr>ry_deadline := sd_touch t (sd_tick t (ry_deadline y)),
        ry_wire := \<lparr>wi_sent = wi_sent (ry_wire y) @ map Event es, wi_room = room_after ?room (length es)\<rparr>,
        ry_detail := apply_meta m (set_first_token t (ry_detail y)), ry_audit := audit_write (ry_audit y) (cm_audit m)\<rparr>"
      have "message_loop decode rnd recv (t # ts) s tr y = message_loop decode rnd recv ts s1 tr1 ?y"
        using q Got c True by (simp add: put_all_eq accepted_of_all)
      with Cons.IH [OF more, of tr1 ?y] True ps c show ?thesis
        by (simp add: accepted_of_append accepted_of_all Let_def split del: if_split)
    next
      case False
      with q Got ps c show ?thesis
        by (auto simp: put_all_eq accepted_of_append accepted_of_none relay_outcome_def message_detail_end_def Let_def)
    qed
  next
    case Eof
    with q Cons.prems have "ps = []" "r = Eof" by auto
    with q Eof show ?thesis
      by (auto simp: put_all_eq relay_outcome_def message_detail_end_def Let_def)
  next
    case (Failed e)
    with q Cons.prems have "ps = []" "r = Failed e" by auto
    with q Failed show ?thesis
      by (auto simp: put_eq accepted_of_Cons relay_outcome_def message_detail_end_def Let_def)
  qed
qed

lemma chunks_delivered:
  "delivered decode rnd room payloads tr = length payloads \<longleftrightarrow>
   has_room room (length (snd (chunks decode rnd payloads tr)))"
proof (induction payloads arbitrary: room tr)
  case (Cons p payloads)
  obtain tr1 es where c: "chunk decode rnd p tr = (tr1, es)" by fastforce
  show ?case
  proof (cases "has_room room (length es)")
    case False
    then have "\<not> has_room room (length es + k)" for k
      by (auto simp: has_room_def split: option.splits)
    with False c show ?thesis by (simp add: Let_def case_prod_beta)
  qed (use c Cons in \<open>simp add: has_room_after Let_def case_prod_beta\<close>)
qed simp

text \<open>
  C11. On the Anthropic route the client receives a prefix of the events the translator makes of
  the engine's stream, an error event in place of the end of a broken one; the audit and the
  request's detail cover exactly the payloads all of whose events reached the client.
\<close>

theorem messages_relayed:
  assumes "pull recv ts s = (ps, Some r, s')" and "room \<noteq> Some 0"
  shows "let tr = new_anthropic_stream rnd k model; (tr0, start) = stream_start tr;
             n = delivered decode rnd (room_after room 1) (map fst ps) tr0; whole = (n = length ps);
             dl = sd_run (new_stream_deadline now stream_idle stream_max) (take (length ps) ts) (ts ! length ps)
         in stream_messages decode rnd k True recv (Inl s) gone limit room model now ts d =
              Some (Streamed (accepted_of room (Event start # message_transcript decode rnd (map fst ps) r tr0)),
                    Some (audited limit (take n ps) @ outcome_mark (relay_outcome whole r)),
                    message_detail_end whole dl r (detail_after (zip ts (map snd (take n ps))) (set_streamed d)))"
proof -
  obtain tr0 start where st: "stream_start (new_anthropic_stream rnd k model) = (tr0, start)" by fastforce
  have more: "has_room room (Suc 0)" using assms(2) by (cases room) (auto simp: has_room_def)
  let ?y = "(new_relay now limit room d)\<lparr>ry_wire := \<lparr>wi_sent = [Event start], wi_room = room_after room 1\<rparr>\<rparr>"
  obtain y' where "message_loop decode rnd recv ts s tr0 ?y = Some y'"
      and y': "let n = delivered decode rnd (room_after room 1) (map fst ps) tr0 in
     wi_sent (ry_wire y') = Event start # accepted_of (room_after room 1) (message_transcript decode rnd (map fst ps) r tr0) \<and>
     ry_audit y' = audit_writes (audit_new limit) (map (cm_audit \<circ> snd) (take n ps)) \<and>
     ry_outcome y' = relay_outcome (n = length ps) r \<and>
     ry_detail y' =
       message_detail_end (n = length ps)
         (sd_run (new_stream_deadline now stream_idle stream_max) (take (length ps) ts) (ts ! length ps)) r
         (detail_after (zip ts (map snd (take n ps))) (set_streamed d))"
    using message_loop_pull [OF assms(1), of decode rnd tr0 ?y] by (auto simp: new_relay_def Let_def)
  moreover have "put (Event start) (ry_wire (new_relay now limit room d)) =
      (\<lparr>wi_sent = [Event start], wi_room = room_after room 1\<rparr>, True)"
    using more by (simp add: new_relay_def put_eq)
  ultimately have "stream_messages decode rnd k True recv (Inl s) gone limit room model now ts d =
      Some (Streamed (wi_sent (ry_wire y')), Some (audit_response y'), ry_detail y')"
    using st by (simp add: stream_messages_def)
  with st y' more show ?thesis
    by (simp add: audit_response_def audited_def outcome_mark_def accepted_of_Cons Let_def)
qed

lemma messages_relayed_witness:
  "\<exists>fs detail. stream_messages (\<lambda>_. None) (\<lambda>_. []) 0 True (passthrough_recv (\<lambda>_. None))
     (Inl (new_passthrough_stream [''data: {}'', ''data: [DONE]''] None)) False 100 (Some 2) ''m'' 0 [1, 2] None =
   Some (Streamed fs, Some [], detail) \<and> length fs = 2"
proof -
  have p: "pull (passthrough_recv (\<lambda>_. None)) [1, 2] (new_passthrough_stream [''data: {}'', ''data: [DONE]''] None) =
      ([(''{}'', no_meta)], Some Eof, \<lparr>ps_scanner = \<lparr>sc_lines = [], sc_err = None\<rparr>, ps_done = True\<rparr>)"
    by (simp add: passthrough_recv_def new_passthrough_stream_def scan_until_def data_payload_def go_strings
        max_stream_line_def meta_from_chunk_def Let_def)
  from messages_relayed [OF p, where room = "Some 2" and rnd = "\<lambda>_. []" and k = 0 and model = "''m''" and
      decode = "\<lambda>_. None" and now = 0 and d = None and gone = False and limit = 100] show ?thesis
    by (simp add: stream_start_def new_anthropic_stream_def new_message_id_def chunk_def message_transcript_def
        stream_end_def close_block_def accepted_of_def room_after_def has_room_def relay_outcome_def audited_def
        outcome_mark_def no_meta_def audit_string_def audit_write_def audit_new_def trim_prefix_def has_prefix_def Let_def)
qed

text \<open>A stream that ends for a client that stays is the whole event sequence of the translator.\<close>

lemma message_transcript_whole:
  assumes "stream_start (new_anthropic_stream rnd k model) = (tr0, start)"
  shows "Event start # message_transcript decode rnd payloads Eof tr0 =
    map Event (stream_events decode rnd k model payloads)"
  using assms by (simp add: message_transcript_def stream_events_def Let_def case_prod_beta)

text \<open>
  A client that is gone before the first event is audited as disconnected, but unlike one that
  leaves later its request row carries no outcome.
\<close>

theorem start_disconnect_unrecorded:
  "stream_messages decode rnd k True recv (Inl s) gone limit (Some 0) model now ts d =
     Some (Streamed [], Some (CHR 0x0A # ''[client disconnected]''), set_streamed d)"
  by (simp add: stream_messages_def stream_start_def new_relay_def put_def audit_response_def audit_string_def
      audit_new_def trim_prefix_def has_prefix_def Let_def)

subsection \<open>Every relay ends\<close>

lemma completion_returns:
  "pull recv ts s = (ps, Some r, s') \<Longrightarrow> stream_completion True recv (Inl s) gone limit room now ts d \<noteq> None"
  using completion_loop_pull [of recv ts s ps r s' "new_relay now limit room d"]
  by (auto simp: stream_completion_def)

lemma messages_return:
  "pull recv ts s = (ps, Some r, s') \<Longrightarrow>
   stream_messages decode rnd k True recv (Inl s) gone limit room model now ts d \<noteq> None"
  using message_loop_pull [of recv ts s ps r s' decode rnd "fst (stream_start (new_anthropic_stream rnd k model))"
      "(new_relay now limit room d)\<lparr>ry_wire := fst (put (Event (snd (stream_start (new_anthropic_stream rnd k model))))
         (ry_wire (new_relay now limit room d)))\<rparr>"]
  by (auto simp: stream_messages_def Let_def case_prod_beta)

lemma ollama_pull_ends:
  "length ls < length ts \<Longrightarrow>
   \<exists>ps r s'. pull (ollama_recv unmarshal marshal (\<lambda>c. Some (enc c)) rnd) ts (new_ollama_stream rnd k ls e) = (ps, Some r, s')"
  using ol.pull_ends [of "new_ollama_stream rnd k ls e" ts unmarshal marshal enc rnd]
  by (fastforce simp: new_ollama_stream_def new_completion_id_def)

lemma passthrough_pull_ends:
  "length ls < length ts \<Longrightarrow>
   \<exists>ps r s'. pull (passthrough_recv audit_decode) ts (new_passthrough_stream ls e) = (ps, Some r, s')"
  using pt.pull_ends [of "new_passthrough_stream ls e" ts audit_decode]
  by (fastforce simp: new_passthrough_stream_def)

lemma passthrough_completion_returns:
  "length ls < length ts \<Longrightarrow>
   stream_completion True (passthrough_recv audit_decode) (Inl (new_passthrough_stream ls e)) gone limit room now ts d \<noteq> None"
  using passthrough_pull_ends [of ls ts audit_decode e] completion_returns by metis

lemma ollama_completion_returns:
  "length ls < length ts \<Longrightarrow>
   stream_completion True (ollama_recv unmarshal marshal (\<lambda>c. Some (enc c)) rnd)
     (Inl (new_ollama_stream rnd k ls e)) gone limit room now ts d \<noteq> None"
  using ollama_pull_ends [of ls ts unmarshal marshal enc rnd k e] completion_returns by metis

lemma passthrough_messages_return:
  "length ls < length ts \<Longrightarrow>
   stream_messages decode rnd k True (passthrough_recv audit_decode) (Inl (new_passthrough_stream ls e))
     gone limit room model now ts d \<noteq> None"
  using passthrough_pull_ends [of ls ts audit_decode e] messages_return by metis

lemma ollama_messages_return:
  "length ls < length ts \<Longrightarrow>
   stream_messages decode rnd k True (ollama_recv unmarshal marshal (\<lambda>c. Some (enc c)) rnd)
     (Inl (new_ollama_stream rnd k ls e)) gone limit room model now ts d \<noteq> None"
  using ollama_pull_ends [of ls ts unmarshal marshal enc rnd k e] messages_return by metis

end
