(* ===== verification/Probe_Cache.thy ===== *)
theory Probe_Cache
  imports Engine_Config
begin

section \<open>engine.go: the probe cache\<close>

text \<open>
  One entry per engine id: what the last finished probe yielded, when that expires, and the
  channel of a refresh in flight (here a token). An expiry of 0 is Go's zero time: no probe has
  finished yet. \<open>pc_gen\<close> is \<open>probeGen\<close>: a refresh records it when it starts and stores only
  if it has not moved. The locale \<open>gen_guard\<close> is that discipline for any guarded store.
\<close>

subsection \<open>Probing an engine\<close>

record model_detail =
  md_name :: string
  md_size :: string

record probe_data =
  pd_status :: bool
  pd_models :: "string list"
  pd_details :: "model_detail list"
  pd_raw :: "obj list"

definition no_probe :: probe_data where
  "no_probe = \<lparr>pd_status = False, pd_models = [], pd_details = [], pd_raw = []\<rparr>"

definition model_name :: "obj \<Rightarrow> string" where
  "model_name m =
     (let n = as_str (idx m ''name'') in if n \<noteq> [] then n else as_str (idx m ''id''))"

text \<open>
  The size shown for a model: \<open>gb\<close> is \<open>fmt.Sprintf("%.1f GB", x/1e9)\<close>, a rounding of the
  standard library. Sizes are compared as the decimal they were sent as.
\<close>

definition num_ge :: "int \<Rightarrow> int \<Rightarrow> int \<Rightarrow> bool" where
  "num_ge m e k = (if 0 \<le> e then k \<le> m * 10 ^ nat e else k * 10 ^ nat (- e) \<le> m)"

definition size_text :: "(int \<Rightarrow> int \<Rightarrow> string) \<Rightarrow> json \<Rightarrow> string" where
  "size_text gb v =
     (case v of
        JNum m e \<Rightarrow>
          if num_ge m e 1000000000 then gb m e
          else if 0 < m then itoa (go_div (float_to_int m e) 1000000) @ '' MB''
          else []
      | _ \<Rightarrow> [])"

text \<open>\<open>status\<close> and \<open>list\<close> are what the adapter's calls return; \<open>None\<close> is an error.\<close>

definition probe_engine_full ::
  "(int \<Rightarrow> int \<Rightarrow> string) \<Rightarrow> bool option \<Rightarrow> obj list option \<Rightarrow> probe_data" where
  "probe_engine_full gb status list =
     (if status \<noteq> Some True then no_probe
      else case list of
        None \<Rightarrow> no_probe\<lparr>pd_status := True\<rparr>
      | Some models \<Rightarrow>
          let named = filter (\<lambda>m. model_name m \<noteq> []) models in
          \<lparr>pd_status = True, pd_models = map model_name named,
           pd_details = map (\<lambda>m. \<lparr>md_name = model_name m, md_size = size_text gb (idx m ''size'')\<rparr>) named,
           pd_raw = models\<rparr>)"

subsection \<open>The cache\<close>

record probe_entry =
  pe_data :: probe_data
  pe_expiry :: int
  pe_inflight :: "nat option"

record probe_cache =
  pc_entries :: "int \<rightharpoonup> probe_entry"
  pc_gen :: nat

definition probe_cache_ttl :: int where "probe_cache_ttl = 10 * ns_second"

definition empty_cache :: probe_cache where
  "empty_cache = \<lparr>pc_entries = Map.empty, pc_gen = 0\<rparr>"

text \<open>
  One turn of the loop of \<open>probeEngineCached\<close>, under the lock: wait for another caller's
  refresh, answer from the cache, or publish an own refresh under the fresh token \<open>tok\<close>.
\<close>

datatype probe_turn = Wait nat | Hit probe_data | Own nat nat

definition probe_engine_cached :: "int \<Rightarrow> nat \<Rightarrow> int \<Rightarrow> probe_cache \<Rightarrow> probe_turn \<times> probe_cache" where
  "probe_engine_cached now tok i c =
     (case pc_entries c i of
        Some e \<Rightarrow>
          (case pe_inflight e of
             Some t \<Rightarrow> (Wait t, c)
           | None \<Rightarrow>
               if now < pe_expiry e then (Hit (pe_data e), c)
               else (Own tok (pc_gen c), c\<lparr>pc_entries := (pc_entries c)(i \<mapsto> e\<lparr>pe_inflight := Some tok\<rparr>)\<rparr>))
      | None \<Rightarrow>
          (Own tok (pc_gen c),
           c\<lparr>pc_entries := (pc_entries c)(i \<mapsto> \<lparr>pe_data = no_probe, pe_expiry = 0, pe_inflight = Some tok\<rparr>)\<rparr>))"

text \<open>The end of \<open>refreshProbe\<close>: \<open>None\<close> for a probe that panicked.\<close>

definition refresh_probe ::
  "int \<Rightarrow> nat \<Rightarrow> int \<Rightarrow> probe_data option \<Rightarrow> probe_cache \<Rightarrow> probe_cache" where
  "refresh_probe now g i result c =
     (if pc_gen c \<noteq> g then c
      else case result of
        None \<Rightarrow> c\<lparr>pc_entries := (pc_entries c)(i := None)\<rparr>
      | Some d \<Rightarrow>
          c\<lparr>pc_entries := (pc_entries c)(i \<mapsto> \<lparr>pe_data = d, pe_expiry = now + probe_cache_ttl, pe_inflight = None\<rparr>)\<rparr>)"

definition invalidate_probe_cache :: "probe_cache \<Rightarrow> probe_cache" where
  "invalidate_probe_cache c = \<lparr>pc_entries = Map.empty, pc_gen = Suc (pc_gen c)\<rparr>"

subsection \<open>Readers that never wait\<close>

definition peek_probe_data :: "int \<Rightarrow> int \<Rightarrow> probe_cache \<Rightarrow> probe_data option \<times> bool" where
  "peek_probe_data now i c =
     (case pc_entries c i of
        None \<Rightarrow> (None, True)
      | Some e \<Rightarrow>
          if pe_expiry e = 0 then (None, pe_inflight e = None)
          else (Some (pe_data e), pe_inflight e = None \<and> pe_expiry e \<le> now))"

definition peek_probe_state :: "int \<Rightarrow> int \<Rightarrow> probe_cache \<Rightarrow> string \<times> bool" where
  "peek_probe_state now i c =
     (case pc_entries c i of
        None \<Rightarrow> (''unknown'', True)
      | Some e \<Rightarrow>
          if pe_expiry e = 0 then (''unknown'', pe_inflight e = None)
          else (if pd_status (pe_data e) then ''online'' else ''offline'',
                pe_inflight e = None \<and> pe_expiry e \<le> now))"

record nav_engine =
  ne_name :: string
  ne_state :: string

definition nav_engines :: "int \<Rightarrow> engine_store \<Rightarrow> probe_cache \<Rightarrow> nav_engine list \<times> bool" where
  "nav_engines now st c =
     (map (\<lambda>e. \<lparr>ne_name = ec_name e, ne_state = fst (peek_probe_state now (ec_id e) c)\<rparr>) (cached_engines st),
      list_ex (\<lambda>e. snd (peek_probe_state now (ec_id e) c)) (cached_engines st))"

definition cached_probe_snapshot :: "int \<Rightarrow> engine_store \<Rightarrow> probe_cache \<Rightarrow> (int \<rightharpoonup> probe_data) \<times> bool" where
  "cached_probe_snapshot now st c =
     (foldl (\<lambda>m e. case fst (peek_probe_data now (ec_id e) c) of None \<Rightarrow> m | Some d \<Rightarrow> m(ec_id e \<mapsto> d))
        Map.empty (cached_engines st),
      list_ex (\<lambda>e. snd (peek_probe_data now (ec_id e) c)) (cached_engines st))"

text \<open>
  \<open>warmProbeCache\<close>: which engines it starts a probe for, those with an adapter; each goes
  through \<open>probe_engine_cached\<close>.
\<close>

definition warm_targets :: "engine_store \<Rightarrow> int list" where
  "warm_targets st = filter (\<lambda>i. cached_adapter st i \<noteq> None) (map ec_id (cached_engines st))"

subsection \<open>A store guarded by a generation counter\<close>

text \<open>
  The world has a version, which every change of an engine moves on; an invalidation follows
  the change. A refresh starts at some generation and reads the world at any moment before it
  stores. \<open>view k w\<close> is what a refresh of \<open>k\<close> reads in version \<open>w\<close>.
\<close>

record 'k refresh =
  rf_key :: 'k
  rf_gen :: nat
  rf_since :: nat \<comment> \<open>the version when it started\<close>

record ('k, 's) guarded =
  gd_world :: nat
  gd_clean :: nat \<comment> \<open>the version at the last invalidation\<close>
  gd_store :: 's
  gd_running :: "'k refresh list"

inductive guarded_step ::
  "('s \<Rightarrow> nat) \<Rightarrow> ('s \<Rightarrow> 's) \<Rightarrow> ('x \<Rightarrow> 'k \<Rightarrow> 's \<Rightarrow> 's) \<Rightarrow> ('x \<Rightarrow> nat \<Rightarrow> 'k \<Rightarrow> 'v option \<Rightarrow> 's \<Rightarrow> 's) \<Rightarrow>
   ('k \<Rightarrow> nat \<Rightarrow> 'v) \<Rightarrow> ('k, 's) guarded \<Rightarrow> ('k, 's) guarded \<Rightarrow> bool"
  for gen invalidate mark store view where
  change: "guarded_step gen invalidate mark store view g (g\<lparr>gd_world := Suc (gd_world g)\<rparr>)"
| invalidated: "guarded_step gen invalidate mark store view g
    (g\<lparr>gd_store := invalidate (gd_store g), gd_clean := gd_world g\<rparr>)"
| start: "guarded_step gen invalidate mark store view g
    (g\<lparr>gd_store := mark x k (gd_store g),
       gd_running := \<lparr>rf_key = k, rf_gen = gen (gd_store g), rf_since = gd_world g\<rparr> # gd_running g\<rparr>)"
| finish: "r \<in> set (gd_running g) \<Longrightarrow> rf_since r \<le> w \<Longrightarrow> w \<le> gd_world g \<Longrightarrow>
    guarded_step gen invalidate mark store view g
      (g\<lparr>gd_store := store x (rf_gen r) (rf_key r) (Some (view (rf_key r) w)) (gd_store g),
         gd_running := remove1 r (gd_running g)\<rparr>)"
| crash: "r \<in> set (gd_running g) \<Longrightarrow>
    guarded_step gen invalidate mark store view g
      (g\<lparr>gd_store := store x (rf_gen r) (rf_key r) None (gd_store g),
         gd_running := remove1 r (gd_running g)\<rparr>)"

locale gen_guard =
  fixes gen :: "'s \<Rightarrow> nat" and invalidate :: "'s \<Rightarrow> 's" and mark :: "'x \<Rightarrow> 'k \<Rightarrow> 's \<Rightarrow> 's"
    and store :: "'x \<Rightarrow> nat \<Rightarrow> 'k \<Rightarrow> 'v option \<Rightarrow> 's \<Rightarrow> 's" and held :: "'s \<Rightarrow> 'k \<Rightarrow> 'v option"
  assumes gen_invalidate: "gen (invalidate s) = Suc (gen s)"
    and held_invalidate: "held (invalidate s) k = None"
    and gen_mark: "gen (mark x k s) = gen s"
    and held_mark: "held (mark x k s) k' = held s k'"
    and gen_store: "gen (store x g k res s) = gen s"
    and store_current: "held (store x (gen s) k (Some v) s) k' = (if k' = k then Some v else held s k')"
    and store_crash: "held (store x g k None s) k' = Some u \<Longrightarrow> held s k' = Some u"
    and store_stale: "g \<noteq> gen s \<Longrightarrow> held (store x g k res s) k' = held s k'"
begin

definition guard_inv :: "('k \<Rightarrow> nat \<Rightarrow> 'v) \<Rightarrow> ('k, 's) guarded \<Rightarrow> bool" where
  "guard_inv view g \<longleftrightarrow>
     gd_clean g \<le> gd_world g \<and>
     (\<forall>r \<in> set (gd_running g). rf_gen r \<le> gen (gd_store g) \<and> rf_since r \<le> gd_world g \<and>
        (rf_gen r = gen (gd_store g) \<longrightarrow> gd_clean g \<le> rf_since r)) \<and>
     (\<forall>k v. held (gd_store g) k = Some v \<longrightarrow> (\<exists>w. gd_clean g \<le> w \<and> w \<le> gd_world g \<and> v = view k w))"

lemma step_inv:
  assumes "guarded_step gen invalidate mark store view g g'" and "guard_inv view g"
  shows "guard_inv view g'"
  using assms(1)
proof cases
  case change
  then show ?thesis using assms(2) by (fastforce simp: guard_inv_def intro: le_SucI)
next
  case invalidated
  then show ?thesis using assms(2)
    by (auto simp: guard_inv_def gen_invalidate held_invalidate intro: le_SucI)
next
  case (start x k)
  then show ?thesis using assms(2) by (auto simp: guard_inv_def gen_mark held_mark)
next
  case (finish r w x)
  have r: "rf_gen r = gen (gd_store g) \<Longrightarrow> gd_clean g \<le> w"
    using finish assms(2) by (auto simp: guard_inv_def intro: order_trans)
  have "\<exists>w. gd_clean g \<le> w \<and> w \<le> gd_world g \<and> v = view k w"
    if "held (store x (rf_gen r) (rf_key r) (Some (view (rf_key r) w)) (gd_store g)) k = Some v" for k v
  proof (cases "rf_gen r = gen (gd_store g)")
    case True
    with that r finish(4) assms(2) show ?thesis
      by (auto simp: guard_inv_def store_current split: if_splits)
  next
    case False
    with that assms(2) show ?thesis by (auto simp: guard_inv_def store_stale)
  qed
  moreover have "set (remove1 r (gd_running g)) \<subseteq> set (gd_running g)" by (rule set_remove1_subset)
  ultimately show ?thesis using finish assms(2) by (auto simp: guard_inv_def gen_store)
next
  case (crash r x)
  have "set (remove1 r (gd_running g)) \<subseteq> set (gd_running g)" by (rule set_remove1_subset)
  with crash assms(2) show ?thesis by (auto simp: guard_inv_def gen_store dest: store_crash)
qed

lemma reachable_inv:
  "(guarded_step gen invalidate mark store view)\<^sup>*\<^sup>* g g' \<Longrightarrow> guard_inv view g \<Longrightarrow> guard_inv view g'"
  by (induction rule: rtranclp_induct) (auto intro: step_inv)

lemma never_older_than_invalidation:
  assumes "(guarded_step gen invalidate mark store view)\<^sup>*\<^sup>* g g'"
    and "gd_clean g \<le> gd_world g" and "gd_running g = []" and "\<And>k. held (gd_store g) k = None"
    and "held (gd_store g') k = Some v"
  shows "\<exists>w. gd_clean g' \<le> w \<and> w \<le> gd_world g' \<and> v = view k w"
  using reachable_inv [OF assms(1)] assms(2-5) by (auto simp: guard_inv_def)

end

subsection \<open>The probe cache is such a store\<close>

text \<open>What a reader of the cache can see for an engine; times are not negative.\<close>

definition probe_held :: "probe_cache \<Rightarrow> int \<Rightarrow> probe_data option" where
  "probe_held c i = (case pc_entries c i of None \<Rightarrow> None | Some e \<Rightarrow> if pe_expiry e = 0 then None else Some (pe_data e))"

definition probe_mark :: "nat \<times> nat \<Rightarrow> int \<Rightarrow> probe_cache \<Rightarrow> probe_cache" where
  "probe_mark x i c = snd (probe_engine_cached (int (fst x)) (snd x) i c)"

definition probe_store :: "nat \<times> nat \<Rightarrow> nat \<Rightarrow> int \<Rightarrow> probe_data option \<Rightarrow> probe_cache \<Rightarrow> probe_cache" where
  "probe_store x g i d c = refresh_probe (int (fst x)) g i d c"

lemma probe_held_peek: "probe_held c i = fst (peek_probe_data now i c)"
  by (simp add: probe_held_def peek_probe_data_def split: option.split)

lemma ttl_pos [simp]: "int n + probe_cache_ttl \<noteq> 0"
  by (simp add: probe_cache_ttl_def ns_second_def)

interpretation pg: gen_guard pc_gen invalidate_probe_cache probe_mark probe_store probe_held
proof (unfold_locales, goal_cases)
  case (4 x k s k')
  show ?case
    by (auto simp: probe_mark_def probe_engine_cached_def probe_held_def split: option.split)
qed (auto simp: invalidate_probe_cache_def probe_held_def probe_mark_def probe_store_def refresh_probe_def
    probe_engine_cached_def split: option.splits if_splits)

text \<open>
  C15. A reader of the probe cache never sees a probe that read an engine before the last
  invalidation, however refreshes, panics, changes and invalidations interleave: every
  visible result is what its engine answered at some moment since the last invalidation.
\<close>

theorem probe_cache_fresh:
  assumes "(guarded_step pc_gen invalidate_probe_cache probe_mark probe_store view)\<^sup>*\<^sup>*
      \<lparr>gd_world = 0, gd_clean = 0, gd_store = empty_cache, gd_running = []\<rparr> g"
    and "fst (peek_probe_data now i (gd_store g)) = Some d"
  shows "\<exists>w. gd_clean g \<le> w \<and> w \<le> gd_world g \<and> d = view i w"
  using pg.never_older_than_invalidation [OF assms(1)] assms(2)
  by (simp add: probe_held_peek [of _ _ now, symmetric] empty_cache_def probe_held_def)

text \<open>A probe started before a pull, finishing after its invalidation, is not stored.\<close>

lemma probe_cache_fresh_witness:
  defines "view \<equiv> \<lambda>(i::int) w. no_probe\<lparr>pd_status := (w = 0)\<rparr>"
  shows "fst (peek_probe_data 5 1 (refresh_probe 4 0 1 (Some (view 1 0)) empty_cache)) = Some (view 1 0) \<and>
    (\<exists>w. view 1 0 = view 1 w \<and> (0::nat) \<le> w \<and> w \<le> 0)"
proof -
  let ?g = "\<lparr>gd_world = 0, gd_clean = 0, gd_store = empty_cache, gd_running = [] :: int refresh list\<rparr>"
  let ?r = "\<lparr>rf_key = 1::int, rf_gen = 0, rf_since = 0\<rparr>"
  let ?g1 = "\<lparr>gd_world = 0, gd_clean = 0, gd_store = probe_mark (3, 0) 1 empty_cache, gd_running = [?r]\<rparr>"
  let ?g2 = "\<lparr>gd_world = 0, gd_clean = 0,
     gd_store = probe_store (4, 0) 0 1 (Some (view 1 0)) (probe_mark (3, 0) 1 empty_cache), gd_running = []\<rparr>"
  have "guarded_step pc_gen invalidate_probe_cache probe_mark probe_store view ?g ?g1"
    using guarded_step.start [where gen = pc_gen and invalidate = invalidate_probe_cache and mark = probe_mark and
        store = probe_store and view = view and g = ?g and x = "(3, 0)" and k = 1]
    by (simp add: empty_cache_def)
  moreover have "guarded_step pc_gen invalidate_probe_cache probe_mark probe_store view ?g1 ?g2"
    using guarded_step.finish [where r = ?r and g = ?g1 and w = 0 and gen = pc_gen and
        invalidate = invalidate_probe_cache and mark = probe_mark and store = probe_store and
        view = view and x = "(4, 0)"]
    by simp
  ultimately have run: "(guarded_step pc_gen invalidate_probe_cache probe_mark probe_store view)\<^sup>*\<^sup>* ?g ?g2"
    by (meson converse_rtranclp_into_rtranclp r_into_rtranclp)
  have "fst (peek_probe_data 5 1 (gd_store ?g2)) = Some (view 1 0)"
    by (simp add: peek_probe_data_def probe_store_def probe_mark_def probe_engine_cached_def refresh_probe_def
        empty_cache_def probe_cache_ttl_def ns_second_def)
  with probe_cache_fresh [OF run this]
  show ?thesis
    by (simp add: peek_probe_data_def refresh_probe_def empty_cache_def probe_cache_ttl_def ns_second_def)
qed

subsection \<open>Concurrent callers share one probe\<close>

text \<open>The refreshes running, each with its engine and the generation it was published under.\<close>

inductive probe_step :: "probe_cache \<times> (int \<times> nat) list \<Rightarrow> probe_cache \<times> (int \<times> nat) list \<Rightarrow> bool" where
  own: "probe_engine_cached now tok i c = (Own t g, c') \<Longrightarrow> probe_step (c, rs) (c', (i, g) # rs)"
| finished: "(i, g) \<in> set rs \<Longrightarrow> probe_step (c, rs) (refresh_probe now g i res c, remove1 (i, g) rs)"
| dropped: "probe_step (c, rs) (invalidate_probe_cache c, rs)"

inductive_cases probe_stepE: "probe_step (c, rs) y"

definition marked :: "probe_cache \<Rightarrow> int \<Rightarrow> bool" where
  "marked c i \<longleftrightarrow> (case pc_entries c i of None \<Rightarrow> False | Some e \<Rightarrow> pe_inflight e \<noteq> None)"

definition one_refresh :: "probe_cache \<Rightarrow> (int \<times> nat) list \<Rightarrow> bool" where
  "one_refresh c rs \<longleftrightarrow>
     (\<forall>x \<in> set rs. snd x \<le> pc_gen c) \<and> (\<forall>i. count_list rs (i, pc_gen c) = (if marked c i then 1 else 0))"

lemma count_list_remove1:
  "count_list (remove1 x rs) y = (if x = y then count_list rs y - 1 else count_list rs y)"
  by (induction rs) (auto simp: neq_Nil_conv dest: count_notin)

lemma own_marks:
  assumes "probe_engine_cached now tok i c = (Own t g, c')"
  shows "g = pc_gen c \<and> \<not> marked c i \<and> pc_gen c' = pc_gen c \<and> (\<forall>j. marked c' j = (j = i \<or> marked c j))"
  using assms by (auto simp: probe_engine_cached_def marked_def split: option.splits if_splits)

lemma refresh_marks:
  "pc_gen (refresh_probe now g i res c) = pc_gen c \<and>
   (\<forall>j. marked (refresh_probe now g i res c) j = (marked c j \<and> \<not> (g = pc_gen c \<and> j = i)))"
  by (auto simp: refresh_probe_def marked_def split: option.split)

lemma one_refresh_step:
  assumes "probe_step (c, rs) (c', rs')" and "one_refresh c rs"
  shows "one_refresh c' rs'"
  using assms(1)
proof (rule probe_stepE)
  fix now tok i t g c1
  assume "(c', rs') = (c1, (i, g) # rs)" "probe_engine_cached now tok i c = (Own t g, c1)"
  with own_marks [of now tok i c t g c1] assms(2) show ?thesis by (auto simp: one_refresh_def)
next
  fix i g now res
  assume step: "(c', rs') = (refresh_probe now g i res c, remove1 (i, g) rs)" "(i, g) \<in> set rs"
  have "set (remove1 (i, g) rs) \<subseteq> set rs" by (rule set_remove1_subset)
  with step refresh_marks [of now g i res c] assms(2) show ?thesis
    by (auto simp: one_refresh_def count_list_remove1)
next
  assume step: "(c', rs') = (invalidate_probe_cache c, rs)"
  have "count_list rs (i, Suc (pc_gen c)) = 0" for i
    using assms(2) by (intro count_notin) (auto simp: one_refresh_def)
  with step assms(2) show ?thesis
    by (auto simp: one_refresh_def invalidate_probe_cache_def marked_def intro: le_SucI)
qed

text \<open>
  However callers, panics and invalidations interleave, at most one refresh per engine
  runs in the current generation, and a caller who would start a second one waits instead.
\<close>

theorem one_probe_per_engine:
  assumes "probe_step\<^sup>*\<^sup>* (empty_cache, []) (c, rs)"
  shows "count_list rs (i, pc_gen c) \<le> 1 \<and>
    ((i, pc_gen c) \<in> set rs \<longrightarrow> (\<exists>t. probe_engine_cached now tok i c = (Wait t, c)))"
proof -
  have inv: "one_refresh c rs"
    using assms
  proof (induction "(c, rs)" arbitrary: c rs rule: rtranclp_induct)
    case base
    show ?case by (simp add: one_refresh_def empty_cache_def marked_def)
  next
    case (step y)
    obtain c1 rs1 where "y = (c1, rs1)" by fastforce
    with step one_refresh_step show ?case by blast
  qed
  then have le: "count_list rs (i, pc_gen c) \<le> 1" by (simp add: one_refresh_def)
  have "marked c i" if "(i, pc_gen c) \<in> set rs"
  proof -
    from that have "count_list rs (i, pc_gen c) \<noteq> 0" by (simp add: count_list_0_iff)
    with inv show ?thesis by (auto simp: one_refresh_def split: if_splits)
  qed
  with le show ?thesis by (auto simp: marked_def probe_engine_cached_def split: option.splits)
qed

lemma one_probe_per_engine_witness:
  "\<exists>t. probe_engine_cached 9 1 7 (snd (probe_engine_cached 3 0 7 empty_cache)) =
     (Wait t, snd (probe_engine_cached 3 0 7 empty_cache))"
proof -
  let ?c = "snd (probe_engine_cached 3 0 7 empty_cache)"
  have own: "probe_engine_cached 3 0 7 empty_cache = (Own 0 0, ?c)" and g: "pc_gen ?c = 0"
    by (simp_all add: probe_engine_cached_def empty_cache_def)
  from own have "probe_step (empty_cache, []) (?c, [(7, 0)])" by (rule probe_step.own)
  then have "probe_step\<^sup>*\<^sup>* (empty_cache, []) (?c, [(7, 0)])" by simp
  from one_probe_per_engine [OF this, of 7 9 1] g show ?thesis by simp
qed

text \<open>The sidebar shows every engine, in order, and \<open>offline\<close> only after a probe that said so.\<close>

lemma nav_engines_states:
  "list_all2 (\<lambda>e n. ne_name n = ec_name e \<and>
     (ne_state n = ''offline'' \<longleftrightarrow> (\<exists>d. probe_held c (ec_id e) = Some d \<and> \<not> pd_status d)) \<and>
     (ne_state n = ''online'' \<longleftrightarrow> (\<exists>d. probe_held c (ec_id e) = Some d \<and> pd_status d)))
   (cached_engines st) (fst (nav_engines now st c))"
  by (auto simp: nav_engines_def list_all2_conv_all_nth peek_probe_state_def probe_held_def split: option.split)

end
