(* ===== verification/Routing.thy ===== *)
theory Routing
  imports Probe_Cache
begin

section \<open>routing.go: which engine serves a model\<close>

text \<open>
  The index maps a model name to the ids of the engines that reported it. It is built from one
  probe per engine: the list of arrivals holds the probes that came in before the build's
  deadline, in the order their goroutines took the lock. What other requests do while a
  synchronous build runs is the argument \<open>env\<close>. A published index is a pointer: probes that
  arrive after the deadline still write to it (\<open>late_arrivals\<close>).
\<close>

record route_index =
  ri_by_model :: "string \<rightharpoonup> int list"
  ri_built :: int
  ri_probed :: bool

record route_state =
  rs_index :: "route_index option"
  rs_gen :: nat
  rs_refreshing :: bool

definition route_index_ttl :: int where "route_index_ttl = 60 * ns_second"

subsection \<open>Building and publishing\<close>

definition ids_for :: "route_index \<Rightarrow> string \<Rightarrow> int list" where
  "ids_for ix model = (case ri_by_model ix model of None \<Rightarrow> [] | Some ids \<Rightarrow> ids)"

definition add_model :: "int \<Rightarrow> (string \<rightharpoonup> int list) \<Rightarrow> string \<Rightarrow> (string \<rightharpoonup> int list)" where
  "add_model i m name = m(name \<mapsto> (case m name of None \<Rightarrow> [] | Some ids \<Rightarrow> ids) @ [i])"

definition route_add :: "route_index \<Rightarrow> int \<times> probe_data \<Rightarrow> route_index" where
  "route_add ix arrival =
     (let (i, pd) = arrival in
      if \<not> pd_status pd then ix
      else ix\<lparr>ri_probed := True, ri_by_model := foldl (add_model i) (ri_by_model ix) (pd_models pd)\<rparr>)"

definition build_route_index :: "int \<Rightarrow> (int \<times> probe_data) list \<Rightarrow> route_index" where
  "build_route_index now arrivals =
     (let ix = foldl route_add \<lparr>ri_by_model = Map.empty, ri_built = now, ri_probed = False\<rparr> arrivals
      in ix\<lparr>ri_by_model := (\<lambda>name. map_option sort (ri_by_model ix name))\<rparr>)"

definition late_arrivals :: "(int \<times> probe_data) list \<Rightarrow> route_index \<Rightarrow> route_index" where
  "late_arrivals arrivals ix = foldl route_add ix arrivals"

definition store_route_index :: "route_index \<Rightarrow> nat \<Rightarrow> route_state \<Rightarrow> route_state" where
  "store_route_index ix g s = (if rs_gen s = g then s\<lparr>rs_index := Some ix\<rparr> else s)"

definition rebuild_route_index ::
  "(route_state \<Rightarrow> route_state) \<Rightarrow> int \<Rightarrow> (int \<times> probe_data) list \<Rightarrow> route_state \<Rightarrow>
   route_index \<times> route_state" where
  "rebuild_route_index env now arrivals s =
     (let g = rs_gen s; s1 = env s; ix = build_route_index now arrivals
      in (ix, store_route_index ix g s1))"

text \<open>The goroutine a refresh starts is an event of its own; here only the flag is set.\<close>

definition refresh_route_index_async :: "route_state \<Rightarrow> route_state" where
  "refresh_route_index_async s = (if rs_refreshing s then s else s\<lparr>rs_refreshing := True\<rparr>)"

definition current_route_index ::
  "(route_state \<Rightarrow> route_state) \<Rightarrow> int \<Rightarrow> (int \<times> probe_data) list \<Rightarrow> route_state \<Rightarrow>
   route_index \<times> route_state" where
  "current_route_index env now arrivals s =
     (case rs_index s of
        None \<Rightarrow> rebuild_route_index env now arrivals s
      | Some ix \<Rightarrow>
          (ix, if route_index_ttl < now - ri_built ix then refresh_route_index_async s else s))"

definition invalidate_route_index :: "route_state \<Rightarrow> route_state" where
  "invalidate_route_index s =
     s\<lparr>rs_gen := Suc (rs_gen s),
       rs_index := map_option (\<lambda>ix. ix\<lparr>ri_built := 0\<rparr>) (rs_index s)\<rparr>"

definition on_engines_changed :: "probe_cache \<times> route_state \<Rightarrow> probe_cache \<times> route_state" where
  "on_engines_changed cs =
     (invalidate_probe_cache (fst cs), refresh_route_index_async (invalidate_route_index (snd cs)))"

subsection \<open>Selecting an engine\<close>

datatype route_result = Routed adapter | NoEngines | ModelNotFound

definition default_engine :: "engine_store \<Rightarrow> adapter option" where
  "default_engine st =
     (case cached_adapters_by_type st engine_ollama of
        a # _ \<Rightarrow> Some a
      | [] \<Rightarrow> (case cached_engines st of [] \<Rightarrow> None | e # _ \<Rightarrow> cached_adapter st (ec_id e)))"

definition routed_default :: "engine_store \<Rightarrow> route_result" where
  "routed_default st = (case default_engine st of None \<Rightarrow> NoEngines | Some a \<Rightarrow> Routed a)"

definition first_adapter :: "engine_store \<Rightarrow> int list \<Rightarrow> adapter option" where
  "first_adapter st ids =
     (case List.map_filter (cached_adapter st) ids of [] \<Rightarrow> None | a # _ \<Rightarrow> Some a)"

text \<open>
  \<open>t0\<close> and \<open>t1\<close> are the instants of the two reads of the clock, \<open>arr0\<close> and \<open>arr1\<close> the arrivals
  of the two builds the call may run.
\<close>

definition select_engine ::
  "(route_state \<Rightarrow> route_state) \<Rightarrow> engine_store \<Rightarrow> int \<Rightarrow> (int \<times> probe_data) list \<Rightarrow>
   int \<Rightarrow> (int \<times> probe_data) list \<Rightarrow> string \<Rightarrow> route_state \<Rightarrow> route_result \<times> route_state" where
  "select_engine env st t0 arr0 t1 arr1 model s =
     (if cached_engines st = [] then (NoEngines, s)
      else if model = [] then (routed_default st, s)
      else
        let (idx0, s0) = current_route_index env t0 arr0 s in
        case first_adapter st (ids_for idx0 model) of
          Some a \<Rightarrow> (Routed a, s0)
        | None \<Rightarrow>
            let (idx1, s1) = (if route_index_ttl < t1 - ri_built idx0
                              then rebuild_route_index env t1 arr1 s0 else (idx0, s0));
                again = (if route_index_ttl < t1 - ri_built idx0
                         then first_adapter st (ids_for idx1 model) else None)
            in case again of
                 Some a \<Rightarrow> (Routed a, s1)
               | None \<Rightarrow> (if \<not> ri_probed idx1 then routed_default st else ModelNotFound, s1))"

subsection \<open>What an index holds\<close>

definition ids_of :: "(string \<rightharpoonup> int list) \<Rightarrow> string \<Rightarrow> int list" where
  "ids_of m name = (case m name of None \<Rightarrow> [] | Some ids \<Rightarrow> ids)"

lemma ids_of_add_model: "ids_of (add_model i m n) name = ids_of m name @ (if n = name then [i] else [])"
  by (simp add: ids_of_def add_model_def)

lemma foldl_add_model:
  "ids_of (foldl (add_model i) m names) name = ids_of m name @ replicate (count_list names name) i"
  by (induction names arbitrary: m) (simp_all add: ids_of_add_model)

lemma ids_for_ids_of: "ids_for ix model = ids_of (ri_by_model ix) model"
  by (simp add: ids_for_def ids_of_def)

lemma ids_for_route_add:
  "ids_for (route_add ix (i, pd)) model =
     ids_for ix model @ (if pd_status pd then replicate (count_list (pd_models pd) model) i else [])"
  by (simp add: route_add_def ids_for_ids_of foldl_add_model Let_def)

lemma ids_for_arrivals:
  "ids_for (foldl route_add ix arrivals) model =
     ids_for ix model @
     concat (map (\<lambda>(i, pd). if pd_status pd then replicate (count_list (pd_models pd) model) i else []) arrivals)"
  by (induction arrivals arbitrary: ix) (auto simp: ids_for_route_add)

lemma route_add_fields:
  "ri_probed (route_add ix a) = (ri_probed ix \<or> pd_status (snd a))"
  "ri_built (route_add ix a) = ri_built ix"
  by (cases a, simp add: route_add_def)+

lemma probed_arrivals:
  "ri_probed (foldl route_add ix arrivals) = (ri_probed ix \<or> list_ex (\<lambda>a. pd_status (snd a)) arrivals)"
  by (induction arrivals arbitrary: ix) (simp_all add: route_add_fields)

lemma built_arrivals: "ri_built (foldl route_add ix arrivals) = ri_built ix"
  by (induction arrivals arbitrary: ix) (simp_all add: route_add_fields)

lemma build_ids:
  "ids_for (build_route_index now arrivals) model =
     sort (concat (map (\<lambda>(i, pd). if pd_status pd then replicate (count_list (pd_models pd) model) i else []) arrivals))"
proof -
  let ?e = "\<lparr>ri_by_model = Map.empty, ri_built = now, ri_probed = False\<rparr>"
  have "ids_for (build_route_index now arrivals) model = sort (ids_for (foldl route_add ?e arrivals) model)"
    by (simp add: build_route_index_def ids_for_def Let_def option.case_eq_if option.map_sel)
  moreover have "ids_for ?e model = []" by (simp add: ids_for_def)
  ultimately show ?thesis by (simp add: ids_for_arrivals)
qed

lemma build_member:
  "i \<in> set (ids_for (build_route_index now arrivals) model) \<longleftrightarrow>
     (\<exists>pd. (i, pd) \<in> set arrivals \<and> pd_status pd \<and> model \<in> set (pd_models pd))"
  by (auto simp: build_ids count_list_0_iff split: if_splits)

lemma build_fields [simp]:
  "ri_built (build_route_index now arrivals) = now"
  "ri_probed (build_route_index now arrivals) = list_ex (\<lambda>a. pd_status (snd a)) arrivals"
  by (simp_all add: build_route_index_def Let_def built_arrivals probed_arrivals)

lemma build_sorted: "sorted (ids_for (build_route_index now arrivals) model)"
  by (simp add: build_ids)

subsection \<open>What a request is routed to\<close>

lemma map_filter_Nil_iff: "List.map_filter f xs = [] \<longleftrightarrow> (\<forall>x \<in> set xs. f x = None)"
  by (induction xs) (auto simp: List.map_filter_simps split: option.split)

lemma map_filter_Cons_first:
  "List.map_filter f xs = a # as \<Longrightarrow> \<exists>ys x zs. xs = ys @ x # zs \<and> f x = Some a \<and> (\<forall>y \<in> set ys. f y = None)"
proof (induction xs)
  case Nil
  then show ?case by (simp add: List.map_filter_simps)
next
  case (Cons x xs)
  show ?case
  proof (cases "f x")
    case None
    with Cons obtain ys y zs where "xs = ys @ y # zs" "f y = Some a" "\<forall>y \<in> set ys. f y = None"
      by (auto simp: List.map_filter_simps)
    with None show ?thesis by (intro exI [of _ "x # ys"]) auto
  next
    case (Some b)
    with Cons.prems have "x # xs = [] @ x # xs \<and> f x = Some a" by (simp add: List.map_filter_simps)
    then show ?thesis by (metis empty_iff list.set(1))
  qed
qed

lemma first_adapter_None: "first_adapter st ids = None \<longleftrightarrow> (\<forall>i \<in> set ids. cached_adapter st i = None)"
  by (simp add: first_adapter_def map_filter_Nil_iff [symmetric] split: list.split)

text \<open>The engine that wins among several that serve a model.\<close>

definition lowest_serving :: "engine_store \<Rightarrow> int list \<Rightarrow> adapter \<Rightarrow> bool" where
  "lowest_serving st ids a \<longleftrightarrow>
     (\<exists>i \<in> set ids. cached_adapter st i = Some a \<and>
        (\<forall>j \<in> set ids. cached_adapter st j \<noteq> None \<longrightarrow> i \<le> j))"

lemma first_adapter_lowest:
  assumes "first_adapter st ids = Some a" and "sorted ids"
  shows "lowest_serving st ids a"
proof -
  from assms(1) obtain as where "List.map_filter (cached_adapter st) ids = a # as"
    by (auto simp: first_adapter_def split: list.splits)
  then obtain ys i zs where i: "ids = ys @ i # zs" "cached_adapter st i = Some a"
      "\<forall>y \<in> set ys. cached_adapter st y = None" using map_filter_Cons_first by metis
  with assms(2) have "\<forall>j \<in> set ids. cached_adapter st j \<noteq> None \<longrightarrow> i \<le> j"
    by (auto simp: sorted_append)
  with i show ?thesis by (auto simp: lowest_serving_def)
qed

definition published_sorted :: "route_state \<Rightarrow> bool" where
  "published_sorted s = (case rs_index s of None \<Rightarrow> True | Some ix \<Rightarrow> (\<forall>m. sorted (ids_for ix m)))"

definition consulted ::
  "route_state \<Rightarrow> int \<Rightarrow> (int \<times> probe_data) list \<Rightarrow> int \<Rightarrow> (int \<times> probe_data) list \<Rightarrow> route_index \<Rightarrow> bool" where
  "consulted s t0 arr0 t1 arr1 ix \<longleftrightarrow>
     rs_index s = Some ix \<or> ix = build_route_index t0 arr0 \<or> ix = build_route_index t1 arr1"

lemma select_engine_cases:
  assumes "select_engine env st t0 arr0 t1 arr1 model s = (r, s')" and "model \<noteq> []" and "cached_engines st \<noteq> []"
  obtains (hit) ix a where "r = Routed a" "first_adapter st (ids_for ix model) = Some a"
      "rs_index s = Some ix \<or> ix = build_route_index t0 arr0 \<or> ix = build_route_index t1 arr1"
  | (miss) ix where "first_adapter st (ids_for ix model) = None"
      "r = (if ri_probed ix then ModelNotFound else routed_default st)"
      "(rs_index s = Some ix \<or> ix = build_route_index t0 arr0) \<and> t1 - ri_built ix \<le> route_index_ttl \<or>
       ix = build_route_index t1 arr1"
proof -
  obtain ix0 s0 where c: "current_route_index env t0 arr0 s = (ix0, s0)" by fastforce
  then have ix0: "rs_index s = Some ix0 \<or> ix0 = build_route_index t0 arr0"
    by (auto simp: current_route_index_def rebuild_route_index_def Let_def split: option.splits)
  show thesis
  proof (cases "first_adapter st (ids_for ix0 model)")
    case (Some a)
    with assms c ix0 show ?thesis by (intro hit [of a ix0]) (auto simp: select_engine_def)
  next
    case None
    show ?thesis
    proof (cases "route_index_ttl < t1 - ri_built ix0")
      case True
      let ?ix1 = "build_route_index t1 arr1"
      have reb: "fst (rebuild_route_index env t1 arr1 s0) = ?ix1"
        by (simp add: rebuild_route_index_def Let_def)
      show ?thesis
      proof (cases "first_adapter st (ids_for ?ix1 model)")
        case (Some a)
        with assms c None True reb show ?thesis
          by (intro hit [of a ?ix1]) (auto simp: select_engine_def case_prod_beta Let_def)
      next
        case n1: None
        with assms c None True reb show ?thesis
          by (intro miss [of ?ix1]) (auto simp: select_engine_def case_prod_beta Let_def)
      qed
    next
      case False
      with assms c None ix0 show ?thesis
        by (intro miss [of ix0]) (auto simp: select_engine_def case_prod_beta Let_def)
    qed
  qed
qed


text \<open>
  C13. A request is told that its model does not exist only on the word of an index that is at
  most 60 seconds old, in which at least one engine answered, and in which no engine with
  an adapter serves the model.
\<close>

theorem select_engine_not_found:
  assumes "select_engine env st t0 arr0 t1 arr1 model s = (ModelNotFound, s')"
  shows "model \<noteq> [] \<and> (\<exists>ix. consulted s t0 arr0 t1 arr1 ix \<and> t1 - ri_built ix \<le> route_index_ttl \<and>
    ri_probed ix \<and> (\<forall>i \<in> set (ids_for ix model). cached_adapter st i = None))"
proof -
  have m: "model \<noteq> []" "cached_engines st \<noteq> []"
    using assms by (auto simp: select_engine_def routed_default_def split: if_splits option.splits)
  from assms m show ?thesis
  proof (cases rule: select_engine_cases)
    case (miss ix)
    moreover have "routed_default st \<noteq> ModelNotFound" by (simp add: routed_default_def split: option.split)
    moreover have "(0::int) \<le> route_index_ttl" by (simp add: route_index_ttl_def ns_second_def)
    ultimately show ?thesis using m
      by (intro conjI m(1) exI [of _ ix])
        (auto simp: consulted_def first_adapter_None split: if_splits)
  qed simp
qed

text \<open>
  C12. A model that an engine reports to every build is routed at once when the index is
  missing or stale: after any engine change no request is refused for it.
\<close>

theorem changed_model_routable:
  assumes "(i, pd0) \<in> set arr0" and "pd_status pd0" and "model \<in> set (pd_models pd0)"
    and "(i, pd1) \<in> set arr1" and "pd_status pd1" and "model \<in> set (pd_models pd1)"
    and "cached_adapter st i \<noteq> None" and "cached_engines st \<noteq> []" and "model \<noteq> []"
    and "route_index_ttl < t1"
  shows "\<exists>a. fst (select_engine env st t0 arr0 t1 arr1 model (invalidate_route_index s)) = Routed a"
proof -
  obtain r s' where sel: "select_engine env st t0 arr0 t1 arr1 model (invalidate_route_index s) = (r, s')"
    by fastforce
  from sel assms(9,8) show ?thesis
  proof (cases rule: select_engine_cases)
    case (hit ix a)
    with sel show ?thesis by simp
  next
    case (miss ix)
    have "ri_built jx = 0" if "rs_index (invalidate_route_index s) = Some jx" for jx
      using that by (auto simp: invalidate_route_index_def)
    with miss(3) assms(10) have "ix = build_route_index t0 arr0 \<or> ix = build_route_index t1 arr1" by auto
    with assms have "i \<in> set (ids_for ix model)" by (auto simp: build_member)
    with miss(1) assms(7) show ?thesis by (auto simp: first_adapter_None)
  qed
qed

subsection \<open>Two engines, concretely\<close>

definition engine_no :: "int \<Rightarrow> engine_config" where
  "engine_no i = sample_engine\<lparr>ec_id := i\<rparr>"

definition adapter_no :: "int \<Rightarrow> adapter" where
  "adapter_no i = \<lparr>ad_cfg = engine_no i, ad_limiter = new_limiter 4\<rparr>"

definition two_engines :: engine_store where
  "two_engines = \<lparr>es_row = None,
     es_cache = Some \<lparr>ch_engines = [engine_no 1, engine_no 2],
                      ch_adapters = [1 \<mapsto> adapter_no 1, 2 \<mapsto> adapter_no 2]\<rparr>,
     es_changes = 0\<rparr>"

definition serving :: "string list \<Rightarrow> probe_data" where
  "serving models = no_probe\<lparr>pd_status := True, pd_models := models\<rparr>"

definition no_routes :: route_state where
  "no_routes = \<lparr>rs_index = None, rs_gen = 0, rs_refreshing = False\<rparr>"

lemmas routing_eval =
  select_engine_def current_route_index_def rebuild_route_index_def store_route_index_def
  build_route_index_def route_add_def add_model_def ids_for_def first_adapter_def
  two_engines_def cached_engines_def cached_adapter_def serving_def no_probe_def no_routes_def
  route_index_ttl_def ns_second_def List.map_filter_simps

lemma adapter_no_inj [simp]: "adapter_no i = adapter_no j \<longleftrightarrow> i = j"
  by (auto simp: adapter_no_def engine_no_def sample_engine_def)


lemma select_engine_not_found_witness:
  "\<exists>ix. consulted no_routes 5 [(2, serving [''m''])] 5 [] ix \<and> ri_probed ix"
proof -
  let ?sel = "select_engine id two_engines 5 [(2, serving [''m''])] 5 [] ''x'' no_routes"
  have "fst ?sel = ModelNotFound" by (simp add: routing_eval Let_def case_prod_beta)
  then have "?sel = (ModelNotFound, snd ?sel)" by (simp add: prod_eq_iff)
  from select_engine_not_found [OF this] show ?thesis by auto
qed

lemma changed_model_routable_witness:
  "\<exists>a. fst (select_engine id two_engines 70000000000 [(2, serving [''m''])] 70000000000 [(2, serving [''m''])]
     ''m'' (invalidate_route_index no_routes)) = Routed a"
  by (rule changed_model_routable [of 2 "serving [''m'']" _ _ "serving [''m'']"])
    (simp_all add: serving_def no_probe_def two_engines_def cached_adapter_def cached_engines_def
      route_index_ttl_def ns_second_def)

text \<open>
  A build that reaches its deadline publishes a partial index, and that index answers for
  a minute: with two engines, the first still being probed, its model is refused with a
  404 although the engine serves it, and refused again a minute later although its
  probe has long finished.
\<close>

theorem partial_index_refuses:
  "let (r0, s0) = select_engine id two_engines 0 [(2, serving [''b''])] 0 [] ''a'' no_routes;
       (r1, s1) = select_engine id two_engines route_index_ttl [(1, serving [''a'']), (2, serving [''b''])]
                    route_index_ttl [(1, serving [''a'']), (2, serving [''b''])] ''a'' s0
   in r0 = ModelNotFound \<and> r1 = ModelNotFound"
  by (simp add: routing_eval Let_def case_prod_beta)

text \<open>
  A probe that arrives after the deadline still writes to the published index, unsorted:
  with two engines serving the model, the first arriving late, requests are routed to
  engine 2 and not to the lowest id.
\<close>

theorem late_probe_breaks_order:
  "let ix = late_arrivals [(1, serving [''m''])] (build_route_index 0 [(2, serving [''m''])]);
       s = no_routes\<lparr>rs_index := Some ix\<rparr>
   in ids_for ix ''m'' = [2, 1] \<and>
      fst (select_engine id two_engines 1 [] 1 [] ''m'' s) = Routed (adapter_no 2) \<and>
      \<not> published_sorted s"
  by (auto simp: routing_eval late_arrivals_def published_sorted_def Let_def intro!: exI [of _ "''m''"])

subsection \<open>The index is a guarded store\<close>

text \<open>
  A fresh index is one whose \<open>built\<close> is not the zero time; a build carries its positive
  instant with it.
\<close>

type_synonym index_content = "(string \<rightharpoonup> int list) \<times> bool"

definition fresh_index :: "route_state \<Rightarrow> unit \<Rightarrow> index_content option" where
  "fresh_index s u =
     (case rs_index s of
        None \<Rightarrow> None
      | Some ix \<Rightarrow> if ri_built ix = 0 then None else Some (ri_by_model ix, ri_probed ix))"

definition route_store :: "nat \<Rightarrow> nat \<Rightarrow> unit \<Rightarrow> index_content option \<Rightarrow> route_state \<Rightarrow> route_state" where
  "route_store t g u res s =
     (case res of
        None \<Rightarrow> s
      | Some (m, p) \<Rightarrow> store_route_index \<lparr>ri_by_model = m, ri_built = int t + 1, ri_probed = p\<rparr> g s)"

interpretation rg: gen_guard rs_gen invalidate_route_index "\<lambda>(t::nat) u s. s" route_store fresh_index
  by unfold_locales
    (auto simp: invalidate_route_index_def fresh_index_def route_store_def store_route_index_def
      split: option.splits if_splits)



end
