(* ===== verification/Rate_Limit.thy ===== *)
theory Rate_Limit
  imports Go_Prelude
begin

section \<open>ratelimit.go: the per-user rate limiter\<close>

text \<open>
  The registry maps a user id to a bucket and when it was last used. The bucket itself is
  \<open>golang.org/x/time/rate\<close>: \<open>fresh\<close> is \<open>NewLimiter(limit/60, limit)\<close> and \<open>allow\<close> its
  \<open>Allow\<close> at an instant, both arguments of the model.
\<close>

record 'b user_limiter =
  ul_limiter :: 'b
  ul_limit :: int
  ul_last :: int

type_synonym 'b limiters = "int \<rightharpoonup> 'b user_limiter"

definition idle_evict_after :: int where "idle_evict_after = 30 * ns_minute"

text \<open>The entry in use: a new one at first use and when the admin changed the limit.\<close>

definition limiter_entry :: "(int \<Rightarrow> 'b) \<Rightarrow> int \<Rightarrow> int \<Rightarrow> 'b user_limiter option \<Rightarrow> 'b user_limiter" where
  "limiter_entry fresh now limit old =
     (case old of
        Some e \<Rightarrow> if ul_limit e = limit then e
                  else \<lparr>ul_limiter = fresh limit, ul_limit = limit, ul_last = now\<rparr>
      | None \<Rightarrow> \<lparr>ul_limiter = fresh limit, ul_limit = limit, ul_last = now\<rparr>)"

definition is_allowed ::
  "(int \<Rightarrow> 'b) \<Rightarrow> (int \<Rightarrow> 'b \<Rightarrow> bool \<times> 'b) \<Rightarrow> int \<Rightarrow> int \<Rightarrow> int \<Rightarrow> 'b limiters \<Rightarrow> bool \<times> 'b limiters" where
  "is_allowed fresh allow now uid limit m =
     (if limit \<le> 0 then (False, m)
      else
        let entry = limiter_entry fresh now limit (m uid);
            (ok, b) = allow now (ul_limiter entry)
        in (ok, m(uid \<mapsto> entry\<lparr>ul_limiter := b, ul_last := now\<rparr>)))"

definition drop_user_limiter :: "int \<Rightarrow> 'b limiters \<Rightarrow> 'b limiters" where
  "drop_user_limiter uid m = m(uid := None)"

definition reset_all_limiters :: "'b limiters \<Rightarrow> 'b limiters" where
  "reset_all_limiters m = Map.empty"

definition sweep_idle_limiters :: "int \<Rightarrow> 'b limiters \<Rightarrow> 'b limiters" where
  "sweep_idle_limiters now m =
     (\<lambda>uid. case m uid of
        None \<Rightarrow> None
      | Some e \<Rightarrow> if ul_last e < now - idle_evict_after then None else Some e)"

subsection \<open>Histories\<close>

datatype limiter_event = Request int int | DropUser int | ResetAll | Sweep

fun limiter_step ::
  "(int \<Rightarrow> 'b) \<Rightarrow> (int \<Rightarrow> 'b \<Rightarrow> bool \<times> 'b) \<Rightarrow> int \<times> limiter_event \<Rightarrow> 'b limiters \<Rightarrow> bool option \<times> 'b limiters" where
  "limiter_step fresh allow (now, Request uid limit) m =
     (let (ok, m') = is_allowed fresh allow now uid limit m in (Some ok, m'))"
| "limiter_step fresh allow (now, DropUser uid) m = (None, drop_user_limiter uid m)"
| "limiter_step fresh allow (now, ResetAll) m = (None, reset_all_limiters m)"
| "limiter_step fresh allow (now, Sweep) m = (None, sweep_idle_limiters now m)"

text \<open>The answers the requests of a history get.\<close>

fun answers ::
  "(int \<Rightarrow> 'b) \<Rightarrow> (int \<Rightarrow> 'b \<Rightarrow> bool \<times> 'b) \<Rightarrow> (int \<times> limiter_event) list \<Rightarrow> 'b limiters \<Rightarrow> bool list" where
  "answers fresh allow [] m = []"
| "answers fresh allow (e # es) m =
     (let (r, m') = limiter_step fresh allow e m in
      (case r of None \<Rightarrow> [] | Some b \<Rightarrow> [b]) @ answers fresh allow es m')"

subsection \<open>Users do not affect each other\<close>

definition about_user :: "int \<Rightarrow> int \<times> limiter_event \<Rightarrow> bool" where
  "about_user u e = (case snd e of Request v l \<Rightarrow> v = u | DropUser v \<Rightarrow> v = u | _ \<Rightarrow> True)"

fun answers_of ::
  "(int \<Rightarrow> 'b) \<Rightarrow> (int \<Rightarrow> 'b \<Rightarrow> bool \<times> 'b) \<Rightarrow> int \<Rightarrow> (int \<times> limiter_event) list \<Rightarrow> 'b limiters \<Rightarrow> bool list" where
  "answers_of fresh allow u [] m = []"
| "answers_of fresh allow u (e # es) m =
     (let (r, m') = limiter_step fresh allow e m in
      (case r of Some b \<Rightarrow> (if about_user u e then [b] else []) | None \<Rightarrow> []) @
      answers_of fresh allow u es m')"

lemma is_allowed_at:
  "fst (is_allowed fresh allow now uid limit m) =
     (0 < limit \<and> fst (allow now (ul_limiter (limiter_entry fresh now limit (m uid)))))"
  "snd (is_allowed fresh allow now uid limit m) u =
     (if 0 < limit \<and> u = uid
      then (let e = limiter_entry fresh now limit (m uid) in
            Some (e\<lparr>ul_limiter := snd (allow now (ul_limiter e)), ul_last := now\<rparr>))
      else m u)"
  by (simp_all add: is_allowed_def case_prod_beta Let_def)

lemma step_same_user:
  assumes "m1 u = m2 u"
  shows "snd (limiter_step fresh allow e m1) u = snd (limiter_step fresh allow e m2) u"
proof (cases e)
  case (Pair now ev)
  then show ?thesis
    using assms
    by (cases ev) (auto simp: case_prod_beta Let_def is_allowed_at drop_user_limiter_def
        reset_all_limiters_def sweep_idle_limiters_def)
qed

lemma step_about_user:
  assumes "m1 u = m2 u" and "about_user u e"
  shows "fst (limiter_step fresh allow e m1) = fst (limiter_step fresh allow e m2)"
proof (cases e)
  case (Pair now ev)
  then show ?thesis
    using assms by (cases ev) (simp_all add: case_prod_beta Let_def is_allowed_at about_user_def)
qed

lemma step_other_user:
  assumes "\<not> about_user u e"
  shows "snd (limiter_step fresh allow e m) u = m u"
proof (cases e)
  case (Pair now ev)
  then show ?thesis
    using assms
    by (cases ev) (simp_all add: case_prod_beta Let_def is_allowed_at about_user_def drop_user_limiter_def)
qed

lemma answers_of_cong:
  "m1 u = m2 u \<Longrightarrow> answers_of fresh allow u es m1 =
     answers_of fresh allow u (filter (about_user u) es) m2"
proof (induction es arbitrary: m1 m2)
  case Nil
  show ?case by simp
next
  case (Cons e es)
  show ?case
  proof (cases "about_user u e")
    case True
    have "snd (limiter_step fresh allow e m1) u = snd (limiter_step fresh allow e m2) u"
      using Cons.prems by (rule step_same_user)
    from Cons.IH [of "snd (limiter_step fresh allow e m1)" "snd (limiter_step fresh allow e m2)", OF this]
      step_about_user [of m1 u m2 e fresh allow, OF Cons.prems True] True show ?thesis
      by (simp add: Let_def case_prod_beta)
  next
    case False
    have "snd (limiter_step fresh allow e m1) u = m2 u"
      using step_other_user [of u e fresh allow m1, OF False] Cons.prems by simp
    from Cons.IH [of "snd (limiter_step fresh allow e m1)" m2, OF this] False show ?thesis
      by (simp add: Let_def case_prod_beta split: option.split)
  qed
qed

text \<open>
  C35. What a user's requests are answered depends only on that user's own requests and on the
  admin actions and sweeps: leaving out everything about other users changes no answer.
\<close>

theorem users_isolated:
  "answers_of fresh allow u history m = answers_of fresh allow u (filter (about_user u) history) m"
  by (rule answers_of_cong) simp

subsection \<open>Sweeping is invisible\<close>

definition spent :: "(int \<Rightarrow> 'b) \<Rightarrow> (int \<Rightarrow> 'b \<Rightarrow> bool \<times> 'b) \<Rightarrow> int \<Rightarrow> int list \<Rightarrow> 'b" where
  "spent fresh allow limit ts = foldl (\<lambda>b t. snd (allow t b)) (fresh limit) ts"

text \<open>
  What the sweeper relies on: a bucket that nobody used for the eviction time has refilled, so
  from then on it answers as a new one does.
\<close>

definition refills :: "(int \<Rightarrow> 'b) \<Rightarrow> (int \<Rightarrow> 'b \<Rightarrow> bool \<times> 'b) \<Rightarrow> bool" where
  "refills fresh allow \<longleftrightarrow>
     (\<forall>limit ts t. 0 < limit \<longrightarrow> (\<forall>x \<in> set ts. 0 \<le> x) \<longrightarrow> sorted ts \<longrightarrow>
        (\<forall>x \<in> set ts. x + idle_evict_after < t) \<longrightarrow> 0 \<le> t \<longrightarrow>
        allow t (spent fresh allow limit ts) = allow t (fresh limit))"

definition entry_ok :: "(int \<Rightarrow> 'b) \<Rightarrow> (int \<Rightarrow> 'b \<Rightarrow> bool \<times> 'b) \<Rightarrow> 'b user_limiter \<Rightarrow> bool" where
  "entry_ok fresh allow e \<longleftrightarrow>
     (\<exists>ts. ul_limiter e = spent fresh allow (ul_limit e) ts \<and> sorted ts \<and> 0 < ul_limit e \<and>
        (\<forall>x \<in> set ts. 0 \<le> x \<and> x \<le> ul_last e))"

definition swept :: "int \<Rightarrow> 'b limiters \<Rightarrow> 'b limiters \<Rightarrow> bool" where
  "swept now m1 m2 \<longleftrightarrow>
     (\<forall>u. m1 u = m2 u \<or> (m1 u = None \<and> (\<exists>e. m2 u = Some e \<and> ul_last e + idle_evict_after < now)))"

lemma entry_ok_use:
  assumes "entry_ok fresh allow e" and "0 \<le> now" and "ul_last e \<le> now"
  shows "entry_ok fresh allow (e\<lparr>ul_limiter := snd (allow now (ul_limiter e)), ul_last := now\<rparr>)"
proof -
  obtain ts where ts: "ul_limiter e = spent fresh allow (ul_limit e) ts" "sorted ts" "0 < ul_limit e"
      "\<forall>x \<in> set ts. 0 \<le> x \<and> x \<le> ul_last e"
    using assms(1) by (auto simp: entry_ok_def)
  then have "snd (allow now (ul_limiter e)) = spent fresh allow (ul_limit e) (ts @ [now])"
    by (simp add: spent_def)
  moreover have "\<forall>x \<in> set ts. 0 \<le> x \<and> x \<le> now" using ts(4) assms(3) by force
  then have "sorted (ts @ [now])" "\<forall>x \<in> set (ts @ [now]). 0 \<le> x \<and> x \<le> now"
    using ts(2) assms(2) by (simp_all add: sorted_append)
  ultimately show ?thesis
    unfolding entry_ok_def using ts(3) by (intro exI [of _ "ts @ [now]"] conjI) simp_all
qed

lemma entry_ok_fresh:
  "0 < limit \<Longrightarrow> entry_ok fresh allow \<lparr>ul_limiter = fresh limit, ul_limit = limit, ul_last = now\<rparr>"
  unfolding entry_ok_def by (rule exI [of _ "[]"]) (simp add: spent_def)

lemma is_allowed_swept:
  assumes law: "refills fresh allow" and sw: "swept now m1 m2" and "0 \<le> now"
    and ok: "\<And>u e. m2 u = Some e \<Longrightarrow> entry_ok fresh allow e \<and> ul_last e \<le> now"
  shows "fst (is_allowed fresh allow now uid limit m1) = fst (is_allowed fresh allow now uid limit m2)"
    and "swept now (snd (is_allowed fresh allow now uid limit m1)) (snd (is_allowed fresh allow now uid limit m2))"
    and "\<And>u e. snd (is_allowed fresh allow now uid limit m2) u = Some e \<Longrightarrow> entry_ok fresh allow e \<and> ul_last e \<le> now"
proof -
  let ?pick = "\<lambda>m. limiter_entry fresh now limit (m uid)"
  let ?use = "\<lambda>e. e\<lparr>ul_limiter := snd (allow now (ul_limiter e)), ul_last := now\<rparr>"
  have same: "allow now (ul_limiter (?pick m1)) = allow now (ul_limiter (?pick m2)) \<and> ?use (?pick m1) = ?use (?pick m2)"
    if pos: "0 < limit"
  proof (cases "m1 uid = m2 uid")
    case True
    then show ?thesis by simp
  next
    case False
    then obtain e where e: "m1 uid = None" "m2 uid = Some e" "ul_last e + idle_evict_after < now"
      using sw by (auto simp: swept_def)
    from ok [OF e(2)] obtain ts where ts: "ul_limiter e = spent fresh allow (ul_limit e) ts" "sorted ts"
        "\<forall>x \<in> set ts. 0 \<le> x \<and> x \<le> ul_last e" "0 < ul_limit e"
      by (auto simp: entry_ok_def)
    have "\<forall>x \<in> set ts. x + idle_evict_after < now" using ts(3) e(3) by force
    with law ts \<open>0 \<le> now\<close> have "allow now (ul_limiter e) = allow now (fresh (ul_limit e))"
      by (simp add: refills_def)
    with e show ?thesis by (simp add: limiter_entry_def)
  qed
  have okp: "entry_ok fresh allow (?use (?pick m2))" if "0 < limit"
  proof (rule entry_ok_use [OF _ \<open>0 \<le> now\<close>])
    show "entry_ok fresh allow (?pick m2)" "ul_last (?pick m2) \<le> now"
      using that ok [of uid] by (auto simp: limiter_entry_def entry_ok_fresh split: option.split)
  qed
  show "fst (is_allowed fresh allow now uid limit m1) = fst (is_allowed fresh allow now uid limit m2)"
    using same by (auto simp: is_allowed_at)
  show "swept now (snd (is_allowed fresh allow now uid limit m1)) (snd (is_allowed fresh allow now uid limit m2))"
    unfolding swept_def
  proof
    fix u
    show "snd (is_allowed fresh allow now uid limit m1) u = snd (is_allowed fresh allow now uid limit m2) u \<or>
        (snd (is_allowed fresh allow now uid limit m1) u = None \<and>
         (\<exists>e. snd (is_allowed fresh allow now uid limit m2) u = Some e \<and> ul_last e + idle_evict_after < now))"
    proof (cases "0 < limit \<and> u = uid")
      case True
      then have "snd (is_allowed fresh allow now uid limit m) u = Some (?use (?pick m))" for m
        by (simp add: is_allowed_at Let_def)
      moreover have "?use (?pick m1) = ?use (?pick m2)" using same True by blast
      ultimately show ?thesis by metis
    next
      case False
      with sw show ?thesis unfolding is_allowed_at swept_def by (simp only: if_False)
    qed
  qed
  fix u e
  assume "snd (is_allowed fresh allow now uid limit m2) u = Some e"
  then show "entry_ok fresh allow e \<and> ul_last e \<le> now"
    using okp ok by (auto simp: is_allowed_at Let_def split: if_splits)
qed

definition sweeping :: "int \<times> limiter_event \<Rightarrow> bool" where
  "sweeping e \<longleftrightarrow> snd e = Sweep"

lemma swept_later: "swept now m1 m2 \<Longrightarrow> now \<le> t \<Longrightarrow> swept t m1 m2"
  by (fastforce simp: swept_def)

lemma swept_sweep:
  assumes "swept now m1 m2"
  shows "swept now (sweep_idle_limiters now m1) m2"
  unfolding swept_def
proof
  fix u
  show "sweep_idle_limiters now m1 u = m2 u \<or>
      (sweep_idle_limiters now m1 u = None \<and> (\<exists>e. m2 u = Some e \<and> ul_last e + idle_evict_after < now))"
    using assms [unfolded swept_def, rule_format, of u]
    by (cases "m1 u"; cases "m2 u") (auto simp: sweep_idle_limiters_def)
qed

lemma answers_swept:
  assumes "refills fresh allow"
  shows "swept now m1 m2 \<Longrightarrow> 0 \<le> now \<Longrightarrow>
    (\<And>u e. m2 u = Some e \<Longrightarrow> entry_ok fresh allow e \<and> ul_last e \<le> now) \<Longrightarrow>
    sorted (now # map fst es) \<Longrightarrow>
    answers fresh allow es m1 = answers fresh allow (filter (\<lambda>e. \<not> sweeping e) es) m2"
proof (induction es arbitrary: now m1 m2)
  case Nil
  show ?case by simp
next
  case (Cons ev es)
  obtain t e where ev: "ev = (t, e)" by fastforce
  have t: "now \<le> t" "0 \<le> t" "sorted (t # map fst es)" using Cons.prems(2,4) ev by auto
  have sw: "swept t m1 m2" using Cons.prems(1) t(1) by (rule swept_later)
  have ok: "\<And>u e. m2 u = Some e \<Longrightarrow> entry_ok fresh allow e \<and> ul_last e \<le> t"
    using Cons.prems(3) t(1) by (meson order_trans)
  show ?case
  proof (cases e)
    case (Request uid limit)
    note al = is_allowed_swept [OF assms sw t(2) ok, where uid = uid and limit = limit]
    from Cons.IH [OF al(2) t(2) al(3) t(3)] al(1) show ?thesis
      by (simp add: ev Request sweeping_def case_prod_beta Let_def)
  next
    case (DropUser uid)
    have "swept t (drop_user_limiter uid m1) (drop_user_limiter uid m2)"
      using sw by (simp add: swept_def drop_user_limiter_def)
    moreover have "entry_ok fresh allow e \<and> ul_last e \<le> t" if "drop_user_limiter uid m2 u = Some e" for u e
      using that ok by (simp add: drop_user_limiter_def split: if_splits)
    ultimately have "answers fresh allow es (drop_user_limiter uid m1) =
        answers fresh allow (filter (\<lambda>e. \<not> sweeping e) es) (drop_user_limiter uid m2)"
      using t(2,3) by (intro Cons.IH [where now = t]) auto
    then show ?thesis by (simp add: ev DropUser sweeping_def)
  next
    case ResetAll
    have "swept t (reset_all_limiters m1) (reset_all_limiters m2)"
      by (simp add: swept_def reset_all_limiters_def)
    from Cons.IH [OF this t(2) _ t(3)] show ?thesis
      by (simp add: ev ResetAll sweeping_def reset_all_limiters_def)
  next
    case Sweep
    from Cons.IH [OF swept_sweep [OF sw] t(2) ok t(3)] show ?thesis
      by (simp add: ev Sweep sweeping_def)
  qed
qed

text \<open>
  C36. The background sweeper never changes an answer: over any history with non-decreasing
  times, requests are answered as they would be had no limiter ever been evicted.
\<close>

theorem sweeping_invisible:
  assumes "refills fresh allow" and "sorted (0 # map fst history)"
  shows "answers fresh allow history Map.empty =
    answers fresh allow (filter (\<lambda>e. \<not> sweeping e) history) Map.empty"
  by (rule answers_swept [OF assms(1), of 0]) (use assms(2) in \<open>auto simp: swept_def\<close>)

subsection \<open>A bucket that meets the law\<close>

text \<open>
  A token bucket with the parameters the limiter is created with, its level counted in
  nanoseconds of the minute's allowance: \<open>limit\<close> tokens of 60 seconds each.
\<close>

record bucket =
  tb_limit :: int
  tb_level :: int
  tb_last :: int

definition token :: int where "token = 60 * ns_second"

definition new_bucket :: "int \<Rightarrow> bucket" where
  "new_bucket limit = \<lparr>tb_limit = limit, tb_level = limit * token, tb_last = 0\<rparr>"

definition bucket_allow :: "int \<Rightarrow> bucket \<Rightarrow> bool \<times> bucket" where
  "bucket_allow t b =
     (let level = min (tb_limit b * token) (tb_level b + (t - tb_last b) * tb_limit b) in
      if token \<le> level then (True, b\<lparr>tb_level := level - token, tb_last := t\<rparr>)
      else (False, b\<lparr>tb_level := level, tb_last := t\<rparr>))"

lemma spent_bucket:
  assumes "0 < limit" and "sorted ts" and "\<forall>x \<in> set ts. 0 \<le> x"
  shows "tb_limit (spent new_bucket bucket_allow limit ts) = limit \<and>
    0 \<le> tb_level (spent new_bucket bucket_allow limit ts) \<and>
    tb_last (spent new_bucket bucket_allow limit ts) = (if ts = [] then 0 else last ts) \<and>
    (ts = [] \<longrightarrow> tb_level (spent new_bucket bucket_allow limit ts) = limit * token)"
  using assms(2,3)
proof (induction ts rule: rev_induct)
  case Nil
  with assms(1) show ?case by (simp add: spent_def new_bucket_def token_def ns_second_def)
next
  case (snoc t ts)
  let ?b = "spent new_bucket bucket_allow limit ts"
  have IH: "tb_limit ?b = limit" "0 \<le> tb_level ?b" "tb_last ?b = (if ts = [] then 0 else last ts)"
    using snoc by (simp_all add: sorted_append)
  have "tb_last ?b \<le> t" using IH(3) snoc.prems by (auto simp: sorted_append)
  then have "0 \<le> (t - tb_last ?b) * limit" using assms(1) by simp
  moreover have "0 \<le> limit * token" using assms(1) by (simp add: token_def ns_second_def)
  ultimately have "tb_limit (snd (bucket_allow t ?b)) = limit \<and> 0 \<le> tb_level (snd (bucket_allow t ?b)) \<and>
      tb_last (snd (bucket_allow t ?b)) = t"
    using IH(1,2) by (simp add: bucket_allow_def Let_def)
  moreover have "spent new_bucket bucket_allow limit (ts @ [t]) = snd (bucket_allow t ?b)" by (simp add: spent_def)
  ultimately show ?case by simp
qed

lemma bucket_refills: "refills new_bucket bucket_allow"
  unfolding refills_def
proof (intro allI impI)
  fix limit :: int and ts t
  assume a: "0 < limit" "\<forall>x \<in> set ts. 0 \<le> x" "sorted ts" "\<forall>x \<in> set ts. x + idle_evict_after < t" "0 \<le> t"
  let ?b = "spent new_bucket bucket_allow limit ts"
  note b = spent_bucket [OF a(1,3,2)]
  show "bucket_allow t ?b = bucket_allow t (new_bucket limit)"
  proof (cases "ts = []")
    case True
    then show ?thesis by (simp add: spent_def)
  next
    case False
    with a(4) have "last ts + idle_evict_after < t" by simp
    then have "token \<le> t - tb_last ?b"
      using b False by (simp add: idle_evict_after_def token_def ns_minute_def ns_second_def)
    then have "limit * token \<le> (t - tb_last ?b) * limit"
      using a(1) by (simp add: mult.commute mult_right_mono)
    moreover have "0 \<le> t * limit" using a(1,5) by simp
    ultimately have "min (limit * token) (tb_level ?b + (t - tb_last ?b) * limit) = limit * token"
      and "min (limit * token) (limit * token + t * limit) = limit * token"
      using b by auto
    with b show ?thesis by (cases ?b) (simp add: bucket_allow_def new_bucket_def Let_def)
  qed
qed

lemma sweeping_invisible_witness:
  "answers new_bucket bucket_allow
     [(1, Request 7 1), (2, Request 7 1), (4000000000000, Sweep), (4000000000001, Request 7 1)] Map.empty =
   answers new_bucket bucket_allow [(1, Request 7 1), (2, Request 7 1), (4000000000001, Request 7 1)] Map.empty"
  using sweeping_invisible [OF bucket_refills,
      of "[(1, Request 7 1), (2, Request 7 1), (4000000000000, Sweep), (4000000000001, Request 7 1)]"]
  by (simp add: sweeping_def del: answers.simps)

end
