(* ===== verification/Api_Handlers.thy ===== *)
theory Api_Handlers
  imports Api_Relay Routing Rate_Limit User_Store Log_Writer
begin

section \<open>api_handlers.go: the handlers of the /v1 API\<close>

text \<open>
  One request through \<open>handleChatCompletions\<close>, \<open>handleMessages\<close>, \<open>handleCountTokens\<close> or
  \<open>handleListModels\<close>. The state is what they share: the rate limiters, the routing index, the
  slots of each engine, the queue of the interaction log, the requests sent to engines. \<open>gateway\<close>
  holds the configuration and the parts of the library the handlers call, \<open>request_env\<close> what
  happens to this request. A handler ends in \<open>None\<close> only while a stream has not ended.
\<close>

record 'b gateway =
  gw_store :: engine_store
  gw_limit :: int \<comment> \<open>\<open>cfg.MaxMsgLen\<close>\<close>
  gw_fresh :: "int \<Rightarrow> 'b"
  gw_allow :: "int \<Rightarrow> 'b \<Rightarrow> bool \<times> 'b"
  gw_marshal :: "json \<Rightarrow> string option"
  gw_unmarshal :: "string \<Rightarrow> json option"
  gw_line :: "string \<Rightarrow> obj option"
  gw_encode_chunk :: "chat_completion_chunk \<Rightarrow> string"
  gw_audit_chunk :: "string \<Rightarrow> audit_chunk option"
  gw_stream_chunk :: "string \<Rightarrow> stream_chunk option"
  gw_completion :: "obj \<Rightarrow> chat_completion option"
  gw_message_json :: "anthropic_message \<Rightarrow> json"
  gw_valid :: "string \<Rightarrow> bool"
  gw_rnd :: "nat \<Rightarrow> string"
  gw_time :: "int \<Rightarrow> string" \<comment> \<open>an instant as RFC 3339 text\<close>

record request_env =
  rv_user :: "user option" \<comment> \<open>\<open>userFromContext\<close>\<close>
  rv_body :: body_read
  rv_now :: int
  rv_draws :: nat
  rv_others :: "route_state \<Rightarrow> route_state" \<comment> \<open>other requests while an index is built\<close>
  rv_arrivals :: "(int \<times> probe_data) list \<times> (int \<times> probe_data) list"
  rv_clock :: "int \<times> int"
  rv_pick :: bool
  rv_waited :: "limiter \<Rightarrow> limiter" \<comment> \<open>other requests while this one waits for a slot\<close>
  rv_gone :: bool \<comment> \<open>the client hung up before the engine answered\<close>
  rv_chat :: "obj + string"
  rv_stream :: "(string list \<times> string option) + string"
  rv_room :: "nat option"
  rv_reads :: "int list"

record 'b api_state =
  as_limiters :: "'b limiters"
  as_route :: route_state
  as_slots :: "int \<Rightarrow> limiter"
  as_calls :: "(engine_config \<times> obj) list"
  as_log :: "interaction_entry writer"
  as_detail :: "request_detail option"

datatype api_reply =
    Answer int reply_body
  | Busy "int \<times> reply_body" \<comment> \<open>with \<open>Retry-After: 2\<close>\<close>
  | Stream "string sse list"
  | MessageStream "message_frame list"
  | NoReply
  | Panicked

definition answer :: "int \<times> reply_body \<Rightarrow> api_reply" where
  "answer r = Answer (fst r) (snd r)"

subsection \<open>Admission\<close>

definition check_rate_limit :: "'b gateway \<Rightarrow> request_env \<Rightarrow> user \<Rightarrow> 'b api_state \<Rightarrow> bool \<times> 'b api_state" where
  "check_rate_limit gw rv u st =
     (let (ok, ls) = is_allowed (gw_fresh gw) (gw_allow gw) (rv_now rv) (us_id u) (us_rate_limit u) (as_limiters st)
      in (ok, st\<lparr>as_limiters := ls\<rparr>))"

text \<open>
  \<open>TryAcquire\<close> under the context of 250 ms: it blocks until a slot is free or the time is up.
\<close>

definition acquire_slot :: "bool \<Rightarrow> (limiter \<Rightarrow> limiter) \<Rightarrow> limiter \<Rightarrow> limiter \<times> bool" where
  "acquire_slot pick waited l =
     (case try_acquire False pick l of
        Some r \<Rightarrow> r
      | None \<Rightarrow> (case try_acquire True pick (waited l) of Some r \<Rightarrow> r | None \<Rightarrow> (waited l, False)))"

definition quoted :: "string \<Rightarrow> string" where
  "quoted s = CHR 0x27 # s @ [CHR 0x27]"

definition acquire_engine ::
  "api_flavour \<Rightarrow> 'b gateway \<Rightarrow> request_env \<Rightarrow> string \<Rightarrow> 'b api_state \<Rightarrow> (api_reply + adapter) \<times> 'b api_state" where
  "acquire_engine api gw rv model st =
     (let (found, rt) = select_engine (rv_others rv) (gw_store gw) (fst (rv_clock rv)) (fst (rv_arrivals rv))
                          (snd (rv_clock rv)) (snd (rv_arrivals rv)) model (as_route st);
          st1 = st\<lparr>as_route := rt\<rparr>
      in case found of
           NoEngines \<Rightarrow> (Inl (answer (write_error api 502 ''No engines configured'' ''api_error'')), st1)
         | ModelNotFound \<Rightarrow>
             (Inl (answer (write_error api 404
                (''Model '' @ quoted model @ '' is not available on any configured engine'') ''invalid_request_error'')), st1)
         | Routed a \<Rightarrow>
             (let i = ec_id (ad_cfg a);
                  st2 = st1\<lparr>as_detail := set_routed (ec_name (ad_cfg a)) (ec_type (ad_cfg a)) model (as_detail st1)\<rparr>;
                  (l, got) = acquire_slot (rv_pick rv) (rv_waited rv) (as_slots st2 i);
                  st3 = st2\<lparr>as_slots := (as_slots st2)(i := l)\<rparr>
              in if \<not> got then (Inl (Busy (write_error api 503 ''Engine busy, please retry'' ''api_error'')), st3)
                 else (Inr a, st3)))"

definition release_engine :: "adapter \<Rightarrow> 'b api_state \<Rightarrow> 'b api_state" where
  "release_engine a st =
     (let i = ec_id (ad_cfg a) in st\<lparr>as_slots := (as_slots st)(i := release (as_slots st i))\<rparr>)"

definition send_upstream :: "adapter \<Rightarrow> obj \<Rightarrow> 'b api_state \<Rightarrow> 'b api_state" where
  "send_upstream a req st = st\<lparr>as_calls := as_calls st @ [(ad_cfg a, req)]\<rparr>"

definition log_interaction ::
  "'b gateway \<Rightarrow> request_env \<Rightarrow> user \<Rightarrow> obj list \<Rightarrow> string + json \<Rightarrow> string \<Rightarrow> 'b api_state \<Rightarrow> 'b api_state" where
  "log_interaction gw rv u messages resp model st =
     st\<lparr>as_log := enqueue \<lparr>ie_user = us_id u, ie_model = model, ie_prompt = Inr (JArr (map JObj messages)),
                           ie_response = resp, ie_ts = gw_time gw (rv_now rv)\<rparr> (as_log st)\<rparr>"

subsection \<open>Running a request on its engine\<close>

definition payload_json :: "payload \<Rightarrow> json" where
  "payload_json p = (case p of PTyped c \<Rightarrow> completion_json c | PMap m \<Rightarrow> JObj m)"

text \<open>An Ollama reply is translated, any other relayed as it came.\<close>

definition engine_payload :: "'b gateway \<Rightarrow> request_env \<Rightarrow> adapter \<Rightarrow> obj \<Rightarrow> payload \<times> nat" where
  "engine_payload gw rv a result =
     (if ec_type (ad_cfg a) = engine_ollama
      then (let (c, k) = ollama_to_openai (gw_marshal gw) (gw_rnd gw) (rv_now rv) (rv_draws rv) result in (PTyped c, k))
      else (PMap result, rv_draws rv))"

definition relay_completion ::
  "'b gateway \<Rightarrow> request_env \<Rightarrow> adapter \<Rightarrow> request_detail option \<Rightarrow>
   (string sse stream_reply \<times> string option \<times> request_detail option) option" where
  "relay_completion gw rv a d =
     (if ec_type (ad_cfg a) = engine_ollama
      then stream_completion True
             (ollama_recv (gw_line gw) (gw_marshal gw) (\<lambda>c. Some (gw_encode_chunk gw c)) (gw_rnd gw))
             (map_sum (\<lambda>(ls, e). new_ollama_stream (gw_rnd gw) (rv_draws rv) ls e) id (rv_stream rv))
             (rv_gone rv) (gw_limit gw) (rv_room rv) (rv_now rv) (rv_reads rv) d
      else stream_completion True (passthrough_recv (gw_audit_chunk gw))
             (map_sum (\<lambda>(ls, e). new_passthrough_stream ls e) id (rv_stream rv))
             (rv_gone rv) (gw_limit gw) (rv_room rv) (rv_now rv) (rv_reads rv) d)"

definition relay_messages ::
  "'b gateway \<Rightarrow> request_env \<Rightarrow> adapter \<Rightarrow> string \<Rightarrow> request_detail option \<Rightarrow>
   (message_frame stream_reply \<times> string option \<times> request_detail option) option" where
  "relay_messages gw rv a model d =
     (if ec_type (ad_cfg a) = engine_ollama
      then stream_messages (gw_stream_chunk gw) (gw_rnd gw) (rv_draws rv) True
             (ollama_recv (gw_line gw) (gw_marshal gw) (\<lambda>c. Some (gw_encode_chunk gw c)) (gw_rnd gw))
             (map_sum (\<lambda>(ls, e). new_ollama_stream (gw_rnd gw) (rv_draws rv) ls e) id (rv_stream rv))
             (rv_gone rv) (gw_limit gw) (rv_room rv) model (rv_now rv) (rv_reads rv) d
      else stream_messages (gw_stream_chunk gw) (gw_rnd gw) (rv_draws rv) True (passthrough_recv (gw_audit_chunk gw))
             (map_sum (\<lambda>(ls, e). new_passthrough_stream ls e) id (rv_stream rv))
             (rv_gone rv) (gw_limit gw) (rv_room rv) model (rv_now rv) (rv_reads rv) d)"

text \<open>What a finished relay leaves behind: the reply, the audit entry, the detail.\<close>

definition finish_stream ::
  "'b gateway \<Rightarrow> request_env \<Rightarrow> user \<Rightarrow> obj list \<Rightarrow> string \<Rightarrow> ('f list \<Rightarrow> api_reply) \<Rightarrow>
   'f stream_reply \<times> string option \<times> request_detail option \<Rightarrow> 'b api_state \<Rightarrow> api_reply \<times> 'b api_state" where
  "finish_stream gw rv u messages model frames out st =
     (let (rep, audit, d) = out; st1 = st\<lparr>as_detail := d\<rparr> in
      (case rep of StreamError e \<Rightarrow> answer e | ClientGone \<Rightarrow> NoReply | Streamed fs \<Rightarrow> frames fs,
       case audit of None \<Rightarrow> st1 | Some resp \<Rightarrow> log_interaction gw rv u messages (Inl resp) model st1))"

definition failed_call :: "api_flavour \<Rightarrow> request_env \<Rightarrow> string \<Rightarrow> 'b api_state \<Rightarrow> api_reply \<times> 'b api_state" where
  "failed_call api rv err st =
     (if rv_gone rv then (NoReply, st)
      else (answer (write_error api 502 ''Could not reach engine'' ''api_error''),
            st\<lparr>as_detail := set_upstream_err (Some err) (as_detail st)\<rparr>))"

text \<open>From the engine's answer to the reply, on either route.\<close>

definition run_completion ::
  "'b gateway \<Rightarrow> request_env \<Rightarrow> user \<Rightarrow> obj \<Rightarrow> obj list \<Rightarrow> string \<Rightarrow> adapter \<Rightarrow> 'b api_state \<Rightarrow>
   (api_reply \<times> 'b api_state) option" where
  "run_completion gw rv u data messages model a st =
     (if as_bool (idx data ''stream'')
      then map_option (\<lambda>out. finish_stream gw rv u messages model Stream out st)
             (relay_completion gw rv a (as_detail st))
      else case rv_chat rv of
        Inr err \<Rightarrow> Some (failed_call OpenAIApi rv err st)
      | Inl result \<Rightarrow>
          let p = fst (engine_payload gw rv a result);
              st1 = st\<lparr>as_detail := record_completion_detail p (as_detail st)\<rparr>
          in Some (Answer 200 (PayloadBody p), log_interaction gw rv u messages (Inr (payload_json p)) model st1))"

definition run_messages ::
  "'b gateway \<Rightarrow> request_env \<Rightarrow> user \<Rightarrow> obj \<Rightarrow> obj list \<Rightarrow> string \<Rightarrow> adapter \<Rightarrow> 'b api_state \<Rightarrow>
   (api_reply \<times> 'b api_state) option" where
  "run_messages gw rv u data messages model a st =
     (if as_bool (idx data ''stream'')
      then map_option (\<lambda>out. finish_stream gw rv u messages model MessageStream out st)
             (relay_messages gw rv a model (as_detail st))
      else case rv_chat rv of
        Inr err \<Rightarrow> Some (failed_call AnthropicApi rv err st)
      | Inl result \<Rightarrow>
          (let (p, k) = engine_payload gw rv a result in
           case openai_to_anthropic (gw_completion gw) (gw_valid gw) (gw_rnd gw) k p model of
             None \<Rightarrow> Some (answer (write_error AnthropicApi 502 ''Unexpected engine response'' ''api_error''), st)
           | Some (msg, _) \<Rightarrow>
               (let st1 = st\<lparr>as_detail := record_anthropic_detail msg (as_detail st)\<rparr>
                in Some (Answer 200 (MessageBody msg),
                         log_interaction gw rv u messages (Inr (gw_message_json gw msg)) model st1))))"

subsection \<open>The handlers\<close>

definition handle_chat_completions ::
  "'b gateway \<Rightarrow> request_env \<Rightarrow> 'b api_state \<Rightarrow> (api_reply \<times> 'b api_state) option" where
  "handle_chat_completions gw rv st =
     (case rv_user rv of
        None \<Rightarrow> Some (answer (write_error OpenAIApi 401 ''Invalid API key'' ''authentication_error''), st)
      | Some u \<Rightarrow>
          let (ok, st1) = check_rate_limit gw rv u st in
          if \<not> ok then Some (answer (write_error OpenAIApi 429 ''Rate limit exceeded'' ''rate_limit_error''), st1)
          else case decode_api_body OpenAIApi (rv_body rv) of
            Inl e \<Rightarrow> Some (answer e, st1)
          | Inr data \<Rightarrow>
              if map_of data ''messages'' = None
              then Some (answer (write_error OpenAIApi 400 (quoted ''messages'' @ '' is required'') ''invalid_request_error''), st1)
              else case sanitize_messages (gw_limit gw) (as_arr (idx data ''messages'')) of
                None \<Rightarrow> Some (Panicked, st1)
              | Some messages \<Rightarrow>
                  let model = as_str (idx data ''model'') in
                  case acquire_engine OpenAIApi gw rv model st1 of
                    (Inl e, st2) \<Rightarrow> Some (e, st2)
                  | (Inr a, st2) \<Rightarrow>
                      let st3 = send_upstream a (build_engine_request (gw_unmarshal gw) a data messages) st2 in
                      map_option (\<lambda>(rep, st4). (rep, release_engine a st4))
                        (run_completion gw rv u data messages model a st3))"

definition handle_messages ::
  "'b gateway \<Rightarrow> request_env \<Rightarrow> 'b api_state \<Rightarrow> (api_reply \<times> 'b api_state) option" where
  "handle_messages gw rv st =
     (case rv_user rv of
        None \<Rightarrow> Some (answer (write_error AnthropicApi 401 ''Invalid API key'' ''authentication_error''), st)
      | Some u \<Rightarrow>
          let (ok, st1) = check_rate_limit gw rv u st in
          if \<not> ok then Some (answer (write_error AnthropicApi 429 ''Rate limit exceeded'' ''rate_limit_error''), st1)
          else case decode_api_body AnthropicApi (rv_body rv) of
            Inl e \<Rightarrow> Some (answer e, st1)
          | Inr body \<Rightarrow>
              let model = as_str (idx body ''model'') in
              if model = []
              then Some (answer (write_error AnthropicApi 400 (quoted ''model'' @ '' is required'') ''invalid_request_error''), st1)
              else if \<not> is_arr (idx body ''messages'')
              then Some (answer (write_error AnthropicApi 400 (quoted ''messages'' @ '' is required'') ''invalid_request_error''), st1)
              else let (data, raw) = anthropic_to_openai (gw_marshal gw) body in
              case sanitize_messages (gw_limit gw) raw of
                None \<Rightarrow> Some (Panicked, st1)
              | Some messages \<Rightarrow>
                  case acquire_engine AnthropicApi gw rv model st1 of
                    (Inl e, st2) \<Rightarrow> Some (e, st2)
                  | (Inr a, st2) \<Rightarrow>
                      let st3 = send_upstream a (build_engine_request (gw_unmarshal gw) a data messages) st2 in
                      map_option (\<lambda>(rep, st4). (rep, release_engine a st4))
                        (run_messages gw rv u data messages model a st3))"

definition handle_count_tokens ::
  "'b gateway \<Rightarrow> request_env \<Rightarrow> 'b api_state \<Rightarrow> (api_reply \<times> 'b api_state) option" where
  "handle_count_tokens gw rv st =
     (case rv_user rv of
        None \<Rightarrow> Some (answer (write_error AnthropicApi 401 ''Invalid API key'' ''authentication_error''), st)
      | Some u \<Rightarrow>
          let (ok, st1) = check_rate_limit gw rv u st in
          if \<not> ok then Some (answer (write_error AnthropicApi 429 ''Rate limit exceeded'' ''rate_limit_error''), st1)
          else case decode_api_body AnthropicApi (rv_body rv) of
            Inl e \<Rightarrow> Some (answer e, st1)
          | Inr body \<Rightarrow>
              Some (Answer 200 (TokensBody (estimate_tokens (gw_marshal gw)
                [idx body ''system'', idx body ''messages'', idx body ''tools''])), st1))"

subsection \<open>What a request changes\<close>

named_theorems api_effects

lemma acquire_slot_True:
  assumes "acquire_slot pick waited l = (l', True)"
  obtains l0 where "l0 = l \<or> l0 = waited l" "lm_used l0 < lm_cap l0" "l' = l0\<lparr>lm_used := lm_used l0 + 1\<rparr>" "release l' = l0"
  using assms
  by (auto simp: acquire_slot_def try_acquire_def release_def Let_def split: if_splits option.splits)

lemma acquire_slot_False: "acquire_slot pick waited l = (l', False) \<Longrightarrow> l' = waited l"
  by (auto simp: acquire_slot_def try_acquire_def Let_def split: if_splits option.splits)

definition slots_back :: "(limiter \<Rightarrow> limiter) \<Rightarrow> (int \<Rightarrow> limiter) \<Rightarrow> (int \<Rightarrow> limiter) \<Rightarrow> bool" where
  "slots_back waited ls ls' \<longleftrightarrow> (\<forall>i. ls' i = ls i \<or> ls' i = waited (ls i))"

text \<open>A reply that ends the request without an answer of an engine.\<close>

definition refusal :: "api_reply \<Rightarrow> bool" where
  "refusal rep =
     (case rep of
        Answer status _ \<Rightarrow> status \<in> {400, 401, 404, 413, 429, 500, 502}
      | Busy e \<Rightarrow> fst e = 503 | NoReply \<Rightarrow> True | Panicked \<Rightarrow> True | _ \<Rightarrow> False)"

lemma refusal_simps [simp]:
  "refusal (Answer status b) \<longleftrightarrow> status \<in> {400, 401, 404, 413, 429, 500, 502}"
  "refusal (Busy e) \<longleftrightarrow> fst e = 503" "refusal NoReply" "refusal Panicked" "\<not> refusal (Stream fs)" "\<not> refusal (MessageStream ms)"
  by (simp_all add: refusal_def)

lemma refusal_answer [simp]: "refusal (answer (write_error api status msg ty)) \<longleftrightarrow> status \<in> {400, 401, 404, 413, 429, 500, 502}"
  by (simp add: answer_def write_error_def)

lemma decode_refusal: "decode_api_body api b = Inl e \<Longrightarrow> refusal (answer e)"
  by (auto simp: decode_api_body_def split: body_read.splits json.splits)

lemma acquire_engine_refused:
  assumes "acquire_engine api gw rv model st = (Inl e, st')"
  shows "as_calls st' = as_calls st \<and> as_log st' = as_log st \<and> as_limiters st' = as_limiters st \<and>
    slots_back (rv_waited rv) (as_slots st) (as_slots st') \<and> refusal e"
proof -
  obtain found rt where sel: "select_engine (rv_others rv) (gw_store gw) (fst (rv_clock rv)) (fst (rv_arrivals rv))
      (snd (rv_clock rv)) (snd (rv_arrivals rv)) model (as_route st) = (found, rt)" by fastforce
  show ?thesis
  proof (cases found)
    case (Routed a)
    obtain l got where slot: "acquire_slot (rv_pick rv) (rv_waited rv) (as_slots st (ec_id (ad_cfg a))) = (l, got)" by fastforce
    with assms sel Routed have "\<not> got" by (auto simp: acquire_engine_def Let_def split: if_splits)
    with slot acquire_slot_False have "l = rv_waited rv (as_slots st (ec_id (ad_cfg a)))" by simp
    with assms sel Routed slot \<open>\<not> got\<close> show ?thesis
      by (auto simp: acquire_engine_def slots_back_def write_error_def Let_def)
  qed (use assms sel in \<open>auto simp: acquire_engine_def slots_back_def Let_def\<close>)
qed

lemma acquire_engine_admitted:
  assumes "acquire_engine api gw rv model st = (Inr a, st')"
  shows "as_calls st' = as_calls st \<and> as_log st' = as_log st \<and> as_limiters st' = as_limiters st \<and>
    slots_back (rv_waited rv) (as_slots st) (as_slots (release_engine a st')) \<and>
    fst (select_engine (rv_others rv) (gw_store gw) (fst (rv_clock rv)) (fst (rv_arrivals rv))
           (snd (rv_clock rv)) (snd (rv_arrivals rv)) model (as_route st)) = Routed a \<and>
    0 < lm_used (as_slots st' (ec_id (ad_cfg a)))"
proof -
  obtain rt where sel: "select_engine (rv_others rv) (gw_store gw) (fst (rv_clock rv)) (fst (rv_arrivals rv))
        (snd (rv_clock rv)) (snd (rv_arrivals rv)) model (as_route st) = (Routed a, rt)"
    and slot: "acquire_slot (rv_pick rv) (rv_waited rv) (as_slots st (ec_id (ad_cfg a))) =
        (as_slots st' (ec_id (ad_cfg a)), True)"
    and same: "as_calls st' = as_calls st" "as_log st' = as_log st" "as_limiters st' = as_limiters st"
      "\<forall>i. i \<noteq> ec_id (ad_cfg a) \<longrightarrow> as_slots st' i = as_slots st i"
    using assms
    by (auto simp: acquire_engine_def Let_def case_prod_beta prod_eq_iff split: route_result.splits if_splits)
  from slot obtain l0 where "l0 = as_slots st (ec_id (ad_cfg a)) \<or> l0 = rv_waited rv (as_slots st (ec_id (ad_cfg a)))"
      "as_slots st' (ec_id (ad_cfg a)) = l0\<lparr>lm_used := lm_used l0 + 1\<rparr>" "release (as_slots st' (ec_id (ad_cfg a))) = l0"
    by (rule acquire_slot_True)
  with sel same show ?thesis by (simp add: slots_back_def release_engine_def)
qed

lemma sanitized_fit:
  assumes "0 \<le> limit" and "sanitize_messages limit raw = Some messages"
  shows "list_all (\<lambda>m. content_fits limit (idx m ''content'')) messages"
proof -
  have "list_all2 (\<lambda>m c. (sanitize_message limit \<circ> as_obj) m = Some c) (filter is_obj raw) messages"
    using assms(2) unfolding sanitize_messages_def by (rule those_map_Some)
  then have "list_all2 (\<lambda>m c. content_fits limit (idx c ''content'')) (filter is_obj raw) messages"
    by (rule list_all2_mono) (use sanitize_message_ok [OF assms(1)] in \<open>metis comp_apply option.inject\<close>)
  then show ?thesis by (auto simp: list_all2_conv_all_nth list_all_length)
qed

text \<open>
  What the two completion handlers have in common: a request is refused before any engine saw
  it, or sent to one engine, once, and then either fails or is answered and audited.
\<close>

definition untouched :: "request_env \<Rightarrow> 'b api_state \<Rightarrow> 'b api_state \<Rightarrow> bool" where
  "untouched rv st st' \<longleftrightarrow>
     as_calls st' = as_calls st \<and> as_log st' = as_log st \<and> slots_back (rv_waited rv) (as_slots st) (as_slots st')"

text \<open>One audit entry, for the user and with the messages of the request.\<close>

definition logged :: "user \<Rightarrow> obj list \<Rightarrow> interaction_entry writer \<Rightarrow> interaction_entry writer \<Rightarrow> bool" where
  "logged u messages q q' \<longleftrightarrow>
     (\<exists>e. q' = enqueue e q \<and> ie_user e = us_id u \<and> ie_prompt e = Inr (JArr (map JObj messages)))"

definition forwarded :: "'b gateway \<Rightarrow> request_env \<Rightarrow> api_reply \<Rightarrow> 'b api_state \<Rightarrow> 'b api_state \<Rightarrow> bool" where
  "forwarded gw rv rep st st' \<longleftrightarrow>
     slots_back (rv_waited rv) (as_slots st) (as_slots st') \<and>
     (\<exists>u a data messages raw.
        rv_user rv = Some u \<and> fst (check_rate_limit gw rv u st) \<and> sanitize_messages (gw_limit gw) raw = Some messages \<and>
        as_calls st' = as_calls st @ [(ad_cfg a, build_engine_request (gw_unmarshal gw) a data messages)] \<and>
        (if refusal rep then as_log st' = as_log st
         else logged u messages (as_log st) (as_log st')))"

lemma check_rate_limit_keeps:
  "as_calls (snd (check_rate_limit gw rv u st)) = as_calls st" "as_log (snd (check_rate_limit gw rv u st)) = as_log st"
  "as_slots (snd (check_rate_limit gw rv u st)) = as_slots st" "as_route (snd (check_rate_limit gw rv u st)) = as_route st"
  by (simp_all add: check_rate_limit_def Let_def case_prod_beta)

lemma slots_back_refl [simp]: "slots_back waited ls ls"
  by (simp add: slots_back_def)

lemma stream_reply_audited:
  assumes "stream_completion True recv conn gone limit room now ts d = Some (rep, audit, d')"
  shows "(audit = None) \<longleftrightarrow> (\<forall>fs. rep \<noteq> Streamed fs)" and "rep = StreamError e \<Longrightarrow> fst e = 502"
  using assms by (auto simp: stream_completion_def write_error_def split: sum.splits if_splits)

lemma message_reply_audited:
  assumes "stream_messages decode rnd k True recv conn gone limit room model now ts d = Some (rep, audit, d')"
  shows "(audit = None) \<longleftrightarrow> (\<forall>fs. rep \<noteq> Streamed fs)" and "rep = StreamError e \<Longrightarrow> fst e = 502"
  using assms by (auto simp: stream_messages_def write_error_def Let_def case_prod_beta split: sum.splits if_splits)

definition audited_reply :: "user \<Rightarrow> obj list \<Rightarrow> api_reply \<Rightarrow> 'b api_state \<Rightarrow> 'b api_state \<Rightarrow> bool" where
  "audited_reply u messages rep st st' \<longleftrightarrow>
     as_calls st' = as_calls st \<and> as_slots st' = as_slots st \<and>
     (if refusal rep then as_log st' = as_log st
      else logged u messages (as_log st) (as_log st'))"

lemma logged_reply:
  assumes "\<not> refusal rep" and "as_log st1 = as_log st" and "as_calls st1 = as_calls st" and "as_slots st1 = as_slots st"
  shows "audited_reply u messages rep st (log_interaction gw rv u messages resp model st1)"
proof -
  have "logged u messages (as_log st) (as_log (log_interaction gw rv u messages resp model st1))"
    unfolding logged_def using assms(2)
    by (intro exI [of _ "\<lparr>ie_user = us_id u, ie_model = model, ie_prompt = Inr (JArr (map JObj messages)),
          ie_response = resp, ie_ts = gw_time gw (rv_now rv)\<rparr>"]) (simp add: log_interaction_def)
  with assms show ?thesis by (simp add: audited_reply_def log_interaction_def)
qed

lemma failed_call_audited:
  "failed_call api rv err st = (rep, st') \<Longrightarrow> audited_reply u messages rep st st'"
  by (auto simp: failed_call_def audited_reply_def split: if_splits)

lemma finish_stream_audited:
  assumes "finish_stream gw rv u messages model frames (r, audit, d) st = (rep, st')"
    and "(audit = None) \<longleftrightarrow> (\<forall>fs. r \<noteq> Streamed fs)" and "\<And>e. r = StreamError e \<Longrightarrow> fst e = 502"
    and "\<And>fs. \<not> refusal (frames fs)"
  shows "audited_reply u messages rep st st'"
proof (cases r)
  case (Streamed fs)
  then obtain resp where "audit = Some resp" using assms(2) by auto
  with assms(1,4) Streamed show ?thesis
    by (auto simp: finish_stream_def Let_def intro!: logged_reply)
next
  case (StreamError e)
  with assms show ?thesis by (auto simp: finish_stream_def audited_reply_def answer_def Let_def)
next
  case ClientGone
  with assms show ?thesis by (auto simp: finish_stream_def audited_reply_def Let_def)
qed

lemma relay_completion_audited:
  assumes "relay_completion gw rv a d = Some (r, audit, d')"
  shows "(audit = None) \<longleftrightarrow> (\<forall>fs. r \<noteq> Streamed fs)" and "r = StreamError e \<Longrightarrow> fst e = 502"
  using assms stream_reply_audited unfolding relay_completion_def by (meson assms option.inject)+

lemma relay_messages_audited:
  assumes "relay_messages gw rv a model d = Some (r, audit, d')"
  shows "(audit = None) \<longleftrightarrow> (\<forall>fs. r \<noteq> Streamed fs)" and "r = StreamError e \<Longrightarrow> fst e = 502"
  using assms message_reply_audited unfolding relay_messages_def by (meson assms option.inject)+

lemma served_forwarded:
  assumes "rv_user rv = Some u" and "check_rate_limit gw rv u st = (True, st1)"
    and "sanitize_messages (gw_limit gw) raw = Some messages"
    and "acquire_engine api gw rv model st1 = (Inr a, st2)"
    and "audited_reply u messages rep (send_upstream a (build_engine_request (gw_unmarshal gw) a data messages) st2) st4"
  shows "forwarded gw rv rep st (release_engine a st4)"
proof -
  have st1: "st1 = snd (check_rate_limit gw rv u st)" using assms(2) by simp
  have "slots_back (rv_waited rv) (as_slots st) (as_slots (release_engine a st2))"
    and same: "as_calls st2 = as_calls st" "as_log st2 = as_log st"
    using acquire_engine_admitted [OF assms(4)] unfolding st1 check_rate_limit_keeps by auto
  moreover have "as_slots (release_engine a st4) = as_slots (release_engine a st2)"
    using assms(5) by (simp add: audited_reply_def release_engine_def send_upstream_def Let_def)
  moreover have "as_calls (release_engine a st4) = as_calls st4" "as_log (release_engine a st4) = as_log st4"
    by (simp_all add: release_engine_def Let_def)
  moreover have "as_calls st4 = as_calls st @ [(ad_cfg a, build_engine_request (gw_unmarshal gw) a data messages)]"
    using assms(5) same by (simp add: audited_reply_def send_upstream_def)
  moreover have "if refusal rep then as_log st4 = as_log st
      else logged u messages (as_log st) (as_log st4)"
    using assms(5) same by (auto simp: audited_reply_def send_upstream_def split: if_splits)
  moreover have "fst (check_rate_limit gw rv u st)" using assms(2) by simp
  ultimately show ?thesis using assms(1,3) unfolding forwarded_def by metis
qed

lemma refused_untouched:
  assumes "check_rate_limit gw rv u st = (ok, st1)"
  shows "untouched rv st st1" and "acquire_engine api gw rv model st1 = (Inl e, st2) \<Longrightarrow> refusal e \<and> untouched rv st st2"
  using check_rate_limit_keeps [of gw rv u st] acquire_engine_refused [of api gw rv model st1 e st2] assms
  by (auto simp: untouched_def)

lemma run_completion_audited:
  assumes "run_completion gw rv u data messages model a st = Some (rep, st')"
  shows "audited_reply u messages rep st st'"
proof (cases "as_bool (idx data ''stream'')")
  case True
  with assms obtain r audit d where "relay_completion gw rv a (as_detail st) = Some (r, audit, d)"
      "finish_stream gw rv u messages model Stream (r, audit, d) st = (rep, st')"
    by (auto simp: run_completion_def)
  with relay_completion_audited finish_stream_audited show ?thesis by (metis refusal_simps(5))
next
  case False
  with assms show ?thesis
    by (auto simp: run_completion_def Let_def intro!: logged_reply intro: failed_call_audited split: sum.splits)
qed

lemma run_messages_audited:
  assumes "run_messages gw rv u data messages model a st = Some (rep, st')"
  shows "audited_reply u messages rep st st'"
proof (cases "as_bool (idx data ''stream'')")
  case True
  with assms obtain r audit d where "relay_messages gw rv a model (as_detail st) = Some (r, audit, d)"
      "finish_stream gw rv u messages model MessageStream (r, audit, d) st = (rep, st')"
    by (auto simp: run_messages_def)
  with relay_messages_audited finish_stream_audited show ?thesis by (metis refusal_simps(6))
next
  case False
  with assms show ?thesis
    by (auto simp: run_messages_def Let_def audited_reply_def [of u messages "answer x" for x] intro!: logged_reply intro: failed_call_audited
        split: sum.splits option.splits prod.splits)
qed

text \<open>The part of both handlers after the body is decoded and checked.\<close>

lemma admitted_effects:
  assumes "rv_user rv = Some u" and "check_rate_limit gw rv u st = (True, st1)"
    and "(case sanitize_messages (gw_limit gw) raw of
            None \<Rightarrow> Some (Panicked, st1)
          | Some messages \<Rightarrow>
              (case acquire_engine api gw rv model st1 of
                 (Inl e, st2) \<Rightarrow> Some (e, st2)
               | (Inr a, st2) \<Rightarrow>
                   map_option (\<lambda>(rep, st4). (rep, release_engine a st4))
                     (run messages a (send_upstream a (build_engine_request (gw_unmarshal gw) a data messages) st2)))) =
         Some (rep, st')"
    and run: "\<And>messages a st rep st'. run messages a st = Some (rep, st') \<Longrightarrow> audited_reply u messages rep st st'"
  shows "refusal rep \<and> untouched rv st st' \<or> forwarded gw rv rep st st'"
proof (cases "sanitize_messages (gw_limit gw) raw")
  case None
  with assms(3) refused_untouched(1) [OF assms(2)] show ?thesis by auto
next
  case (Some messages)
  obtain got st2 where acq: "acquire_engine api gw rv model st1 = (got, st2)" by fastforce
  show ?thesis
  proof (cases got)
    case (Inl e)
    with assms(3) Some acq refused_untouched(2) [OF assms(2), of api model e st2] show ?thesis by auto
  next
    case (Inr a)
    with assms(3) Some acq obtain st4 where
      "run messages a (send_upstream a (build_engine_request (gw_unmarshal gw) a data messages) st2) = Some (rep, st4)"
      "st' = release_engine a st4" by (auto split: prod.splits)
    with run acq Inr served_forwarded [OF assms(1,2) Some] show ?thesis by blast
  qed
qed

lemma handle_chat_completions_effects:
  assumes "handle_chat_completions gw rv st = Some (rep, st')"
  shows "refusal rep \<and> untouched rv st st' \<or> forwarded gw rv rep st st'"
proof (cases "rv_user rv")
  case None
  with assms show ?thesis by (auto simp: handle_chat_completions_def untouched_def)
next
  case (Some u)
  obtain ok st1 where rl: "check_rate_limit gw rv u st = (ok, st1)" by fastforce
  note steps = assms [unfolded handle_chat_completions_def Some option.case rl Let_def prod.case]
  show ?thesis
  proof (cases "ok \<and> (\<exists>data. decode_api_body OpenAIApi (rv_body rv) = Inr data \<and> map_of data ''messages'' \<noteq> None)")
    case False
    with steps refused_untouched(1) [OF rl] decode_refusal [of OpenAIApi "rv_body rv"] show ?thesis
      by (auto split: if_splits sum.splits)
  next
    case True
    then obtain data where "ok" "decode_api_body OpenAIApi (rv_body rv) = Inr data" "map_of data ''messages'' \<noteq> None"
      by blast
    with steps rl show ?thesis
      by (intro admitted_effects [OF Some, where run = "\<lambda>messages. run_completion gw rv u data messages (as_str (idx data ''model''))"])
        (auto intro: run_completion_audited)
  qed
qed

lemma handle_messages_effects:
  assumes "handle_messages gw rv st = Some (rep, st')"
  shows "refusal rep \<and> untouched rv st st' \<or> forwarded gw rv rep st st'"
proof (cases "rv_user rv")
  case None
  with assms show ?thesis by (auto simp: handle_messages_def untouched_def)
next
  case (Some u)
  obtain ok st1 where rl: "check_rate_limit gw rv u st = (ok, st1)" by fastforce
  note steps = assms [unfolded handle_messages_def Some option.case rl Let_def prod.case]
  show ?thesis
  proof (cases "ok \<and> (\<exists>body. decode_api_body AnthropicApi (rv_body rv) = Inr body \<and>
      as_str (idx body ''model'') \<noteq> [] \<and> is_arr (idx body ''messages''))")
    case False
    with steps refused_untouched(1) [OF rl] decode_refusal [of AnthropicApi "rv_body rv"] show ?thesis
      by (auto split: if_splits sum.splits)
  next
    case True
    then obtain body where "ok" "decode_api_body AnthropicApi (rv_body rv) = Inr body"
      "as_str (idx body ''model'') \<noteq> []" "is_arr (idx body ''messages'')" by blast
    moreover obtain data raw where "anthropic_to_openai (gw_marshal gw) body = (data, raw)" by fastforce
    ultimately show ?thesis using steps rl
      by (intro admitted_effects [OF Some, where run = "\<lambda>messages. run_messages gw rv u data messages (as_str (idx body ''model''))"])
        (auto intro: run_messages_audited)
  qed
qed

subsection \<open>A concrete request\<close>

text \<open>One engine, a limit of four bytes, one message of five.\<close>

definition api_engine :: engine_config where
  "api_engine = \<lparr>ec_id = 1, ec_name = ''e'', ec_type = engine_openai_compat, ec_base_url = ''h'', ec_port = 0, ec_api_key = []\<rparr>"

definition sample_gateway :: "unit gateway" where
  "sample_gateway =
     \<lparr>gw_store = \<lparr>es_row = None, es_cache = Some \<lparr>ch_engines = [api_engine],
        ch_adapters = [1 \<mapsto> \<lparr>ad_cfg = api_engine, ad_limiter = new_limiter 1\<rparr>]\<rparr>, es_changes = 0\<rparr>,
      gw_limit = 4, gw_fresh = (\<lambda>_. ()), gw_allow = (\<lambda>_ _. (True, ())), gw_marshal = (\<lambda>_. None),
      gw_unmarshal = (\<lambda>_. None), gw_line = (\<lambda>_. None), gw_encode_chunk = (\<lambda>_. []), gw_audit_chunk = (\<lambda>_. None),
      gw_stream_chunk = (\<lambda>_. None), gw_completion = (\<lambda>_. None), gw_message_json = (\<lambda>_. JNull),
      gw_valid = (\<lambda>_. False), gw_rnd = (\<lambda>_. []), gw_time = (\<lambda>_. [])\<rparr>"

definition sample_request :: "obj \<Rightarrow> request_env" where
  "sample_request body =
     \<lparr>rv_user = Some \<lparr>us_id = 7, us_name = ''u'', us_api_key = [], us_status = ''active'', us_rate_limit = 10, us_created_at = []\<rparr>,
      rv_body = BodyJson (JObj body), rv_now = 1, rv_draws = 0, rv_others = id, rv_arrivals = ([], []),
      rv_clock = (1, 1), rv_pick = True, rv_waited = id, rv_gone = False, rv_chat = Inl [(''model'', JStr ''m'')],
      rv_stream = Inr [], rv_room = None, rv_reads = []\<rparr>"

definition sample_chat :: request_env where
  "sample_chat = sample_request [(''messages'', JArr [JObj [(''role'', JStr ''user''), (''content'', JStr ''hello'')]])]"

definition sample_state :: "unit api_state" where
  "sample_state =
     \<lparr>as_limiters = Map.empty, as_route = \<lparr>rs_index = None, rs_gen = 0, rs_refreshing = False\<rparr>,
      as_slots = (\<lambda>_. new_limiter 1), as_calls = [], as_log = new_writer, as_detail = None\<rparr>"

lemma sample_run:
  "\<exists>st'. handle_chat_completions sample_gateway sample_chat sample_state =
     Some (Answer 200 (PayloadBody (PMap [(''model'', JStr ''m'')])), st') \<and> length (as_calls st') = 1 \<and> as_slots st' 1 = new_limiter 1"
  by (simp add: handle_chat_completions_def sample_chat_def sample_request_def sample_gateway_def sample_state_def api_engine_def
     check_rate_limit_def is_allowed_def limiter_entry_def decode_api_body_def sanitize_messages_def acquire_engine_def
     select_engine_def cached_engines_def routed_default_def default_engine_def cached_adapters_by_type_def cached_adapter_def
     acquire_slot_def try_acquire_def new_limiter_def send_upstream_def run_completion_def engine_payload_def
     log_interaction_def release_engine_def engine_ollama_def engine_openai_compat_def List.map_filter_def
     build_engine_request_def sanitize_message_def sanitize_content_def truncate_input_def rune_start_def release_def numeral_eq_Suc Let_def)

lemma sample_fields:
  "map_option us_id (rv_user sample_chat) = Some 7" "rv_waited sample_chat = id" "0 \<le> gw_limit sample_gateway"
  "as_calls sample_state = []" "as_slots sample_state = (\<lambda>_. new_limiter 1)" "as_log sample_state = new_writer"
  by (simp_all add: sample_chat_def sample_request_def sample_gateway_def sample_state_def)

subsection \<open>Guarantees of a completion request\<close>

lemma request_effects:
  "handle_chat_completions gw rv st = Some (rep, st') \<or> handle_messages gw rv st = Some (rep, st') \<Longrightarrow>
   refusal rep \<and> untouched rv st st' \<or> forwarded gw rv rep st st'"
  using handle_chat_completions_effects handle_messages_effects by blast

text \<open>
  An engine is called at most once per request, and only for an authenticated user within
  the rate limit; what it is sent is built from sanitised messages, each within the limit.
\<close>

theorem engine_calls_admitted:
  assumes "handle_chat_completions gw rv st = Some (rep, st') \<or> handle_messages gw rv st = Some (rep, st')"
    and "as_calls st' \<noteq> as_calls st" and "0 \<le> gw_limit gw"
  shows "\<exists>u a data messages. rv_user rv = Some u \<and>
    fst (is_allowed (gw_fresh gw) (gw_allow gw) (rv_now rv) (us_id u) (us_rate_limit u) (as_limiters st)) \<and>
    list_all (\<lambda>m. content_fits (gw_limit gw) (idx m ''content'')) messages \<and>
    as_calls st' = as_calls st @ [(ad_cfg a, build_engine_request (gw_unmarshal gw) a data messages)]"
proof -
  have "forwarded gw rv rep st st'"
    using request_effects [OF assms(1)] assms(2) by (auto simp: untouched_def)
  then obtain u a data messages raw where
    f: "rv_user rv = Some u" "fst (check_rate_limit gw rv u st)" "sanitize_messages (gw_limit gw) raw = Some messages"
      "as_calls st' = as_calls st @ [(ad_cfg a, build_engine_request (gw_unmarshal gw) a data messages)]"
    by (auto simp: forwarded_def)
  have "list_all (\<lambda>m. content_fits (gw_limit gw) (idx m ''content'')) messages"
    using sanitized_fit [OF assms(3) f(3)] .
  with f show ?thesis by (auto simp: check_rate_limit_def Let_def case_prod_beta)
qed

lemma engine_calls_admitted_witness:
  "\<exists>u. rv_user sample_chat = Some u \<and>
     fst (is_allowed (gw_fresh sample_gateway) (gw_allow sample_gateway) (rv_now sample_chat) (us_id u) (us_rate_limit u)
            (as_limiters sample_state))"
proof -
  obtain rep st' where st': "handle_chat_completions sample_gateway sample_chat sample_state = Some (rep, st')"
      "length (as_calls st') = 1"
    using sample_run by blast
  then have "as_calls st' \<noteq> as_calls sample_state" by (auto simp: sample_fields)
  from engine_calls_admitted [OF disjI1 [OF st'(1)] this] show ?thesis by (auto simp: sample_fields)
qed







subsection \<open>GET /v1/models\<close>

text \<open>
  \<open>parse\<close> and \<open>fmt\<close> are the time package's reading of an Ollama timestamp and writing of an
  instant. \<open>seen\<close> holds the names listed so far.
\<close>

definition list_entry ::
  "(string \<Rightarrow> int option) \<Rightarrow> (int \<Rightarrow> string) \<Rightarrow> int \<Rightarrow> string \<Rightarrow> obj \<Rightarrow> model_entry" where
  "list_entry parse fmt now owner m =
     (let name = model_name m;
          sent = (case idx m ''created'' of JNum a e \<Rightarrow> if a = 0 then None else Some (float_to_int a e) | _ \<Rightarrow> None);
          created = (case sent of Some c \<Rightarrow> c | None \<Rightarrow> parse_ollama_ts parse now (as_str (idx m ''modified_at'')))
      in \<lparr>m_id = name, m_object = ''model'', m_created = created, m_owned_by = owner, m_type = ''model'',
          m_display_name = name, m_created_at = fmt created, m_size = to_int (idx m ''size'')\<rparr>)"

definition list_model ::
  "(string \<Rightarrow> int option) \<Rightarrow> (int \<Rightarrow> string) \<Rightarrow> int \<Rightarrow> string \<Rightarrow> model_entry list \<times> string list \<Rightarrow> obj \<Rightarrow>
   model_entry list \<times> string list" where
  "list_model parse fmt now owner acc m =
     (let (entries, seen) = acc; name = model_name m in
      if name = [] \<or> name \<in> set seen then acc
      else (entries @ [list_entry parse fmt now owner m], name # seen))"

definition list_engine ::
  "(string \<Rightarrow> int option) \<Rightarrow> (int \<Rightarrow> string) \<Rightarrow> int \<Rightarrow> (int \<rightharpoonup> probe_data) \<Rightarrow>
   (model_entry list \<times> string list) \<times> nat \<Rightarrow> engine_config \<Rightarrow> (model_entry list \<times> string list) \<times> nat" where
  "list_engine parse fmt now snap acc e =
     (case snap (ec_id e) of
        None \<Rightarrow> acc
      | Some pd \<Rightarrow>
          if \<not> pd_status pd then acc
          else (foldl (list_model parse fmt now (ec_type e)) (fst acc) (pd_raw pd), snd acc + 1))"

text \<open>
  \<open>warm\<close> is what the bounded wait of a cold start does to the probe cache. The second result:
  whether a refresh is started behind the response. No engine has an entry exactly when the
  snapshot is empty.
\<close>

definition catalogue_reply ::
  "(string \<Rightarrow> int option) \<Rightarrow> (int \<Rightarrow> string) \<Rightarrow> int \<Rightarrow> engine_config list \<Rightarrow> (int \<rightharpoonup> probe_data) \<times> bool \<Rightarrow>
   (int \<times> reply_body) \<times> bool" where
  "catalogue_reply parse fmt now es snapshot =
     (let ((entries, _), reachable) = foldl (list_engine parse fmt now (fst snapshot)) (([], []), 0) es
      in if reachable = 0 then (write_error OpenAIApi 502 ''Could not reach any engine'' ''api_error'', snd snapshot)
         else ((200, ModelsBody \<lparr>ml_object = ''list'', ml_data = entries, ml_has_more = False,
                  ml_first_id = (case entries of [] \<Rightarrow> None | m # _ \<Rightarrow> Some (m_id m)),
                  ml_last_id = (if entries = [] then None else Some (m_id (last entries)))\<rparr>), snd snapshot))"

definition handle_list_models ::
  "(string \<Rightarrow> int option) \<Rightarrow> (int \<Rightarrow> string) \<Rightarrow> int \<Rightarrow> user option \<Rightarrow> engine_store \<Rightarrow> (probe_cache \<Rightarrow> probe_cache) \<Rightarrow>
   probe_cache \<Rightarrow> (int \<times> reply_body) \<times> bool" where
  "handle_list_models parse fmt now usr st warm pc =
     (if usr = None then (write_error OpenAIApi 401 ''Invalid API key'' ''authentication_error'', False)
      else if cached_engines st = [] then (write_error OpenAIApi 502 ''No engines configured'' ''api_error'', False)
      else
        let snapshot = cached_probe_snapshot now st pc;
            cold = list_all (\<lambda>e. fst snapshot (ec_id e) = None) (cached_engines st)
        in catalogue_reply parse fmt now (cached_engines st)
             (if cold then cached_probe_snapshot now st (warm pc) else snapshot))"

text \<open>The models an engine of the snapshot offers, and the catalogue of the first engines.\<close>

definition offers :: "(int \<rightharpoonup> probe_data) \<Rightarrow> engine_config \<Rightarrow> string list" where
  "offers snap e =
     (case snap (ec_id e) of
        None \<Rightarrow> []
      | Some pd \<Rightarrow> if pd_status pd then filter (\<lambda>n. n \<noteq> []) (map model_name (pd_raw pd)) else [])"

definition first_owner :: "(int \<rightharpoonup> probe_data) \<Rightarrow> engine_config list \<Rightarrow> string \<Rightarrow> string option" where
  "first_owner snap es n = map_option ec_type (List.find (\<lambda>e. n \<in> set (offers snap e)) es)"

definition catalogue_of :: "(string \<rightharpoonup> string) \<Rightarrow> model_entry list \<times> string list \<Rightarrow> bool" where
  "catalogue_of own acc \<longleftrightarrow>
     (case acc of (entries, seen) \<Rightarrow>
        distinct (map m_id entries) \<and> set seen = set (map m_id entries) \<and>
        (\<forall>n. (n \<in> set (map m_id entries)) = (own n \<noteq> None)) \<and>
        (\<forall>m \<in> set entries. own (m_id m) = Some (m_owned_by m)))"

lemma list_entry_fields [simp]:
  "m_id (list_entry parse fmt now owner m) = model_name m" "m_owned_by (list_entry parse fmt now owner m) = owner"
  by (simp_all add: list_entry_def Let_def)

lemma catalogue_models:
  assumes "catalogue_of own acc"
  shows "catalogue_of (\<lambda>n. case own n of Some t \<Rightarrow> Some t
           | None \<Rightarrow> if n \<noteq> [] \<and> n \<in> set (map model_name ms) then Some owner else None)
         (foldl (list_model parse fmt now owner) acc ms)"
  using assms
proof (induction ms arbitrary: own acc)
  case Nil
  then show ?case by (simp add: catalogue_of_def option.case_eq_if case_prod_beta)
next
  case (Cons m ms)
  let ?own = "\<lambda>n. case own n of Some t \<Rightarrow> Some t | None \<Rightarrow> if n \<noteq> [] \<and> n = model_name m then Some owner else None"
  have "catalogue_of ?own (list_model parse fmt now owner acc m)"
    using Cons.prems
    by (auto simp: catalogue_of_def list_model_def Let_def case_prod_beta split: option.splits if_splits)
  from Cons.IH [OF this] have "catalogue_of (\<lambda>n. case ?own n of Some t \<Rightarrow> Some t
      | None \<Rightarrow> if n \<noteq> [] \<and> n \<in> set (map model_name ms) then Some owner else None)
    (foldl (list_model parse fmt now owner) acc (m # ms))" by simp
  moreover have "(\<lambda>n. case ?own n of Some t \<Rightarrow> Some t
      | None \<Rightarrow> if n \<noteq> [] \<and> n \<in> set (map model_name ms) then Some owner else None) =
    (\<lambda>n. case own n of Some t \<Rightarrow> Some t
      | None \<Rightarrow> if n \<noteq> [] \<and> n \<in> set (map model_name (m # ms)) then Some owner else None)"
    by (rule ext) (auto split: option.split)
  ultimately show ?case by simp
qed

lemma catalogue_engines:
  assumes "catalogue_of own (fst acc)"
  shows "catalogue_of (\<lambda>n. case own n of Some t \<Rightarrow> Some t | None \<Rightarrow> first_owner snap es n)
    (fst (foldl (list_engine parse fmt now snap) acc es))"
  using assms
proof (induction es arbitrary: own acc)
  case Nil
  then show ?case by (simp add: first_owner_def catalogue_of_def option.case_eq_if case_prod_beta)
next
  case (Cons e es)
  let ?own = "\<lambda>n. case own n of Some t \<Rightarrow> Some t | None \<Rightarrow> if n \<in> set (offers snap e) then Some (ec_type e) else None"
  have "catalogue_of ?own (fst (list_engine parse fmt now snap acc e))"
  proof (cases "snap (ec_id e)")
    case None
    then have "?own = own" by (intro ext) (simp add: offers_def split: option.split)
    with None Cons.prems show ?thesis by (simp add: list_engine_def)
  next
    case (Some pd)
    show ?thesis
    proof (cases "pd_status pd")
      case True
      with Some have "?own = (\<lambda>n. case own n of Some t \<Rightarrow> Some t
          | None \<Rightarrow> if n \<noteq> [] \<and> n \<in> set (map model_name (pd_raw pd)) then Some (ec_type e) else None)"
        by (intro ext) (auto simp: offers_def split: option.split)
      with catalogue_models [OF Cons.prems, of "pd_raw pd" "ec_type e" parse fmt now] Some True show ?thesis
        by (simp add: list_engine_def)
    next
      case False
      with Some have "?own = own" by (intro ext) (simp add: offers_def split: option.split)
      with Some False Cons.prems show ?thesis by (simp add: list_engine_def)
    qed
  qed
  from Cons.IH [OF this] have "catalogue_of (\<lambda>n. case ?own n of Some t \<Rightarrow> Some t | None \<Rightarrow> first_owner snap es n)
      (fst (foldl (list_engine parse fmt now snap) acc (e # es)))" by simp
  moreover have "(\<lambda>n. case ?own n of Some t \<Rightarrow> Some t | None \<Rightarrow> first_owner snap es n) =
      (\<lambda>n. case own n of Some t \<Rightarrow> Some t | None \<Rightarrow> first_owner snap (e # es) n)"
    by (rule ext) (simp add: first_owner_def split: option.split)
  ultimately show ?case by simp
qed

lemma first_owner_None: "first_owner snap es n = None \<longleftrightarrow> (\<forall>e \<in> set es. n \<notin> set (offers snap e))"
  by (auto simp: first_owner_def find_None_iff)

lemma catalogue_reply_data:
  "catalogue_reply parse fmt now es x = ((200, ModelsBody l), stale) \<Longrightarrow>
   ml_data l = fst (fst (foldl (list_engine parse fmt now (fst x)) (([], []), 0) es))"
  by (auto simp: catalogue_reply_def write_error_def Let_def case_prod_beta split: if_splits)

text \<open>
  The catalogue lists every model an online engine offers, once, under the type of the first
  engine in configuration order that has it, and nothing else; it is read from the cached probes,
  or from those of the cold start's bounded wait.
\<close>

theorem models_listed:
  assumes "handle_list_models parse fmt now usr st warm pc = ((200, ModelsBody l), stale)"
  shows "\<exists>snap. (snap = fst (cached_probe_snapshot now st pc) \<or> snap = fst (cached_probe_snapshot now st (warm pc))) \<and>
    distinct (map m_id (ml_data l)) \<and>
    set (map m_id (ml_data l)) = (\<Union>e \<in> set (cached_engines st). set (offers snap e)) \<and>
    list_all (\<lambda>m. first_owner snap (cached_engines st) (m_id m) = Some (m_owned_by m)) (ml_data l)"
proof -
  have "\<exists>x. (x = cached_probe_snapshot now st pc \<or> x = cached_probe_snapshot now st (warm pc)) \<and>
      catalogue_reply parse fmt now (cached_engines st) x = ((200, ModelsBody l), stale)"
    using assms by (simp add: handle_list_models_def write_error_def Let_def del: split_paired_Ex split: if_splits) blast+
  then obtain snap where snap: "snap = fst (cached_probe_snapshot now st pc) \<or> snap = fst (cached_probe_snapshot now st (warm pc))"
    and l: "ml_data l = fst (fst (foldl (list_engine parse fmt now snap) (([], []), 0) (cached_engines st)))"
    using catalogue_reply_data by metis
  have "catalogue_of (first_owner snap (cached_engines st))
      (fst (foldl (list_engine parse fmt now snap) (([], []), 0) (cached_engines st)))"
    using catalogue_engines [of Map.empty "(([], []), 0)" snap "cached_engines st" parse fmt now]
    by (simp add: catalogue_of_def)
  then have "distinct (map m_id (ml_data l))"
      "\<forall>n. n \<in> set (map m_id (ml_data l)) \<longleftrightarrow> first_owner snap (cached_engines st) n \<noteq> None"
      "\<forall>m \<in> set (ml_data l). first_owner snap (cached_engines st) (m_id m) = Some (m_owned_by m)"
    by (simp_all add: catalogue_of_def l case_prod_beta)
  with snap show ?thesis by (intro exI [of _ snap]) (auto simp: first_owner_None list_all_iff)
qed

definition sample_probe :: probe_cache where
  "sample_probe =
     \<lparr>pc_entries = [1 \<mapsto> \<lparr>pe_data = \<lparr>pd_status = True, pd_models = [''m''], pd_details = [], pd_raw = [[(''id'', JStr ''m'')]]\<rparr>,
                            pe_expiry = 9, pe_inflight = None\<rparr>], pc_gen = 0\<rparr>"

lemma models_listed_witness:
  "\<exists>l. handle_list_models (\<lambda>_. None) (\<lambda>_. []) 1 (rv_user sample_chat) (gw_store sample_gateway) id sample_probe =
     ((200, ModelsBody l), False) \<and> distinct (map m_id (ml_data l)) \<and> length (ml_data l) = 1"
proof -
  obtain l where l: "handle_list_models (\<lambda>_. None) (\<lambda>_. []) 1 (rv_user sample_chat) (gw_store sample_gateway) id sample_probe =
     ((200, ModelsBody l), False)" "length (ml_data l) = 1"
    by (simp add: handle_list_models_def catalogue_reply_def sample_chat_def sample_request_def sample_gateway_def sample_probe_def api_engine_def
        cached_engines_def cached_probe_snapshot_def peek_probe_data_def list_engine_def list_model_def model_name_def Let_def)
  with models_listed [OF l(1)] show ?thesis by blast
qed

end
