(* ===== verification/Gateway.thy ===== *)
theory Gateway
  imports Http_Layer Api_Handlers
begin

section \<open>The API end to end: the middleware around its handlers\<close>

text \<open>
  Http\_Layer runs any handler inside the six layers; Api\_Handlers models the handlers of the
  API as functions of the state they share. Here the two meet: \<open>api_handler\<close> dispatches on the
  path as the routes do, hands the handler the user the middleware resolved and the request's
  detail, and turns its reply into what is written on the response. \<open>ft_stream\<close> and
  \<open>ft_message\<close> are the text of one frame, \<open>encoding/json\<close>'s part.
\<close>

record frame_text =
  ft_stream :: "string sse \<Rightarrow> string"
  ft_message :: "message_frame \<Rightarrow> string"

definition json_acts :: "int \<Rightarrow> reply_body \<Rightarrow> act list" where
  "json_acts status body = [SetHeader ''Content-Type'' ''application/json'', WriteHeader status, Write (JsonOut body)]"

definition stream_head :: "act list" where
  "stream_head =
     [SetHeader ''Content-Type'' ''text/event-stream'', SetHeader ''X-Accel-Buffering'' ''no'',
      SetHeader ''Cache-Control'' ''no-cache'', WriteHeader 200]"

definition frame_acts :: "('f \<Rightarrow> string) \<Rightarrow> 'f list \<Rightarrow> act list" where
  "frame_acts txt fs = concat (map (\<lambda>f. [Write (Bytes (txt f)), Flush]) fs)"

fun api_acts :: "frame_text \<Rightarrow> api_reply \<Rightarrow> act list" where
  "api_acts txt (Answer status body) = json_acts status body"
| "api_acts txt (Busy e) = SetHeader ''Retry-After'' ''2'' # json_acts (fst e) (snd e)"
| "api_acts txt (Stream fs) = stream_head @ [Flush] @ frame_acts (ft_stream txt) fs"
| "api_acts txt (MessageStream fs) = stream_head @ frame_acts (ft_message txt) fs"
| "api_acts txt NoReply = []"
| "api_acts txt Panicked = []"

definition run_api :: "'b gateway \<Rightarrow> request_env \<Rightarrow> string \<Rightarrow> 'b api_state \<Rightarrow> (api_reply \<times> 'b api_state) option" where
  "run_api gw rv path st =
     (if path = ''/v1/chat/completions'' then handle_chat_completions gw rv st
      else if path = ''/v1/messages'' then handle_messages gw rv st
      else if path = ''/v1/messages/count_tokens'' then handle_count_tokens gw rv st
      else None)"

text \<open>While a stream it relays has not ended a handler has done nothing that can be read off yet.\<close>

definition api_handler :: "'b gateway \<Rightarrow> frame_text \<Rightarrow> request_env \<Rightarrow> 'b api_state handler" where
  "api_handler gw txt rv rq usr d st =
     (case run_api gw (rv\<lparr>rv_user := usr\<rparr>) (hr_path rq) (st\<lparr>as_detail := d\<rparr>) of
        None \<Rightarrow> ([], d, st, False)
      | Some (rep, st1) \<Rightarrow> (api_acts txt rep, as_detail st1, st1, rep = Panicked))"

subsection \<open>The handlers keep to what the layers need\<close>

lemma frame_acts_settle [simp]: "settles True (frame_acts txt fs)"
  by (induction fs) (simp_all add: frame_acts_def)

lemma api_acts_settle: "settles False (api_acts txt rep)"
  by (cases rep) (simp_all add: json_acts_def stream_head_def)

lemma api_handler_settled: "write_settled (api_handler gw txt rv)"
  using api_acts_settle by (simp add: write_settled_def api_handler_def split: option.split)

lemma count_tokens_calls: "handle_count_tokens gw rv st = Some (rep, st') \<Longrightarrow> as_calls st' = as_calls st"
  by (auto simp: handle_count_tokens_def check_rate_limit_keeps Let_def case_prod_beta split: option.splits if_splits sum.splits)

lemma api_run_effects:
  assumes "run_api gw rv path st = Some (rep, st')" and "as_calls st' \<noteq> as_calls st"
  shows "forwarded gw rv rep st st'"
proof -
  have "handle_chat_completions gw rv st = Some (rep, st') \<or> handle_messages gw rv st = Some (rep, st')"
    using assms count_tokens_calls [of gw rv st rep st'] by (auto simp: run_api_def split: if_splits)
  with request_effects [of gw rv st rep st'] assms(2) show ?thesis by (auto simp: untouched_def)
qed

subsection \<open>Engine calls end to end\<close>

text \<open>
  Whatever request arrives, an engine is called for it only if it carries the key of an active
  user of the users table, within that user's own rate limit; it is called once, with messages
  within the limit; and the interaction log gains nothing or one entry under that user's id, with
  the messages the engine was sent.
\<close>

theorem gateway_serves_active_users:
  assumes "users_coherent (wd_users (xc_world x)) (wd_cache (xc_world x))" and "0 \<le> gw_limit gw"
    and "fst (middleware_chain env (serve (api_handler gw txt rv)) rq None x) = x'"
    and "as_calls (app x') \<noteq> as_calls (app x)"
  shows "\<exists>u a data messages. us_status u = ''active'' \<and>
    find_user (ApiKey (he_hash env (api_key_from_request rq))) (wd_users (xc_world x)) = Some u \<and>
    fst (is_allowed (gw_fresh gw) (gw_allow gw) (rv_now rv) (us_id u) (us_rate_limit u) (as_limiters (app x))) \<and>
    list_all (\<lambda>m. content_fits (gw_limit gw) (idx m ''content'')) messages \<and>
    as_calls (app x') = as_calls (app x) @ [(ad_cfg a, build_engine_request (gw_unmarshal gw) a data messages)] \<and>
    (as_log (app x') = as_log (app x) \<or>
     (\<exists>e. as_log (app x') = enqueue e (as_log (app x)) \<and> ie_user e = us_id u \<and> ie_prompt e = Inr (JArr (map JObj messages))))"
proof -
  have "app (fst (middleware_chain env (serve (api_handler gw txt rv)) rq None x)) \<noteq> app x" using assms(3,4) by auto
  from reachesD [OF chain_reaches this] obtain u d where
      ran: "app x' = fst (snd (snd (api_handler gw txt rv rq u d (app x))))"
      "if api_path rq \<and> hr_method rq \<noteq> ''OPTIONS'' then \<exists>v. u = Some v \<and> authenticated env rq (xc_world x) v else u = None"
    using assms(3) by blast
  let ?rv = "rv\<lparr>rv_user := u\<rparr>" let ?st = "(app x)\<lparr>as_detail := d\<rparr>"
  obtain rep where run: "run_api gw ?rv (hr_path rq) ?st = Some (rep, app x')"
    using ran(1) assms(4) by (auto simp: api_handler_def split: option.splits)
  have "as_calls (app x') \<noteq> as_calls ?st" using assms(4) by simp
  from api_run_effects [OF run this] obtain v a data messages raw where
      f: "u = Some v" "fst (check_rate_limit gw ?rv v ?st)" "sanitize_messages (gw_limit gw) raw = Some messages"
      "as_calls (app x') = as_calls (app x) @ [(ad_cfg a, build_engine_request (gw_unmarshal gw) a data messages)]"
      "if refusal rep then as_log (app x') = as_log ?st else logged v messages (as_log ?st) (as_log (app x'))"
    by (auto simp: forwarded_def)
  have "authenticated env rq (xc_world x) v" using ran(2) f(1) by (auto split: if_splits)
  note owner = authenticated_owner [OF assms(1) this]
  have "list_all (\<lambda>m. content_fits (gw_limit gw) (idx m ''content'')) messages"
    by (rule sanitized_fit [OF assms(2) f(3)])
  moreover have "fst (is_allowed (gw_fresh gw) (gw_allow gw) (rv_now rv) (us_id v) (us_rate_limit v) (as_limiters (app x)))"
    using f(2) by (simp add: check_rate_limit_def Let_def case_prod_beta)
  moreover have "as_log (app x') = as_log (app x) \<or>
      (\<exists>e. as_log (app x') = enqueue e (as_log (app x)) \<and> ie_user e = us_id v \<and> ie_prompt e = Inr (JArr (map JObj messages)))"
    using f(5) by (auto simp: logged_def split: if_splits)
  ultimately show ?thesis using owner f(4) by blast
qed

subsection \<open>A chat request from its first byte to its engine\<close>

definition gateway_exchange :: "unit api_state exchange" where
  "gateway_exchange =
     \<lparr>xc_resp = new_recorder, xc_detail = None,
      xc_world = \<lparr>wd_app = sample_state, wd_users = sample_users, wd_cache = [], wd_log = new_writer, wd_total = [],
                  wd_inflight = (\<lambda>_. 0), wd_panics = []\<rparr>\<rparr>"

definition plain_frames :: frame_text where
  "plain_frames = \<lparr>ft_stream = (\<lambda>_. []), ft_message = (\<lambda>_. [])\<rparr>"

lemma gateway_handler_run:
  assumes "0 < us_rate_limit u"
  shows "length (as_calls (fst (snd (snd (api_handler sample_gateway plain_frames sample_chat Http_Layer.sample_request (Some u) d
           sample_state))))) = 1"
  using assms
  by (simp add: api_handler_def run_api_def Http_Layer.sample_request_def handle_chat_completions_def sample_chat_def
     Api_Handlers.sample_request_def sample_gateway_def sample_state_def api_engine_def
     check_rate_limit_def is_allowed_def limiter_entry_def decode_api_body_def sanitize_messages_def acquire_engine_def
     select_engine_def cached_engines_def routed_default_def default_engine_def cached_adapters_by_type_def cached_adapter_def
     acquire_slot_def try_acquire_def new_limiter_def send_upstream_def run_completion_def engine_payload_def
     log_interaction_def release_engine_def engine_ollama_def engine_openai_compat_def List.map_filter_def
     build_engine_request_def sanitize_message_def sanitize_content_def truncate_input_def rune_start_def release_def numeral_eq_Suc Let_def)

lemma gateway_user:
  "\<exists>u c. get_user_by_api_key id False 5 ''h'' sample_users [] = (Found u, c) \<and> us_status u = ''active'' \<and> 0 < us_rate_limit u"
  by (simp add: get_user_by_api_key_def get_user_def user_cache_get_def find_user_def key_fits_def sample_users_def)

lemma gateway_fields:
  "xc_world gateway_exchange =
     \<lparr>wd_app = sample_state, wd_users = sample_users, wd_cache = [], wd_log = new_writer, wd_total = [],
      wd_inflight = (\<lambda>_. 0), wd_panics = []\<rparr>"
  "he_hash sample_env = id" "he_fault sample_env = False" "he_now sample_env = 5"
  by (simp_all add: gateway_exchange_def sample_env_def)

lemma gateway_run:
  "length (as_calls (app (fst (middleware_chain sample_env (serve (api_handler sample_gateway plain_frames sample_chat))
     Http_Layer.sample_request None gateway_exchange)))) = 1"
proof -
  obtain u c where u: "get_user_by_api_key id False 5 ''h'' sample_users [] = (Found u, c)" "us_status u = ''active''"
    "0 < us_rate_limit u" using gateway_user by blast
  show ?thesis
    using u gateway_handler_run [OF u(3)]
    by (simp add: middleware_chain_def metrics_middleware_def recovery_middleware_def cors_middleware_def
        api_auth_middleware_def csrf_middleware_def request_logging_middleware_def serve_def sample_path gateway_fields
        case_prod_beta Let_def)
qed

lemma gateway_serves_active_users_witness:
  "\<exists>u. us_status u = ''active'' \<and> find_user (ApiKey ''h'') sample_users = Some u"
proof -
  let ?x = "fst (middleware_chain sample_env (serve (api_handler sample_gateway plain_frames sample_chat))
     Http_Layer.sample_request None gateway_exchange)"
  have "users_coherent (wd_users (xc_world gateway_exchange)) (wd_cache (xc_world gateway_exchange))"
    by (simp add: gateway_fields uc.coherent_def cache_holds_def)
  moreover have "as_calls (app ?x) \<noteq> as_calls (app gateway_exchange)"
    using gateway_run by (auto simp: gateway_fields Api_Handlers.sample_fields)
  ultimately show ?thesis
    using gateway_serves_active_users [OF _ Api_Handlers.sample_fields(3) refl, of gateway_exchange sample_env plain_frames
        sample_chat Http_Layer.sample_request]
    by (auto simp: gateway_fields sample_path)
qed

end

