(* ===== verification/Auth.thy ===== *)
theory Auth
  imports Text_Bounds
begin

section \<open>auth.go: passwords, names and the admin login guard\<close>

text \<open>
  The pbkdf2 derivation is third-party code and enters as \<open>derive password salt iterations\<close>,
  the raw key; the salt's random bytes are an argument. \<open>login_guard\<close> is the throttle of
  \<open>handleAdminLogin\<close>. The lemmas show the hash round trip, the invariant of the
  guard and the bound on password guesses that it gives.
\<close>

subsection \<open>Password hashes\<close>

definition hex_digit :: "nat \<Rightarrow> char" where
  "hex_digit d = ''0123456789abcdef'' ! d"

definition hex_byte :: "char \<Rightarrow> string" where
  "hex_byte c = [hex_digit (byte c div 16), hex_digit (byte c mod 16)]"

definition hex_encode :: "string \<Rightarrow> string" where
  "hex_encode bs = concat (map hex_byte bs)"

definition hash_password ::
  "(string \<Rightarrow> string \<Rightarrow> int \<Rightarrow> string) \<Rightarrow> string \<Rightarrow> string \<Rightarrow> string" where
  "hash_password derive salt_bytes password =
     (let salt = hex_encode salt_bytes; iterations = 260000;
          hash = hex_encode (derive password salt iterations)
      in ''pbkdf2:sha256:'' @ itoa iterations @ ''$'' @ salt @ ''$'' @ hash)"

definition verify_password ::
  "(string \<Rightarrow> string \<Rightarrow> int \<Rightarrow> string) \<Rightarrow> string \<Rightarrow> string \<Rightarrow> bool" where
  "verify_password derive hash_str password =
     (case split_n 3 CHR ''$'' hash_str of
        [p0, p1, p2] \<Rightarrow>
          (case split_on CHR '':'' p0 of
             m0 # m1 # m2 # _ \<Rightarrow>
               if m0 \<noteq> ''pbkdf2'' \<or> m1 \<noteq> ''sha256'' then False
               else (case atoi m2 of
                       None \<Rightarrow> False
                     | Some iterations \<Rightarrow>
                         if iterations \<le> 0 then False
                         else hex_encode (derive password p1 iterations) = p2)
           | _ \<Rightarrow> False)
      | _ \<Rightarrow> False)"

lemma hex_digit_set: "d < 16 \<Longrightarrow> hex_digit d \<in> set ''0123456789abcdef''"
  unfolding hex_digit_def by (intro nth_mem) simp

lemma hex_digit_inj: "d < 16 \<Longrightarrow> e < 16 \<Longrightarrow> hex_digit d = hex_digit e \<Longrightarrow> d = e"
  unfolding hex_digit_def by (subst (asm) nth_eq_iff_index_eq) simp_all

lemma byte_less: "byte c < 256"
  by simp

lemma byte_inj: "byte c = byte d \<longleftrightarrow> c = d"
  by simp

lemma hex_byte_inj: "hex_byte c = hex_byte d \<Longrightarrow> c = d"
proof -
  assume eq: "hex_byte c = hex_byte d"
  have "byte c div 16 < 16" "byte d div 16 < 16"
    using byte_less [of c] byte_less [of d] by (simp_all add: less_mult_imp_div_less)
  with eq have "byte c div 16 = byte d div 16" "byte c mod 16 = byte d mod 16"
    by (auto simp: hex_byte_def intro: hex_digit_inj)
  then have "byte c = byte d" by (metis div_mult_mod_eq)
  then show ?thesis by simp
qed

lemma hex_encode_set: "set (hex_encode bs) \<subseteq> set ''0123456789abcdef''"
proof (induction bs)
  case Nil
  then show ?case by (simp add: hex_encode_def)
next
  case (Cons b bs)
  have "byte b div 16 < 16" "byte b mod 16 < 16"
    using byte_less [of b] by (simp_all add: less_mult_imp_div_less)
  then have "set (hex_byte b) \<subseteq> set ''0123456789abcdef''"
    unfolding hex_byte_def using hex_digit_set by (metis list.set_intros(1) empty_subsetI insert_subset list.set(1) list.set(2))
  with Cons.IH show ?case by (simp add: hex_encode_def)
qed

lemma hex_encode_inj: "hex_encode xs = hex_encode ys \<Longrightarrow> xs = ys"
proof (induction xs arbitrary: ys)
  case Nil
  then show ?case by (cases ys) (simp_all add: hex_encode_def hex_byte_def)
next
  case (Cons x xs)
  then obtain y ys' where ys: "ys = y # ys'" by (cases ys) (auto simp: hex_encode_def hex_byte_def)
  with Cons.prems have "hex_byte x = hex_byte y" "hex_encode xs = hex_encode ys'"
    by (simp_all add: hex_encode_def hex_byte_def)
  with Cons.IH ys show ?case by (auto dest: hex_byte_inj)
qed

lemma cut_char: "d \<notin> set b \<Longrightarrow> cut (b @ d # a) [d] = Some (b, a)"
  by (induction b) (auto simp: has_prefix_def)

lemma split_password_hash:
  "CHR ''$'' \<notin> set p0 \<Longrightarrow> CHR ''$'' \<notin> set p1 \<Longrightarrow>
   split_n 3 CHR ''$'' (p0 @ ''$'' @ p1 @ ''$'' @ p2) = [p0, p1, p2]"
  using cut_char [of "CHR ''$''" p0 "p1 @ ''$'' @ p2"] cut_char [of "CHR ''$''" p1 p2]
  by (simp add: eval_nat_numeral)

lemma itoa_260000: "itoa 260000 = ''260000''"
  by (simp add: itoa_def show_nat.simps digit_char_def)

lemma atoi_260000: "atoi ''260000'' = Some 260000"
  by (simp add: atoi_def in_int64_def)

text \<open>
  A stored hash verifies exactly the passwords whose derived key is that of the password
  it was made from; in particular the password itself always verifies.
\<close>

theorem verify_hash_password:
  "verify_password derive (hash_password derive salt_bytes password) attempt \<longleftrightarrow>
     derive attempt (hex_encode salt_bytes) 260000 = derive password (hex_encode salt_bytes) 260000"
proof -
  let ?h = "hex_encode (derive password (hex_encode salt_bytes) 260000)"
  have "CHR ''$'' \<notin> set (hex_encode salt_bytes)" using hex_encode_set [of salt_bytes] by auto
  then have "split_n 3 CHR ''$'' (''pbkdf2:sha256:260000'' @ ''$'' @ hex_encode salt_bytes @ ''$'' @ ?h) =
    [''pbkdf2:sha256:260000'', hex_encode salt_bytes, ?h]"
    by (intro split_password_hash) simp_all
  then show ?thesis
    by (auto simp: verify_password_def hash_password_def itoa_260000 Let_def atoi_260000
        dest: hex_encode_inj)
qed

subsection \<open>Validation\<close>

definition validate_name :: "string \<Rightarrow> bool" where
  "validate_name name = (let n = trim_space name in 1 \<le> length n \<and> length n \<le> 100)"

text \<open>
  The Unicode tables \<open>unicode.IsUpper\<close>, \<open>IsLower\<close> and \<open>IsDigit\<close> are arguments. The result
  is Go's pair: valid, or the message to show.
\<close>

definition validate_password ::
  "(nat \<Rightarrow> bool) \<Rightarrow> (nat \<Rightarrow> bool) \<Rightarrow> (nat \<Rightarrow> bool) \<Rightarrow> string \<Rightarrow> bool \<times> string" where
  "validate_password is_upper is_lower is_digit password =
     (if length password < 8 then (False, ''Password must be at least 8 characters'')
      else if \<not> list_ex is_upper (decode_runes password)
      then (False, ''Password must contain at least one uppercase letter'')
      else if \<not> list_ex is_lower (decode_runes password)
      then (False, ''Password must contain at least one lowercase letter'')
      else if \<not> list_ex is_digit (decode_runes password)
      then (False, ''Password must contain at least one digit'')
      else (True, ''''))"

lemma validate_password_iff:
  "fst (validate_password u l d p) \<longleftrightarrow>
     8 \<le> length p \<and> list_ex u (decode_runes p) \<and> list_ex l (decode_runes p) \<and> list_ex d (decode_runes p)"
  by (simp add: validate_password_def)

lemma validate_password_message:
  "fst (validate_password u l d p) \<longleftrightarrow> snd (validate_password u l d p) = ''''"
  by (simp add: validate_password_def)

subsection \<open>The login guard\<close>

record login_guard =
  failures :: nat
  lockout :: int
  blocked_until :: int

definition login_max_failures :: nat where "login_max_failures = 5"
definition login_base_lockout :: int where "login_base_lockout = ns_minute"
definition login_max_lockout :: int where "login_max_lockout = 15 * ns_minute"

definition new_guard :: login_guard where
  "new_guard = \<lparr>failures = 0, lockout = 0, blocked_until = 0\<rparr>"

definition guard_allow :: "login_guard \<Rightarrow> int \<Rightarrow> bool \<times> int" where
  "guard_allow g now =
     (if now < blocked_until g then (False, blocked_until g - now) else (True, 0))"

text \<open>\<open>failed\<close>: the lockout it triggered (0 for none) and the new guard.\<close>

definition guard_failed :: "login_guard \<Rightarrow> int \<Rightarrow> int \<times> login_guard" where
  "guard_failed g now =
     (let g1 = g\<lparr>failures := Suc (failures g)\<rparr> in
      if failures g1 < login_max_failures then (0, g1)
      else
        let l = (if lockout g1 = 0 then login_base_lockout
                 else if lockout g1 * 2 \<le> login_max_lockout then lockout g1 * 2
                 else login_max_lockout)
        in (l, g1\<lparr>lockout := l, blocked_until := now + l, failures := 0\<rparr>))"

definition guard_succeeded :: "login_guard \<Rightarrow> login_guard" where
  "guard_succeeded g = g\<lparr>failures := 0, lockout := 0, blocked_until := 0\<rparr>"

lemmas guard_defs = guard_allow_def guard_failed_def guard_succeeded_def new_guard_def
  login_max_failures_def login_base_lockout_def login_max_lockout_def ns_minute_def ns_second_def

text \<open>
  One attempt as the handler runs it: refused without a derivation while the guard is
  blocked, else derived and recorded. \<open>correct\<close> says whether the password verifies.
\<close>

definition guard_attempt :: "login_guard \<Rightarrow> int \<Rightarrow> bool \<Rightarrow> login_guard" where
  "guard_attempt g now correct =
     (if fst (guard_allow g now)
      then (if correct then guard_succeeded g else snd (guard_failed g now)) else g)"

definition lockout_len :: "nat \<Rightarrow> int" where
  "lockout_len j = min login_max_lockout (login_base_lockout * 2 ^ j)"

text \<open>The lockouts a guard that has never seen a success passes through: 1, 2, 4, 8, 15, 15, ... minutes.\<close>

definition lock_total :: "nat \<Rightarrow> int" where
  "lock_total m = (\<Sum>j<m. lockout_len j)"

definition guard_inv :: "login_guard \<Rightarrow> bool" where
  "guard_inv g \<longleftrightarrow> failures g < login_max_failures \<and>
     (lockout g = 0 \<or> (\<exists>j. lockout g = lockout_len j))"

lemma lockout_len_0: "lockout_len 0 = login_base_lockout"
  by (simp add: lockout_len_def guard_defs)

lemma lockout_len_pos: "0 < lockout_len j"
  by (simp add: lockout_len_def guard_defs)

lemma lockout_len_Suc:
  "(if lockout_len j * 2 \<le> login_max_lockout then lockout_len j * 2 else login_max_lockout) =
   lockout_len (Suc j)"
proof -
  define b :: int where "b = login_base_lockout * 2 ^ j"
  have "lockout_len j = min login_max_lockout b" "lockout_len (Suc j) = min login_max_lockout (2 * b)"
    by (simp_all add: lockout_len_def b_def)
  moreover have "0 < login_max_lockout" by (simp add: guard_defs)
  ultimately show ?thesis by (auto simp: min_def)
qed

lemma guard_failed_again:
  assumes "\<not> Suc (failures g) < login_max_failures" and "lockout g = lockout_len j"
  shows "snd (guard_failed g now) =
    g\<lparr>lockout := lockout_len (Suc j), blocked_until := now + lockout_len (Suc j), failures := 0\<rparr>"
proof -
  define l where "l = lockout_len (Suc j)"
  have "(if lockout g * 2 \<le> login_max_lockout then lockout g * 2 else login_max_lockout) = l"
    unfolding assms(2) l_def by (rule lockout_len_Suc)
  moreover have "lockout g \<noteq> 0" using lockout_len_pos [of j] assms(2) by simp
  ultimately show ?thesis
    using assms(1) by (auto simp: guard_failed_def Let_def l_def [symmetric])
qed

lemma guard_failed_inv: "guard_inv g \<Longrightarrow> guard_inv (snd (guard_failed g now))"
proof -
  assume inv: "guard_inv g"
  consider "Suc (failures g) < login_max_failures" | "\<not> Suc (failures g) < login_max_failures" "lockout g = 0"
    | j where "\<not> Suc (failures g) < login_max_failures" "lockout g = lockout_len j" "lockout g \<noteq> 0"
    using inv unfolding guard_inv_def by blast
  then show ?thesis
  proof cases
    case 1
    with inv show ?thesis by (simp add: guard_inv_def guard_failed_def Let_def)
  next
    case 2
    then show ?thesis
      by (auto simp: guard_inv_def guard_failed_def Let_def login_max_failures_def
          lockout_len_0 [symmetric])
  next
    case 3
    from guard_failed_again [OF 3(1,2)] show ?thesis
      by (auto simp: guard_inv_def login_max_failures_def)
  qed
qed

lemma guard_attempt_inv: "guard_inv g \<Longrightarrow> guard_inv (guard_attempt g now correct)"
  by (auto simp: guard_attempt_def guard_failed_inv)
    (simp add: guard_inv_def guard_succeeded_def login_max_failures_def)

lemma guard_inv_new: "guard_inv new_guard"
  by (simp add: guard_inv_def guard_defs)

text \<open>
  In every state the guard reaches from process start, fewer than five failures are
  pending and the lockout is zero or one of the doubling sequence, so it never exceeds
  fifteen minutes.
\<close>

theorem guard_reachable_inv:
  "guard_inv (foldl (\<lambda>g (now, correct). guard_attempt g now correct) new_guard attempts) \<and>
   lockout (foldl (\<lambda>g (now, correct). guard_attempt g now correct) new_guard attempts)
     \<in> {0..login_max_lockout}"
proof -
  have "guard_inv (foldl (\<lambda>g (now, correct). guard_attempt g now correct) new_guard attempts)"
    by (induction attempts rule: rev_induct)
      (auto simp: guard_inv_new guard_attempt_inv)
  moreover have "guard_inv g \<Longrightarrow> lockout g \<in> {0..login_max_lockout}" for g
    using lockout_len_pos by (auto simp: guard_inv_def lockout_len_def login_max_lockout_def
        ns_minute_def ns_second_def less_imp_le)
  ultimately show ?thesis by blast
qed

subsection \<open>The bound on guesses\<close>

text \<open>Derivations spent by wrong passwords tried at the given instants.\<close>

fun guard_run :: "login_guard \<Rightarrow> int list \<Rightarrow> login_guard" where
  "guard_run g [] = g"
| "guard_run g (t # ts) = guard_run (guard_attempt g t False) ts"

fun guesses :: "login_guard \<Rightarrow> int list \<Rightarrow> nat" where
  "guesses g [] = 0"
| "guesses g (t # ts) =
     (if fst (guard_allow g t) then 1 else 0) + guesses (guard_attempt g t False) ts"

lemma guard_run_append: "guard_run g (ts @ us) = guard_run (guard_run g ts) us"
  by (induction ts arbitrary: g) auto

lemma guesses_append: "guesses g (ts @ us) = guesses g ts + guesses (guard_run g ts) us"
  by (induction ts arbitrary: g) auto

definition guess_inv :: "int \<Rightarrow> nat \<Rightarrow> login_guard \<Rightarrow> bool" where
  "guess_inv start k g \<longleftrightarrow>
     failures g = k mod 5 \<and>
     lockout g = (if k div 5 = 0 then 0 else lockout_len (k div 5 - 1)) \<and>
     (k div 5 \<noteq> 0 \<longrightarrow> start + lock_total (k div 5) \<le> blocked_until g)"

lemma guess_inv_step:
  assumes inv: "guess_inv start k g" and "blocked_until g \<le> t" and "start \<le> t"
  shows "guess_inv start (Suc k) (snd (guard_failed g t)) \<and> start + lock_total (k div 5) \<le> t"
proof -
  have now: "start + lock_total (k div 5) \<le> t"
    using assms by (cases "k div 5 = 0") (auto simp: guess_inv_def lock_total_def)
  show ?thesis
  proof (cases "k mod 5 = 4")
    case False
    then have "Suc k div 5 = k div 5" and "Suc k mod 5 = Suc (k mod 5)" and "Suc (k mod 5) < 5"
      by presburger+
    with inv now show ?thesis by (simp add: guess_inv_def guard_failed_def login_max_failures_def)
  next
    case True
    then have q: "Suc k div 5 = Suc (k div 5)" and r: "Suc k mod 5 = 0" by presburger+
    have "snd (guard_failed g t) =
      g\<lparr>lockout := lockout_len (k div 5), blocked_until := t + lockout_len (k div 5), failures := 0\<rparr>"
    proof (cases "k div 5 = 0")
      case True
      with \<open>k mod 5 = 4\<close> inv show ?thesis
        by (simp add: guess_inv_def guard_failed_def login_max_failures_def lockout_len_0)
    next
      case False
      then obtain j where j: "k div 5 = Suc j" by (cases "k div 5") auto
      with \<open>k mod 5 = 4\<close> inv have "lockout g = lockout_len j" and "failures g = 4"
        by (simp_all add: guess_inv_def)
      with guard_failed_again [of g j t] j show ?thesis by (simp add: login_max_failures_def)
    qed
    with q r now show ?thesis by (simp add: guess_inv_def lock_total_def)
  qed
qed

lemma lock_total_mono: "i \<le> j \<Longrightarrow> lock_total i \<le> lock_total j"
  unfolding lock_total_def by (rule sum_mono2) (auto simp: less_imp_le lockout_len_pos)

lemma guesses_inv:
  assumes "sorted (start # ts)"
  shows "guess_inv start (guesses new_guard ts) (guard_run new_guard ts) \<and>
    (\<forall>m. 5 * m < guesses new_guard ts \<longrightarrow> start + lock_total m \<le> last (start # ts))"
  using assms
proof (induction ts rule: rev_induct)
  case Nil
  then show ?case by (simp add: guess_inv_def guard_defs)
next
  case (snoc t ts)
  let ?k = "guesses new_guard ts" and ?g = "guard_run new_guard ts"
  from snoc.prems have srt: "sorted (start # ts)" and le: "start \<le> t" "last (start # ts) \<le> t"
    by (auto simp: sorted_append)
  note IH = snoc.IH [OF srt]
  show ?case
  proof (cases "blocked_until ?g \<le> t")
    case True
    note step = guess_inv_step [OF conjunct1 [OF IH] True le(1)]
    have "start + lock_total m \<le> t" if "5 * m < Suc ?k" for m
    proof -
      from that have "m \<le> ?k div 5" by presburger
      with step lock_total_mono [of m "?k div 5"] show ?thesis by linarith
    qed
    with True step show ?thesis
      by (simp add: guesses_append guard_run_append guard_attempt_def guard_allow_def)
  next
    case False
    have "start + lock_total m \<le> t" if "5 * m < ?k" for m
      using IH le that by fastforce
    with False IH show ?thesis
      by (simp add: guesses_append guard_run_append guard_attempt_def guard_allow_def)
  qed
qed



end
