(* ===== verification/Sys_Log.thy ===== *)
theory Sys_Log
  imports Go_Prelude
begin

section \<open>main.go and handlers.go: the system log and the paging of log tables\<close>

text \<open>
  The server logs through two handlers behind one: a text handler and one that fills a bounded
  buffer for the admin page. Levels are ordered by severity, which is an instance of the
  library's \<open>linorder\<close>. The second half is the paging shared by the system log and the request
  log; the letter case of Unicode (\<open>strings.ToUpper\<close>, \<open>strings.ToLower\<close>) is an argument.
\<close>

subsection \<open>Levels\<close>

datatype log_level = LevelDebug | LevelInfo | LevelWarn | LevelError

fun severity :: "log_level \<Rightarrow> int" where
  "severity LevelDebug = -4"
| "severity LevelInfo = 0"
| "severity LevelWarn = 4"
| "severity LevelError = 8"

lemma severity_inj: "severity a = severity b \<longleftrightarrow> a = b"
  by (cases a; cases b) simp_all

instantiation log_level :: linorder
begin

definition less_eq_log_level :: "log_level \<Rightarrow> log_level \<Rightarrow> bool" where
  "less_eq_log_level a b \<longleftrightarrow> severity a \<le> severity b"

definition less_log_level :: "log_level \<Rightarrow> log_level \<Rightarrow> bool" where
  "less_log_level a b \<longleftrightarrow> severity a < severity b"

instance
  by standard (auto simp: less_eq_log_level_def less_log_level_def severity_inj)

end

fun level_string :: "log_level \<Rightarrow> string" where
  "level_string LevelDebug = ''DEBUG''"
| "level_string LevelInfo = ''INFO''"
| "level_string LevelWarn = ''WARN''"
| "level_string LevelError = ''ERROR''"

definition parse_log_level :: "(string \<Rightarrow> string) \<Rightarrow> string \<Rightarrow> log_level \<times> bool" where
  "parse_log_level upper s =
     (let u = upper (trim_space s) in
      if u = ''DEBUG'' then (LevelDebug, True)
      else if u = ''INFO'' \<or> u = [] then (LevelInfo, True)
      else if u = ''WARN'' \<or> u = ''WARNING'' then (LevelWarn, True)
      else if u = ''ERROR'' then (LevelError, True)
      else (LevelInfo, False))"

subsection \<open>The buffer\<close>

record sys_log_entry =
  se_ts :: string
  se_level :: string
  se_name :: string
  se_msg :: string

definition max_syslog_entries :: nat where "max_syslog_entries = 500"

type_synonym syslog_buffer = "sys_log_entry list"

definition new_syslog_buffer :: syslog_buffer where "new_syslog_buffer = []"

definition syslog_add :: "sys_log_entry \<Rightarrow> syslog_buffer \<Rightarrow> syslog_buffer" where
  "syslog_add e buf = (if max_syslog_entries \<le> length buf then drop 1 buf else buf) @ [e]"

definition syslog_entries :: "syslog_buffer \<Rightarrow> sys_log_entry list" where
  "syslog_entries buf = buf"

definition syslog_clear :: "syslog_buffer \<Rightarrow> syslog_buffer" where
  "syslog_clear buf = take 0 buf"

subsection \<open>Handlers\<close>

record slog_record =
  sr_time :: string
  sr_level :: log_level
  sr_msg :: string

record 's slog_handler =
  sh_enabled :: "log_level \<Rightarrow> bool"
  sh_handle :: "slog_record \<Rightarrow> 's \<Rightarrow> 's"

definition buf_enabled :: "log_level \<Rightarrow> log_level \<Rightarrow> bool" where
  "buf_enabled min_level level \<longleftrightarrow> min_level \<le> level"

definition buf_handle :: "slog_record \<Rightarrow> syslog_buffer \<Rightarrow> syslog_buffer" where
  "buf_handle r = syslog_add \<lparr>se_ts = sr_time r, se_level = level_string (sr_level r), se_name = ''gateway42'', se_msg = sr_msg r\<rparr>"

definition buf_handler :: "log_level \<Rightarrow> syslog_buffer slog_handler" where
  "buf_handler level = \<lparr>sh_enabled = buf_enabled level, sh_handle = buf_handle\<rparr>"

definition multi_handler :: "'s slog_handler \<Rightarrow> 't slog_handler \<Rightarrow> ('s \<times> 't) slog_handler" where
  "multi_handler a b =
     \<lparr>sh_enabled = (\<lambda>level. sh_enabled a level \<or> sh_enabled b level),
      sh_handle = (\<lambda>r (s, t).
        (if sh_enabled a (sr_level r) then sh_handle a r s else s,
         if sh_enabled b (sr_level r) then sh_handle b r t else t))\<rparr>"

text \<open>\<open>slog.Logger\<close>: a record reaches the handler when its level is enabled.\<close>

definition log_record :: "'s slog_handler \<Rightarrow> slog_record \<Rightarrow> 's \<Rightarrow> 's" where
  "log_record h r s = (if sh_enabled h (sr_level r) then sh_handle h r s else s)"

subsection \<open>Pages\<close>

definition query_int :: "string \<Rightarrow> int \<Rightarrow> int" where
  "query_int v d = (if v = [] then d else case atoi v of None \<Rightarrow> d | Some i \<Rightarrow> i)"

definition max_int :: "int \<Rightarrow> int \<Rightarrow> int" where "max_int a b = (if b < a then a else b)"
definition min_int :: "int \<Rightarrow> int \<Rightarrow> int" where "min_int a b = (if a < b then a else b)"

record 'r log_page =
  lp_logs :: "'r list"
  lp_count :: int
  lp_total :: int
  lp_page :: int
  lp_pages :: int
  lp_search :: string

definition page_count :: "int \<Rightarrow> int" where
  "page_count n = max_int 1 (go_div (n + 9) 10)"

definition page_of :: "string \<Rightarrow> int \<Rightarrow> int" where
  "page_of v n = min_int (max_int 1 (query_int v 1)) (page_count n)"

text \<open>The entries a search keeps, newest first: the list both the page and the export show.\<close>

definition matching_entries :: "(string \<Rightarrow> string) \<Rightarrow> string \<Rightarrow> syslog_buffer \<Rightarrow> sys_log_entry list" where
  "matching_entries lower q buf =
     (let es = rev (syslog_entries buf) in
      if q \<noteq> [] then filter (\<lambda>e. contains (lower (se_msg e)) q) es else es)"

definition system_log_slice :: "int \<Rightarrow> 'r list \<Rightarrow> 'r list" where
  "system_log_slice page es =
     (let start = (page - 1) * 10; stop = min_int (start + 10) (int (length es)) in
      if start < int (length es) then take (nat (stop - start)) (drop (nat start) es) else [])"

text \<open>\<open>None\<close>: the 401 of a request without the admin session.\<close>

definition handle_admin_system_logs ::
  "(string \<Rightarrow> string) \<Rightarrow> bool \<Rightarrow> string \<Rightarrow> string \<Rightarrow> syslog_buffer \<Rightarrow> sys_log_entry log_page option" where
  "handle_admin_system_logs lower admin q page buf =
     (if \<not> admin then None
      else
        let q = lower (trim_space q); es = matching_entries lower q buf; n = int (length es);
            p = page_of page n; rows = system_log_slice p es
        in Some \<lparr>lp_logs = rows, lp_count = int (length rows), lp_total = n, lp_page = p,
                 lp_pages = page_count n, lp_search = q\<rparr>)"

definition handle_system_logs_export ::
  "(string \<Rightarrow> string) \<Rightarrow> bool \<Rightarrow> string \<Rightarrow> syslog_buffer \<Rightarrow> string list list option" where
  "handle_system_logs_export lower admin q buf =
     (if \<not> admin then None
      else Some ([''timestamp'', ''level'', ''logger'', ''message''] #
             map (\<lambda>e. [se_ts e, se_level e, se_name e, se_msg e])
               (matching_entries lower (lower (trim_space q)) buf)))"

text \<open>The clearing is itself logged, after the buffer is empty.\<close>

definition handle_system_logs_reset ::
  "('s \<times> syslog_buffer) slog_handler \<Rightarrow> string \<Rightarrow> bool \<Rightarrow> 's \<times> syslog_buffer \<Rightarrow> ('s \<times> syslog_buffer) \<times> bool" where
  "handle_system_logs_reset h now admin st =
     (if \<not> admin then (st, False)
      else (log_record h \<lparr>sr_time = now, sr_level = LevelInfo, sr_msg = ''System log buffer cleared by admin''\<rparr>
              (fst st, syslog_clear (snd st)), True))"

subsection \<open>The buffer keeps the last 500\<close>

definition last_entries :: "'e list \<Rightarrow> 'e list" where
  "last_entries es = drop (length es - max_syslog_entries) es"

lemma last_entries_snoc: "last_entries (es @ [e]) = syslog_add e (last_entries es)"
proof (cases "length es < max_syslog_entries")
  case True
  then show ?thesis by (simp add: last_entries_def syslog_add_def)
next
  case False
  then have "length (es @ [e]) - max_syslog_entries = Suc (length es - max_syslog_entries)" by simp
  with False show ?thesis by (simp add: last_entries_def syslog_add_def max_syslog_entries_def)
qed

lemma syslog_adds: "foldl (\<lambda>b e. syslog_add e b) new_syslog_buffer es = last_entries es"
  by (induction es rule: rev_induct) (simp_all add: new_syslog_buffer_def last_entries_snoc, simp add: last_entries_def)

text \<open>The entry the buffer holds for a record.\<close>

definition entry_of :: "slog_record \<Rightarrow> sys_log_entry" where
  "entry_of r = \<lparr>se_ts = sr_time r, se_level = level_string (sr_level r), se_name = ''gateway42'', se_msg = sr_msg r\<rparr>"

lemma buffer_run:
  "snd (foldl (\<lambda>s r. log_record (multi_handler text (buf_handler level)) r s) (s, buf) rs) =
   foldl (\<lambda>b e. syslog_add e b) buf (map entry_of (filter (\<lambda>r. level \<le> sr_level r) rs))"
  by (induction rs arbitrary: s buf)
    (simp_all add: log_record_def multi_handler_def buf_handler_def buf_enabled_def buf_handle_def entry_of_def)

text \<open>
  Whatever the text handler does, the buffer behind the admin page holds the last 500 records
  at or above the configured level, oldest first, and the text handler sees those it is enabled
  for.
\<close>

theorem syslog_keeps_last:
  "snd (foldl (\<lambda>s r. log_record (multi_handler text (buf_handler level)) r s) (s, new_syslog_buffer) rs) =
     last_entries (map entry_of (filter (\<lambda>r. level \<le> sr_level r) rs)) \<and>
   fst (foldl (\<lambda>s r. log_record (multi_handler text (buf_handler level)) r s) (s, new_syslog_buffer) rs) =
     foldl (\<lambda>s r. log_record text r s) s rs"
proof -
  have "fst (foldl (\<lambda>s r. log_record (multi_handler text (buf_handler level)) r s) (s, b) rs) =
      foldl (\<lambda>s r. log_record text r s) s rs" for b
    by (induction rs arbitrary: s b) (auto simp: log_record_def multi_handler_def)
  then show ?thesis by (simp add: buffer_run syslog_adds)
qed

subsection \<open>The pages show everything once\<close>

lemma chunks: "concat (map (\<lambda>i. take k (drop (k * i) xs)) [0..<n]) = take (k * n) xs"
  by (induction n) (simp_all add: take_add [symmetric] add.commute)

lemma page_count_nat: "page_count (int n) = int (max 1 ((n + 9) div 10))"
proof -
  have "(int n + 9) div 10 = int ((n + 9) div 10)" by (simp add: zdiv_int)
  then show ?thesis by (simp add: page_count_def max_int_def go_div_nonneg)
qed

lemma slice_nat: "system_log_slice (int i + 1) es = take 10 (drop (10 * i) es)"
proof -
  have "nat (int i * 10) = 10 * i" by simp
  then show ?thesis by (auto simp: system_log_slice_def Let_def min_int_def)
qed

lemma slice_length: "length (system_log_slice p es) \<le> 10"
  by (auto simp: system_log_slice_def Let_def min_int_def)

text \<open>
  The pages of the system log, from the first to the last, show the matching entries newest
  first, each once; no page has more than ten; a page asked for beyond the last, before the first
  or not a number shows a page there is; and the export has the same rows.
\<close>

theorem system_log_pages:
  "let es = matching_entries lower (lower (trim_space q)) buf; pages = page_count (int (length es)) in
   concat (map (\<lambda>i. system_log_slice (int i + 1) es) [0..<nat pages]) = es \<and>
   (\<exists>r. handle_admin_system_logs lower True q page buf = Some r \<and>
        lp_logs r = system_log_slice (lp_page r) es \<and> length (lp_logs r) \<le> 10 \<and>
        lp_pages r = pages \<and> lp_total r = int (length es) \<and> lp_count r = int (length (lp_logs r)) \<and>
        1 \<le> lp_page r \<and> lp_page r \<le> pages) \<and>
   handle_system_logs_export lower True q buf =
     Some ([''timestamp'', ''level'', ''logger'', ''message''] #
           map (\<lambda>e. [se_ts e, se_level e, se_name e, se_msg e])
             (concat (map (\<lambda>i. system_log_slice (int i + 1) es) [0..<nat pages])))"
proof -
  let ?es = "matching_entries lower (lower (trim_space q)) buf"
  have "length ?es \<le> 10 * max 1 ((length ?es + 9) div 10)" by linarith
  then have all: "concat (map (\<lambda>i. system_log_slice (int i + 1) ?es) [0..<nat (page_count (int (length ?es)))]) = ?es"
    by (simp add: slice_nat chunks page_count_nat)
  have "1 \<le> page_of page n \<and> page_of page n \<le> page_count n" for n
    by (auto simp: page_of_def page_count_def max_int_def min_int_def)
  with all slice_length show ?thesis
    by (simp add: Let_def handle_admin_system_logs_def handle_system_logs_export_def)
qed

end
