(* ===== verification/Log_Store.thy ===== *)
theory Log_Store
  imports Log_Writer Sys_Log Rate_Limit
    "HOL-Library.List_Lexorder" "HOL-Library.Char_ord" "HOL-Library.Multiset"
begin

section \<open>db.go: the log tables, their queries and their retention\<close>

text \<open>
  A table is the list of its rows in the order of their ids, each with its id. Time stamps are
  RFC 3339 texts, compared bytewise as SQLite's \<open>BINARY\<close> collation does. What SQLite decides is
  an argument: whether a statement fails, whether a row matches a search term (\<open>hit\<close>: the FTS
  phrase or \<open>LIKE\<close>), and in \<open>newest\<close> the order \<open>ORDER BY ts DESC\<close> gives rows of the same second.
\<close>

type_synonym 'r log_table = "(nat \<times> 'r) list"

record log_store =
  ls_logs :: "interaction_log log_table"
  ls_requests :: "request_log log_table"

subsection \<open>Queries\<close>

definition get_user_logs :: "bool \<Rightarrow> int \<Rightarrow> interaction_log log_table \<Rightarrow> (nat \<times> interaction_log) list option" where
  "get_user_logs fault uid t =
     (if fault then None else Some (sort_key (\<lambda>r. il_ts (snd r)) (filter (\<lambda>r. il_user (snd r) = uid) t)))"

definition fts_phrase :: "string \<Rightarrow> string" where
  "fts_phrase s = ''\"'' @ concat (map (\<lambda>c. if c = CHR ''\"'' then ''\"\"'' else [c]) s) @ ''\"''"

definition search_rows :: "(string \<Rightarrow> 'r \<Rightarrow> bool) \<Rightarrow> string \<Rightarrow> 'r log_table \<Rightarrow> 'r log_table" where
  "search_rows hit search t = (if search \<noteq> [] then filter (\<lambda>r. hit search (snd r)) t else t)"

definition get_request_logs_count ::
  "(string \<Rightarrow> request_log \<Rightarrow> bool) \<Rightarrow> bool \<Rightarrow> string \<Rightarrow> request_log log_table \<Rightarrow> int option" where
  "get_request_logs_count hit fault search t =
     (if fault then None else Some (int (length (search_rows hit search t))))"

definition get_request_logs_page ::
  "(string \<Rightarrow> request_log \<Rightarrow> bool) \<Rightarrow> (request_log log_table \<Rightarrow> request_log log_table) \<Rightarrow> bool \<Rightarrow>
   string \<Rightarrow> int \<Rightarrow> int \<Rightarrow> request_log log_table \<Rightarrow> (nat \<times> request_log) list option" where
  "get_request_logs_page hit newest fault search limit offset t =
     (if fault then None
      else Some (take (nat limit) (drop (nat offset) (newest (search_rows hit search t)))))"

datatype 'r log_reply = Unauthorized | LogError | LogPage "'r log_page"

definition handle_admin_logs_data ::
  "(string \<Rightarrow> request_log \<Rightarrow> bool) \<Rightarrow> (request_log log_table \<Rightarrow> request_log log_table) \<Rightarrow> bool \<Rightarrow> bool \<Rightarrow>
   bool \<Rightarrow> string \<Rightarrow> string \<Rightarrow> request_log log_table \<Rightarrow> (nat \<times> request_log) log_reply" where
  "handle_admin_logs_data hit newest count_fault page_fault admin q page t =
     (if \<not> admin then Unauthorized
      else
        let search = trim_space q; asked = max_int 1 (query_int page 1) in
        case get_request_logs_count hit count_fault search t of
          None \<Rightarrow> LogError
        | Some n \<Rightarrow>
            let pages = max_int 1 (go_div (n + 10 - 1) 10); p = min_int asked pages in
            (case get_request_logs_page hit newest page_fault search 10 ((p - 1) * 10) t of
               None \<Rightarrow> LogError
             | Some rows \<Rightarrow>
                 LogPage \<lparr>lp_logs = rows, lp_count = int (length rows), lp_total = n, lp_page = p,
                          lp_pages = pages, lp_search = search\<rparr>))"

subsection \<open>Retention\<close>

definition prune_size :: nat where "prune_size = 500"
definition prune_batches :: nat where "prune_batches = 200"

text \<open>One statement: the oldest rows before the cutoff, at most \<open>n\<close> of them.\<close>

definition prune_victims :: "('r \<Rightarrow> string) \<Rightarrow> string \<Rightarrow> nat \<Rightarrow> 'r log_table \<Rightarrow> 'r log_table" where
  "prune_victims ts cutoff n t = take n (sort_key (\<lambda>r. ts (snd r)) (filter (\<lambda>r. ts (snd r) < cutoff) t))"

definition prune_batch :: "('r \<Rightarrow> string) \<Rightarrow> string \<Rightarrow> nat \<Rightarrow> 'r log_table \<Rightarrow> 'r log_table" where
  "prune_batch ts cutoff n t =
     filter (\<lambda>r. fst r \<notin> set (map fst (prune_victims ts cutoff n t))) t"

text \<open>The batch loop; \<open>left\<close> counts the batches it may still run, \<open>fault\<close> says which one fails.\<close>

fun prune_loop ::
  "(nat \<Rightarrow> bool) \<Rightarrow> ('r \<Rightarrow> string) \<Rightarrow> string \<Rightarrow> nat \<Rightarrow> 'r log_table \<Rightarrow> nat \<Rightarrow> 'r log_table \<times> nat \<times> bool" where
  "prune_loop fault ts cutoff 0 t deleted = (t, deleted, True)"
| "prune_loop fault ts cutoff (Suc left) t deleted =
     (if fault left then (t, deleted, False)
      else
        let t1 = prune_batch ts cutoff prune_size t; n = length t - length t1 in
        if n < prune_size then (t1, deleted + n, True)
        else prune_loop fault ts cutoff left t1 (deleted + n))"

text \<open>The counts and whether the sweep ended without an error.\<close>

definition prune_logs ::
  "(nat \<Rightarrow> bool) \<Rightarrow> (nat \<Rightarrow> bool) \<Rightarrow> int \<Rightarrow> (int \<Rightarrow> string) \<Rightarrow> log_store \<Rightarrow> log_store \<times> nat \<times> nat \<times> bool" where
  "prune_logs fault1 fault2 retention cutoff_before st =
     (if retention \<le> 0 then (st, 0, 0, True)
      else
        let cutoff = cutoff_before retention;
            (logs, n, ok) = prune_loop fault1 il_ts cutoff prune_batches (ls_logs st) 0
        in if \<not> ok then (st\<lparr>ls_logs := logs\<rparr>, n, 0, False)
           else
             let (requests, m, ok2) = prune_loop fault2 rl_ts cutoff prune_batches (ls_requests st) 0
             in (st\<lparr>ls_logs := logs, ls_requests := requests\<rparr>, n, m, ok2))"

subsection \<open>Reset\<close>

text \<open>One transaction; the limiters are cleared only after it has committed.\<close>

definition reset_system :: "bool \<Rightarrow> log_store \<times> 'b limiters \<Rightarrow> (log_store \<times> 'b limiters) \<times> bool" where
  "reset_system fault sl =
     (if fault then (sl, False)
      else (((fst sl)\<lparr>ls_logs := [], ls_requests := []\<rparr>, reset_all_limiters (snd sl)), True))"

definition delete_user_logs :: "int \<Rightarrow> log_store \<Rightarrow> log_store" where
  "delete_user_logs uid st = st\<lparr>ls_logs := filter (\<lambda>r. il_user (snd r) \<noteq> uid) (ls_logs st)\<rparr>"

subsection \<open>A batch deletes the oldest old rows\<close>

definition old_rows :: "('r \<Rightarrow> string) \<Rightarrow> string \<Rightarrow> 'r log_table \<Rightarrow> 'r log_table" where
  "old_rows ts cutoff t = filter (\<lambda>r. ts (snd r) < cutoff) t"

lemma victims_old: "set (prune_victims ts cutoff n t) \<subseteq> set (old_rows ts cutoff t)"
  by (auto simp: prune_victims_def old_rows_def dest: in_set_takeD)

lemma length_victims: "length (prune_victims ts cutoff n t) = min n (length (old_rows ts cutoff t))"
  by (simp add: prune_victims_def old_rows_def)

lemma distinct_victims: "distinct (map fst t) \<Longrightarrow> distinct (map fst (prune_victims ts cutoff n t))"
proof -
  assume d: "distinct (map fst t)"
  have "distinct (map fst (sort_key (\<lambda>r. ts (snd r)) (filter (\<lambda>r. ts (snd r) < cutoff) t)))"
    using d by (auto simp: distinct_map intro: inj_on_subset)
  then show ?thesis by (simp add: prune_victims_def take_map [symmetric])
qed

lemma same_id: "distinct (map fst t) \<Longrightarrow> r \<in> set t \<Longrightarrow> v \<in> set t \<Longrightarrow> fst r = fst v \<Longrightarrow> r = v"
  by (metis distinct_map inj_onD)

lemma prune_batch_eq:
  assumes "distinct (map fst t)"
  shows "prune_batch ts cutoff n t = filter (\<lambda>r. r \<notin> set (prune_victims ts cutoff n t)) t"
proof -
  have "set (prune_victims ts cutoff n t) \<subseteq> set t" using victims_old [of ts cutoff n t] by (auto simp: old_rows_def)
  then have "fst r \<in> set (map fst (prune_victims ts cutoff n t)) \<longleftrightarrow> r \<in> set (prune_victims ts cutoff n t)" if "r \<in> set t" for r
    using same_id [OF assms that] by force
  then show ?thesis unfolding prune_batch_def by (metis (mono_tags, lifting) filter_cong)
qed

lemma prune_batch_length:
  assumes "distinct (map fst t)"
  shows "length t - length (prune_batch ts cutoff n t) = min n (length (old_rows ts cutoff t))"
proof -
  let ?v = "prune_victims ts cutoff n t"
  have sub: "set ?v \<subseteq> set t" using victims_old [of ts cutoff n t] by (auto simp: old_rows_def)
  have d: "distinct t" "distinct ?v" using assms distinct_victims [OF assms] by (simp_all add: distinct_map)
  have "length (filter (\<lambda>r. r \<in> set ?v) t) = card (set ?v)"
    using sub d by (simp add: distinct_length_filter Int_absorb2)
  then have "length (filter (\<lambda>r. r \<in> set ?v) t) = length ?v" using d by (simp add: distinct_card)
  then show ?thesis
    using sum_length_filter_compl [of "\<lambda>r. r \<in> set ?v" t] by (simp add: prune_batch_eq [OF assms] length_victims)
qed

lemma victims_first:
  assumes "d \<in> set (prune_victims ts cutoff n t)" and "r \<in> set t" "ts (snd r) < cutoff" "r \<notin> set (prune_victims ts cutoff n t)"
  shows "ts (snd d) \<le> ts (snd r)"
proof -
  let ?s = "sort_key (\<lambda>r. ts (snd r)) (filter (\<lambda>r. ts (snd r) < cutoff) t)"
  have "sorted (map (\<lambda>r. ts (snd r)) (take n ?s @ drop n ?s))"
    unfolding append_take_drop_id by (rule sorted_sort_key)
  then have "\<forall>x \<in> set (take n ?s). \<forall>y \<in> set (drop n ?s). ts (snd x) \<le> ts (snd y)"
    by (simp only: map_append sorted_append) auto
  moreover have "r \<in> set ?s" using assms by simp
  then have "r \<in> set (drop n ?s)"
    using assms(4) by (metis Un_iff append_take_drop_id prune_victims_def set_append)
  ultimately show ?thesis using assms(1) by (auto simp: prune_victims_def)
qed

text \<open>What a sweep that deleted the rows \<open>D\<close> did to a table.\<close>

definition swept :: "('r \<Rightarrow> string) \<Rightarrow> string \<Rightarrow> (nat \<times> 'r) set \<Rightarrow> 'r log_table \<Rightarrow> 'r log_table \<Rightarrow> bool" where
  "swept ts cutoff D t t' \<longleftrightarrow>
     t' = filter (\<lambda>r. r \<notin> D) t \<and> D \<subseteq> set (old_rows ts cutoff t) \<and>
     (\<forall>d \<in> D. \<forall>r \<in> set (old_rows ts cutoff t'). ts (snd d) \<le> ts (snd r))"

lemma swept_none: "swept ts cutoff {} t t"
  by (simp add: swept_def)

lemma swept_batch:
  assumes "distinct (map fst t)"
  shows "swept ts cutoff (set (prune_victims ts cutoff n t)) t (prune_batch ts cutoff n t)"
  using victims_old [of ts cutoff n t] victims_first [of _ ts cutoff n t]
  by (auto simp: swept_def prune_batch_eq [OF assms] old_rows_def)

lemma swept_trans:
  assumes "swept ts cutoff D t t1" and "swept ts cutoff E t1 t2"
  shows "swept ts cutoff (D \<union> E) t t2"
  using assms by (auto simp: swept_def old_rows_def)

lemma swept_length:
  assumes "distinct t" and "swept ts cutoff D t t'"
  shows "card D = length t - length t'" and "length t' \<le> length t"
    and "length (old_rows ts cutoff t') = length (old_rows ts cutoff t) - card D" and "card D \<le> length (old_rows ts cutoff t)"
proof -
  have D: "D \<subseteq> set (old_rows ts cutoff t)" and t': "t' = filter (\<lambda>r. r \<notin> D) t" using assms by (auto simp: swept_def)
  have sub: "D \<subseteq> set t" using D by (auto simp: old_rows_def)
  have "length (filter (\<lambda>r. r \<in> D) t) = card D" using sub assms(1) by (simp add: distinct_length_filter Int_absorb2)
  then show "card D = length t - length t'" "length t' \<le> length t"
    using sum_length_filter_compl [of "\<lambda>r. r \<in> D" t] by (simp_all add: t')
  have do: "distinct (old_rows ts cutoff t)" using assms(1) by (simp add: old_rows_def)
  have "length (filter (\<lambda>r. r \<in> D) (old_rows ts cutoff t)) = card D"
    using D do by (simp add: distinct_length_filter Int_absorb2)
  moreover have "old_rows ts cutoff t' = filter (\<lambda>r. r \<notin> D) (old_rows ts cutoff t)"
    by (simp add: t' old_rows_def conj_commute)
  ultimately show "length (old_rows ts cutoff t') = length (old_rows ts cutoff t) - card D" "card D \<le> length (old_rows ts cutoff t)"
    using sum_length_filter_compl [of "\<lambda>r. r \<in> D" "old_rows ts cutoff t"] by simp_all
qed

lemma prune_loop_sweeps:
  assumes "distinct (map fst t)" and "prune_loop fault ts cutoff left t n = (t', m, ok)"
  shows "\<exists>D. swept ts cutoff D t t' \<and> m = n + card D \<and> card D \<le> prune_size * left \<and>
           (ok \<longrightarrow> card D = min (prune_size * left) (length (old_rows ts cutoff t)))"
  using assms
proof (induction left arbitrary: t n)
  case 0
  then show ?case using swept_none [of ts cutoff t] by (intro exI [of _ "{}"]) auto
next
  case (Suc left)
  show ?case
  proof (cases "fault left")
    case True
    with Suc.prems show ?thesis using swept_none [of ts cutoff t] by (intro exI [of _ "{}"]) auto
  next
    case False
    let ?t1 = "prune_batch ts cutoff prune_size t" and ?V = "set (prune_victims ts cutoff prune_size t)"
    have dt: "distinct t" using Suc.prems(1) by (simp add: distinct_map)
    have sw: "swept ts cutoff ?V t ?t1" by (rule swept_batch [OF Suc.prems(1)])
    have V: "card ?V = min prune_size (length (old_rows ts cutoff t))"
      using swept_length(1) [OF dt sw] prune_batch_length [OF Suc.prems(1), of ts cutoff prune_size] by simp
    show ?thesis
    proof (cases "card ?V < prune_size")
      case True
      then have "t' = ?t1 \<and> m = n + card ?V \<and> ok"
        using Suc.prems(2) False swept_length(1) [OF dt sw] by (auto simp: Let_def split: if_splits)
      with sw V True show ?thesis by (intro exI [of _ ?V]) auto
    next
      case full: False
      have "prune_loop fault ts cutoff left ?t1 (n + card ?V) = (t', m, ok)"
        using Suc.prems(2) False full swept_length(1) [OF dt sw] by (simp add: Let_def)
      moreover have d1: "distinct (map fst ?t1)" using Suc.prems(1) by (simp add: prune_batch_def distinct_map_filter)
      ultimately obtain D where D: "swept ts cutoff D ?t1 t'" "m = n + card ?V + card D" "card D \<le> prune_size * left"
          "ok \<longrightarrow> card D = min (prune_size * left) (length (old_rows ts cutoff ?t1))"
        using Suc.IH [OF d1] by blast
      have "?V \<inter> D = {}" using D(1) by (auto simp: swept_def old_rows_def prune_batch_eq [OF Suc.prems(1)])
      moreover have "finite D" using D(1) by (meson List.finite_set finite_subset swept_def)
      ultimately have card: "card (?V \<union> D) = card ?V + card D" by (simp add: card_Un_disjoint)
      with D V full swept_length(3) [OF dt sw] swept_trans [OF sw D(1)] show ?thesis
        by (intro exI [of _ "?V \<union> D"]) (auto simp: min_def)
    qed
  qed
qed

text \<open>
  A retention sweep deletes only rows older than the cutoff, the oldest first, and leaves the
  others as they were; it reports how many went from each table, never more than 100000; a sweep
  without an error deletes all the old rows up to that number, and one that fails half-way has
  deleted and reported only whole batches. A retention of zero or less deletes nothing.
\<close>

theorem retention_sweep:
  assumes "distinct (map fst (ls_logs st))" and "distinct (map fst (ls_requests st))"
    and "prune_logs fault1 fault2 retention cutoff_before st = (st', n, m, ok)"
  shows "(retention \<le> 0 \<longrightarrow> st' = st) \<and>
    (\<exists>D E. swept il_ts (cutoff_before retention) D (ls_logs st) (ls_logs st') \<and> n = card D \<and> n \<le> 100000 \<and>
           swept rl_ts (cutoff_before retention) E (ls_requests st) (ls_requests st') \<and> m = card E \<and> m \<le> 100000 \<and>
           (0 < retention \<and> ok \<longrightarrow>
              n = min 100000 (length (old_rows il_ts (cutoff_before retention) (ls_logs st))) \<and>
              m = min 100000 (length (old_rows rl_ts (cutoff_before retention) (ls_requests st)))))"
proof (cases "retention \<le> 0")
  case True
  with assms(3) show ?thesis
    by (auto simp: prune_logs_def intro!: exI [of _ "{}"] swept_none)
next
  case False
  let ?c = "cutoff_before retention"
  obtain logs k ok1 where l: "prune_loop fault1 il_ts ?c prune_batches (ls_logs st) 0 = (logs, k, ok1)" by (metis prod_cases3)
  obtain reqs j ok2 where r: "prune_loop fault2 rl_ts ?c prune_batches (ls_requests st) 0 = (reqs, j, ok2)" by (metis prod_cases3)
  from prune_loop_sweeps [OF assms(1) l] obtain D where D: "swept il_ts ?c D (ls_logs st) logs" "k = card D" "k \<le> 100000"
      "ok1 \<longrightarrow> k = min 100000 (length (old_rows il_ts ?c (ls_logs st)))"
    by (auto simp: prune_size_def prune_batches_def)
  from prune_loop_sweeps [OF assms(2) r] obtain E where E: "swept rl_ts ?c E (ls_requests st) reqs" "j = card E" "j \<le> 100000"
      "ok2 \<longrightarrow> j = min 100000 (length (old_rows rl_ts ?c (ls_requests st)))"
    by (auto simp: prune_size_def prune_batches_def)
  show ?thesis
  proof (cases ok1)
    case True
    with assms(3) False l r have "ls_logs st' = logs" "ls_requests st' = reqs" "n = k" "m = j" "ok = ok2"
      by (auto simp: prune_logs_def Let_def)
    with D E True False show ?thesis by (intro conjI exI [of _ D] exI [of _ E]) auto
  next
    case failed: False
    with assms(3) False l have "ls_logs st' = logs" "ls_requests st' = ls_requests st" "n = k" "m = 0" "\<not> ok"
      by (auto simp: prune_logs_def Let_def)
    with D False show ?thesis by (intro conjI exI [of _ D] exI [of _ "{}"]) (auto intro: swept_none)
  qed
qed

definition sample_row :: "string \<Rightarrow> nat \<times> interaction_log" where
  "sample_row ts = (length ts, \<lparr>il_user = 1, il_model = [], il_prompt = [], il_response = [], il_ts = ts\<rparr>)"

definition sample_log_store :: log_store where
  "sample_log_store = \<lparr>ls_logs = [sample_row ''2026'', sample_row ''20''], ls_requests = []\<rparr>"

lemma retention_sweep_witness:
  "fst (snd (prune_logs (\<lambda>_. False) (\<lambda>_. False) 30 (\<lambda>_. ''2024'') sample_log_store)) = 1"
proof -
  have d: "distinct (map fst (ls_logs sample_log_store))" "distinct (map fst (ls_requests sample_log_store))"
    by (simp_all add: sample_log_store_def sample_row_def)
  obtain st' n m ok where run: "prune_logs (\<lambda>_. False) (\<lambda>_. False) 30 (\<lambda>_. ''2024'') sample_log_store = (st', n, m, ok)"
    by (metis prod_cases4)
  moreover have "snd (snd (snd (prune_logs (\<lambda>_. False) (\<lambda>_. False) 30 (\<lambda>_. ''2024'') sample_log_store)))"
    by code_simp
  ultimately show ?thesis using retention_sweep [OF d run]
    by (auto simp: sample_log_store_def old_rows_def sample_row_def)
qed

subsection \<open>Reading the request log\<close>

text \<open>
  The pages of the request log show every row the search matches exactly once, in the order
  the query gives them; a page beyond the last is the last, and none has more than ten rows.
\<close>

theorem request_log_pages:
  assumes "\<And>t. mset (newest t) = mset t"
  shows "let rows = search_rows hit (trim_space q) t; pages = page_count (int (length rows)) in
    concat (map (\<lambda>i. case get_request_logs_page hit newest False (trim_space q) 10 (int i * 10) t of
                   None \<Rightarrow> [] | Some p \<Rightarrow> p) [0..<nat pages]) = newest rows \<and>
    (\<exists>r. handle_admin_logs_data hit newest False False True q page t = LogPage r \<and>
         get_request_logs_page hit newest False (trim_space q) 10 ((lp_page r - 1) * 10) t = Some (lp_logs r) \<and>
         lp_total r = int (length rows) \<and> lp_pages r = pages \<and> 1 \<le> lp_page r \<and> lp_page r \<le> pages \<and>
         lp_count r = int (length (lp_logs r)) \<and> length (lp_logs r) \<le> 10)"
proof -
  let ?rows = "search_rows hit (trim_space q) t"
  have len: "length (newest ?rows) = length ?rows" by (metis assms mset_eq_length)
  have "(\<lambda>i. case get_request_logs_page hit newest False (trim_space q) 10 (int i * 10) t of None \<Rightarrow> [] | Some p \<Rightarrow> p) =
      (\<lambda>i. take 10 (drop (10 * i) (newest ?rows)))"
    by (simp add: get_request_logs_page_def nat_mult_distrib mult.commute)
  moreover have "length ?rows \<le> 10 * max 1 ((length ?rows + 9) div 10)" by linarith
  ultimately have covered: "concat (map (\<lambda>i. case get_request_logs_page hit newest False (trim_space q) 10 (int i * 10) t of
      None \<Rightarrow> [] | Some p \<Rightarrow> p) [0..<nat (page_count (int (length ?rows)))]) = newest ?rows"
    using len by (simp add: chunks page_count_nat)
  have pages: "page_count n = max_int 1 (go_div (9 + n) 10)" for n
    by (simp add: page_count_def add.commute)
  have bound: "1 \<le> min_int (max_int 1 a) (max_int 1 b) \<and> min_int (max_int 1 a) (max_int 1 b) \<le> max_int 1 b" for a b
    by (simp add: max_int_def min_int_def)
  have "\<exists>r. handle_admin_logs_data hit newest False False True q page t = LogPage r \<and>
         get_request_logs_page hit newest False (trim_space q) 10 ((lp_page r - 1) * 10) t = Some (lp_logs r) \<and>
         lp_total r = int (length ?rows) \<and> lp_pages r = page_count (int (length ?rows)) \<and>
         1 \<le> lp_page r \<and> lp_page r \<le> page_count (int (length ?rows)) \<and>
         lp_count r = int (length (lp_logs r)) \<and> length (lp_logs r) \<le> 10"
    using bound
    by (simp add: handle_admin_logs_data_def get_request_logs_count_def get_request_logs_page_def Let_def pages)
  with covered show ?thesis by (simp add: Let_def)
qed

lemma request_log_pages_witness:
  "\<exists>r. handle_admin_logs_data (\<lambda>s r. True) rev False False True [] ''7'' [] = LogPage r \<and> lp_page r \<le> page_count 0"
proof -
  have "search_rows (\<lambda>s r. True) q ([] :: request_log log_table) = []" for q by (simp add: search_rows_def)
  with request_log_pages [of rev "\<lambda>s r. True" "[]" "[]" "''7''"] show ?thesis by (auto simp: Let_def)
qed

text \<open>
  FTS5's quoted strings: two quotes inside are one, a single one ends the phrase. The term of a
  search cannot end its phrase early, whatever it holds.
\<close>

fun read_quoted :: "string \<Rightarrow> (string \<times> string) option" where
  "read_quoted [] = None"
| "read_quoted (c # cs) =
     (if c \<noteq> CHR ''\"'' then map_option (\<lambda>(w, r). (c # w, r)) (read_quoted cs)
      else (case cs of
          d # ds \<Rightarrow> if d = CHR ''\"'' then map_option (\<lambda>(w, r). (CHR ''\"'' # w, r)) (read_quoted ds) else Some ([], cs)
        | [] \<Rightarrow> Some ([], [])))"

definition read_phrase :: "string \<Rightarrow> (string \<times> string) option" where
  "read_phrase s = (case s of c # cs \<Rightarrow> if c = CHR ''\"'' then read_quoted cs else None | [] \<Rightarrow> None)"

lemma read_quoted_escaped:
  "read_quoted (concat (map (\<lambda>c. if c = CHR ''\"'' then ''\"\"'' else [c]) s) @ ''\"'') = Some (s, [])"
  by (induction s) simp_all

text \<open>C38. Whatever an administrator searches for is one quoted phrase that reads back as the term.\<close>

theorem fts_phrase_reads_back: "read_phrase (fts_phrase s) = Some (s, [])"
  using read_quoted_escaped [of s] by (simp add: read_phrase_def fts_phrase_def)

end
