(* ===== verification/Upstream.thy ===== *)
theory Upstream
  imports Engine_Config Text_Bounds
begin

section \<open>engine.go: calls to the engines\<close>

text \<open>
  The control and completion calls of the two adapters, the helpers that only Ollama has, and
  the text of an upstream error. What is outside the program is gathered in \<open>net\<close>: whether
  \<open>net/http\<close> accepts a URL, what comes back for a request, and how \<open>encoding/json\<close> reads a body.
  A call that dereferences the nil request of a URL that was not accepted panics.
\<close>

subsection \<open>Requests and responses\<close>

record upstream_request =
  uq_method :: string
  uq_url :: string
  uq_headers :: "(string \<times> string) list"
  uq_body :: string

record upstream_response =
  up_status :: int
  up_line :: string \<comment> \<open>\<open>resp.Status\<close>\<close>
  up_body :: string
  up_fault :: "string option" \<comment> \<open>the error reading ends with after the body\<close>

record net =
  nt_url_ok :: "string \<Rightarrow> bool"
  nt_url_error :: "string \<Rightarrow> string"
  nt_send :: "upstream_request \<Rightarrow> string + upstream_response" \<comment> \<open>\<open>Inl\<close>: the error of \<open>Do\<close>\<close>
  nt_object :: "upstream_response \<Rightarrow> string + obj" \<comment> \<open>the decoder on the body, into a map\<close>
  nt_marshal :: "json \<Rightarrow> string + string"
  nt_error_member :: "string \<Rightarrow> string option" \<comment> \<open>the raw \<open>error\<close> member, if the text has one\<close>
  nt_flat :: "string \<Rightarrow> string option" \<comment> \<open>the raw text as a string\<close>
  nt_message :: "string \<Rightarrow> string option" \<comment> \<open>the \<open>message\<close> of the raw text as an object\<close>

datatype 'a outcome = Panicked | Failed string | Done 'a

text \<open>The collectors: engine type, operation, whether the call failed.\<close>

type_synonym metrics = "(string \<times> string \<times> bool) list"

definition record_upstream :: "string \<Rightarrow> string \<Rightarrow> bool \<Rightarrow> metrics \<Rightarrow> metrics" where
  "record_upstream ty op failed ms = ms @ [(ty, op, failed)]"

text \<open>A panic leaves \<open>observeUpstream\<close> before it records.\<close>

definition observe_upstream :: "string \<Rightarrow> string \<Rightarrow> 'a outcome \<Rightarrow> metrics \<Rightarrow> 'a outcome \<times> metrics" where
  "observe_upstream ty op r ms =
     (case r of
        Panicked \<Rightarrow> (r, ms)
      | Failed e \<Rightarrow> (r, record_upstream ty op True ms)
      | Done v \<Rightarrow> (r, record_upstream ty op False ms))"

subsection \<open>The text of an error\<close>

text \<open>\<open>strings.Fields\<close>: white space starts where \<open>trim_left_space\<close> removes something.\<close>

fun take_word :: "string \<Rightarrow> string \<times> string" where
  "take_word [] = ([], [])"
| "take_word (c # cs) =
     (if trim_left_space (c # cs) \<noteq> c # cs then ([], c # cs)
      else (let (w, r) = take_word cs in (c # w, r)))"

lemma take_word_append: "fst (take_word s) @ snd (take_word s) = s"
  by (induction s) (simp_all add: case_prod_beta Let_def)

lemma take_word_length: "length (snd (take_word s)) = length s - length (fst (take_word s))"
  by (metis take_word_append diff_add_inverse length_append)

function words :: "string \<Rightarrow> string list" where
  "words s =
     (let t = trim_left_space s in
      if fst (take_word t) = [] then []
      else fst (take_word t) # words (snd (take_word t)))"
  by pat_completeness auto
termination
proof (relation "measure length", simp, goal_cases)
  case (1 s t)
  then have "fst (take_word t) \<noteq> []" "length t \<le> length s" by (simp_all add: length_trim_left_space)
  moreover have "length (fst (take_word t)) \<le> length t"
    by (metis take_word_append le_add1 length_append)
  ultimately show ?case by (simp add: take_word_length) (metis diff_less length_greater_0_conv less_le_trans le_zero_eq list.size(3) not_le)
qed

declare words.simps [simp del]

text \<open>The UTF-8 of each rune of a text, an invalid byte being U+FFFD: \<open>string([]rune(s))\<close> joins them.\<close>

fun rune_texts :: "string \<Rightarrow> string list" where
  "rune_texts [] = []"
| "rune_texts (a # s) =
     (if seq_len a \<noteq> 0 \<and> seq_len a - 1 \<le> length s \<and> tail_ok a (take (seq_len a - 1) s)
      then (a # take (seq_len a - 1) s) # rune_texts (drop (seq_len a - 1) s)
      else [CHR 0xEF, CHR 0xBF, CHR 0xBD] # rune_texts s)"

definition upstream_err_detail :: "net \<Rightarrow> upstream_response \<Rightarrow> string" where
  "upstream_err_detail net resp =
     (let raw = take 2048 (up_body resp) in
      if up_fault resp \<noteq> None \<and> length (up_body resp) < 2048 \<or> raw = [] then []
      else
        let msg = (case nt_error_member net raw of
                     None \<Rightarrow> raw
                   | Some e \<Rightarrow>
                       if e = [] then raw
                       else if nt_flat net e \<noteq> None \<and> nt_flat net e \<noteq> Some [] then the (nt_flat net e)
                       else if nt_message net e \<noteq> None \<and> nt_message net e \<noteq> Some [] then the (nt_message net e)
                       else raw);
            line = join '' '' (words msg)
        in if line = [] then []
           else '': '' @ (if 200 < length (rune_texts line)
                          then concat (take 200 (rune_texts line)) @ [CHR 0xE2, CHR 0x80, CHR 0xA6]
                          else line))"

definition status_err :: "net \<Rightarrow> upstream_response \<Rightarrow> bool outcome" where
  "status_err net resp =
     (if up_status resp = 200 then Done True
      else Failed (''engine returned '' @ up_line resp @ upstream_err_detail net resp))"

subsection \<open>The adapters\<close>

definition json_type :: "string \<times> string" where
  "json_type = (''Content-Type'', ''application/json'')"

definition auth_headers :: "engine_config \<Rightarrow> (string \<times> string) list" where
  "auth_headers cf = (if ec_api_key cf \<noteq> [] then [(''Authorization'', ''Bearer '' @ ec_api_key cf)] else [])"

text \<open>\<open>controlClient.Get\<close>\<close>

definition get_url :: "net \<Rightarrow> string \<Rightarrow> string + upstream_response" where
  "get_url net url =
     (if \<not> nt_url_ok net url then Inl (nt_url_error net url)
      else nt_send net \<lparr>uq_method = ''GET'', uq_url = url, uq_headers = [], uq_body = []\<rparr>)"

definition do_req :: "net \<Rightarrow> engine_config \<Rightarrow> string \<Rightarrow> string \<Rightarrow> string \<Rightarrow> string + upstream_response" where
  "do_req net cf http_method path body =
     (let url = upstream_url cf path in
      if \<not> nt_url_ok net url then Inl (nt_url_error net url)
      else nt_send net \<lparr>uq_method = http_method, uq_url = url, uq_headers = json_type # auth_headers cf, uq_body = body\<rparr>)"

definition ollama_status :: "net \<Rightarrow> engine_config \<Rightarrow> metrics \<Rightarrow> bool outcome \<times> metrics" where
  "ollama_status net cf =
     observe_upstream engine_ollama ''status''
       (case get_url net (ollama_endpoint cf @ ''/api/version'') of Inl e \<Rightarrow> Failed e | Inr resp \<Rightarrow> status_err net resp)"

definition compat_status :: "net \<Rightarrow> engine_config \<Rightarrow> metrics \<Rightarrow> bool outcome \<times> metrics" where
  "compat_status net cf =
     observe_upstream engine_openai_compat ''status''
       (case do_req net cf ''GET'' ''/v1/models'' [] of Inl e \<Rightarrow> Failed e | Inr resp \<Rightarrow> status_err net resp)"

text \<open>A call that decodes the body of a 200 into a map.\<close>

definition decode_reply :: "net \<Rightarrow> string \<Rightarrow> string + upstream_response \<Rightarrow> obj outcome" where
  "decode_reply net who r =
     (case r of
        Inl e \<Rightarrow> Failed e
      | Inr resp \<Rightarrow>
          if up_status resp \<noteq> 200 then Failed (who @ '' returned '' @ itoa (up_status resp))
          else case nt_object net resp of Inl e \<Rightarrow> Failed e | Inr m \<Rightarrow> Done m)"

definition model_objects :: "json list \<Rightarrow> obj list" where
  "model_objects js = map as_obj (filter is_obj js)"

definition models_under :: "string \<Rightarrow> obj outcome \<times> metrics \<Rightarrow> obj list outcome \<times> metrics" where
  "models_under key r =
     (case fst r of
        Panicked \<Rightarrow> (Panicked, snd r)
      | Failed e \<Rightarrow> (Failed e, snd r)
      | Done m \<Rightarrow> (Done (model_objects (as_arr (idx m key))), snd r))"

definition ollama_list_models :: "net \<Rightarrow> engine_config \<Rightarrow> metrics \<Rightarrow> obj list outcome \<times> metrics" where
  "ollama_list_models net cf ms =
     models_under ''models'' (observe_upstream engine_ollama ''list_models''
       (decode_reply net ''ollama'' (get_url net (ollama_endpoint cf @ ''/api/tags''))) ms)"

definition compat_list_models :: "net \<Rightarrow> engine_config \<Rightarrow> metrics \<Rightarrow> obj list outcome \<times> metrics" where
  "compat_list_models net cf ms =
     models_under ''data'' (observe_upstream engine_openai_compat ''list_models''
       (decode_reply net ''engine'' (do_req net cf ''GET'' ''/v1/models'' [])) ms)"

text \<open>The completion requests of the two adapters, the same for \<open>Chat\<close> and \<open>StreamChat\<close>.\<close>

definition ollama_request :: "engine_config \<Rightarrow> string \<Rightarrow> upstream_request" where
  "ollama_request cf body =
     \<lparr>uq_method = ''POST'', uq_url = ollama_endpoint cf @ ''/api/chat'', uq_headers = [json_type], uq_body = body\<rparr>"

definition compat_request :: "engine_config \<Rightarrow> string \<Rightarrow> upstream_request" where
  "compat_request cf body =
     \<lparr>uq_method = ''POST'', uq_url = upstream_url cf ''/v1/chat/completions'', uq_headers = json_type # auth_headers cf,
      uq_body = body\<rparr>"

text \<open>A marshal error leaves the body empty; \<open>who\<close> names the engine in the error text.\<close>

definition marshalled :: "net \<Rightarrow> json \<Rightarrow> string" where
  "marshalled net req = (case nt_marshal net req of Inl _ \<Rightarrow> [] | Inr b \<Rightarrow> b)"

definition post_chat :: "net \<Rightarrow> string \<Rightarrow> upstream_request \<Rightarrow> obj outcome" where
  "post_chat net who req =
     (if \<not> nt_url_ok net (uq_url req) then Panicked else decode_reply net who (nt_send net req))"

definition ollama_chat :: "net \<Rightarrow> engine_config \<Rightarrow> json \<Rightarrow> metrics \<Rightarrow> obj outcome \<times> metrics" where
  "ollama_chat net cf req =
     observe_upstream engine_ollama ''chat'' (post_chat net ''ollama'' (ollama_request cf (marshalled net req)))"

definition compat_chat :: "net \<Rightarrow> engine_config \<Rightarrow> json \<Rightarrow> metrics \<Rightarrow> obj outcome \<times> metrics" where
  "compat_chat net cf req =
     observe_upstream engine_openai_compat ''chat'' (post_chat net ''engine'' (compat_request cf (marshalled net req)))"

definition open_upstream_stream :: "net \<Rightarrow> string \<Rightarrow> upstream_request \<Rightarrow> metrics \<Rightarrow> upstream_response outcome \<times> metrics" where
  "open_upstream_stream net ty req ms =
     (case nt_send net req of
        Inl e \<Rightarrow> (Failed e, record_upstream ty ''stream'' True ms)
      | Inr resp \<Rightarrow>
          if up_status resp \<noteq> 200
          then (Failed (''engine returned '' @ itoa (up_status resp)), record_upstream ty ''stream'' True ms)
          else (Done resp, record_upstream ty ''stream'' False ms))"

definition stream_chat ::
  "net \<Rightarrow> string \<Rightarrow> (string \<Rightarrow> upstream_request) \<Rightarrow> json \<Rightarrow> metrics \<Rightarrow> upstream_response outcome \<times> metrics" where
  "stream_chat net ty request req ms =
     (case nt_marshal net req of
        Inl e \<Rightarrow> (Failed e, ms)
      | Inr body \<Rightarrow>
          let url = uq_url (request body) in
          if \<not> nt_url_ok net url then (Failed (nt_url_error net url), ms)
          else open_upstream_stream net ty (request body) ms)"

definition ollama_stream_chat :: "net \<Rightarrow> engine_config \<Rightarrow> json \<Rightarrow> metrics \<Rightarrow> upstream_response outcome \<times> metrics" where
  "ollama_stream_chat net cf = stream_chat net engine_ollama (ollama_request cf)"

definition compat_stream_chat :: "net \<Rightarrow> engine_config \<Rightarrow> json \<Rightarrow> metrics \<Rightarrow> upstream_response outcome \<times> metrics" where
  "compat_stream_chat net cf = stream_chat net engine_openai_compat (compat_request cf)"

subsection \<open>Ollama only\<close>

text \<open>\<open>quote\<close> is \<open>%q\<close>, \<open>body\<close> the encoded name.\<close>

definition ollama_delete_model :: "net \<Rightarrow> (string \<Rightarrow> string) \<Rightarrow> string \<Rightarrow> string \<Rightarrow> unit outcome" where
  "ollama_delete_model net quote endpoint model =
     (let url = endpoint @ ''/api/delete'';
          body = marshalled net (JObj [(''name'', JStr model)]) in
      if \<not> nt_url_ok net url then Panicked
      else case nt_send net \<lparr>uq_method = ''DELETE'', uq_url = url, uq_headers = [json_type], uq_body = body\<rparr> of
        Inl e \<Rightarrow> Failed e
      | Inr resp \<Rightarrow>
          if up_status resp < 200 \<or> 300 \<le> up_status resp
          then Failed (''ollama delete '' @ quote model @ '': '' @ up_line resp @ upstream_err_detail net resp)
          else Done ())"

fun first_occurrences :: "string list \<Rightarrow> string list \<Rightarrow> string list" where
  "first_occurrences seen [] = []"
| "first_occurrences seen (m # ms) =
     (if m \<in> set seen then first_occurrences seen ms else m # first_occurrences (m # seen) ms)"

text \<open>\<open>escape\<close> is \<open>url.QueryEscape\<close>, \<open>links\<close> the first group of each match of the link pattern.\<close>

definition ollama_search_models ::
  "net \<Rightarrow> (string \<Rightarrow> string) \<Rightarrow> (string \<Rightarrow> string list) \<Rightarrow> string \<Rightarrow> (string \<times> string) list outcome" where
  "ollama_search_models net escape links query =
     (case get_url net (''https://ollama.com/search?q='' @ escape query) of
        Inl e \<Rightarrow> Failed (''could not reach ollama.com: '' @ e)
      | Inr resp \<Rightarrow>
          if up_status resp \<noteq> 200 then Failed (''ollama.com search returned '' @ itoa (up_status resp))
          else case up_fault resp of
            Some e \<Rightarrow> Failed (''reading ollama.com response: '' @ e)
          | None \<Rightarrow> Done (map (\<lambda>m. (m, ''N/A'')) (first_occurrences [] (links (up_body resp)))))"

subsection \<open>The text of an error is short and on one line\<close>

lemma ascii_space_trimmed: "ascii_space c \<Longrightarrow> trim_left_space (c # cs) \<noteq> c # cs"
proof -
  assume "ascii_space c"
  then have "trim_left_space (c # cs) = trim_left_space cs"
    by (cases "c # cs" rule: trim_left_space.cases) auto
  then show ?thesis by (metis impossible_Cons length_trim_left_space)
qed

lemma take_word_plain: "c \<in> set (fst (take_word s)) \<Longrightarrow> \<not> ascii_space c"
  by (induction s) (auto simp: case_prod_beta Let_def ascii_space_trimmed split: if_splits)

lemma words_plain: "w \<in> set (words s) \<Longrightarrow> c \<in> set w \<Longrightarrow> \<not> ascii_space c"
proof (induction s rule: words.induct)
  case (1 s)
  note IH = "1.IH" [OF refl]
  from "1.prems" show ?case
    unfolding words.simps [of s] using IH by (auto simp: Let_def take_word_plain split: if_splits)
qed

lemma join_chars: "c \<in> set (join sep ws) \<Longrightarrow> c \<in> set sep \<or> (\<exists>w \<in> set ws. c \<in> set w)"
  by (induction sep ws rule: join.induct) auto

definition single_line :: "string \<Rightarrow> bool" where
  "single_line s \<longleftrightarrow> {c \<in> set s. ascii_space c} \<subseteq> {CHR '' ''}"

lemma single_line_append: "single_line (s @ t) \<longleftrightarrow> single_line s \<and> single_line t"
  by (auto simp: single_line_def)

lemma single_line_marks [simp]: "single_line []" "single_line '': ''" "single_line [CHR 0xE2, CHR 0x80, CHR 0xA6]"
  by (auto simp: single_line_def ascii_space_def)

lemma words_single_line: "single_line (join '' '' (words s))"
  using words_plain [of _ s] by (auto simp: single_line_def dest!: join_chars)

lemma rune_text_chars: "t \<in> set (rune_texts s) \<Longrightarrow> c \<in> set t \<Longrightarrow> c \<in> set s \<or> c \<in> {CHR 0xEF, CHR 0xBF, CHR 0xBD}"
proof (induction s rule: rune_texts.induct)
  case (2 a s)
  then show ?case by (auto split: if_splits dest: in_set_takeD in_set_dropD)
qed simp

lemma seq_len_le: "seq_len a \<le> 4"
  by (simp add: seq_len_def Let_def)

lemma rune_text_length: "t \<in> set (rune_texts s) \<Longrightarrow> length t \<le> 4"
proof (induction s rule: rune_texts.induct)
  case (2 a s)
  then show ?case using seq_len_le [of a] by (auto split: if_splits)
qed simp

lemma length_rune_texts: "length (rune_texts s) = length (decode_runes s)"
  by (induction s rule: rune_texts.induct) auto

lemma length_le_runes: "length s \<le> 4 * length (rune_texts s)"
proof (induction s rule: rune_texts.induct)
  case (2 a s)
  then show ?case using seq_len_le [of a] by (auto split: if_splits)
qed simp

lemma length_concat_le: "(\<And>t. t \<in> set ts \<Longrightarrow> length t \<le> k) \<Longrightarrow> length (concat ts) \<le> k * length ts"
  by (induction ts) (auto, fastforce)

lemma cut_length: "length (concat (take 200 (rune_texts line))) \<le> 800"
  using length_concat_le [of "take 200 (rune_texts line)" 4] rune_text_length
  by (force dest: in_set_takeD)

lemma cut_single_line:
  assumes "single_line line"
  shows "single_line (concat (take n (rune_texts line)))"
proof -
  have "c = CHR '' ''" if "c \<in> set (concat (take n (rune_texts line)))" "ascii_space c" for c
  proof -
    from that(1) obtain t where "t \<in> set (rune_texts line)" "c \<in> set t" by (auto dest: in_set_takeD)
    from rune_text_chars [OF this] that(2) have "c \<in> set line" by (auto simp: ascii_space_def)
    with that(2) assms show ?thesis by (auto simp: single_line_def)
  qed
  then show ?thesis unfolding single_line_def by blast
qed

text \<open>What is appended for the line \<open>l\<close>.\<close>

lemma excerpt_bounded:
  assumes "single_line l"
  shows "single_line ('': '' @ (if 200 < length (rune_texts l) then concat (take 200 (rune_texts l)) @ [CHR 0xE2, CHR 0x80, CHR 0xA6] else l))"
    and "length ('': '' @ (if 200 < length (rune_texts l) then concat (take 200 (rune_texts l)) @ [CHR 0xE2, CHR 0x80, CHR 0xA6] else l)) \<le> 805"
  using cut_single_line [OF assms, of 200] cut_length [of l] length_le_runes [of l] assms
  by (cases "200 < length (rune_texts l)"; simp only: if_True if_False single_line_append single_line_marks; simp)+

text \<open>
  Whatever an engine answers an error with, the excerpt shown to the administrator is one line
  of at most 805 bytes, so the session cookie that carries it stays within what browsers take.
\<close>

theorem error_excerpt_bounded:
  "single_line (upstream_err_detail net resp) \<and> length (upstream_err_detail net resp) \<le> 805"
  using excerpt_bounded [OF words_single_line] by (simp add: upstream_err_detail_def Let_def)

subsection \<open>What is recorded\<close>

lemma observed:
  "r \<noteq> Panicked \<Longrightarrow> observe_upstream ty op r ms = (r, ms @ [(ty, op, \<exists>e. r = Failed e)])"
  by (cases r) (simp_all add: observe_upstream_def record_upstream_def)

lemma observed_panic: "observe_upstream ty op Panicked ms = (Panicked, ms)"
  by (simp add: observe_upstream_def)

text \<open>What a call leaves: its outcome, recorded once as \<open>op\<close> of \<open>ty\<close> with whether it failed.\<close>

definition recorded :: "string \<Rightarrow> string \<Rightarrow> metrics \<Rightarrow> 'a outcome \<times> metrics \<Rightarrow> bool" where
  "recorded ty op ms r \<longleftrightarrow> fst r \<noteq> Panicked \<and> snd r = ms @ [(ty, op, \<exists>e. fst r = Failed e)]"

lemma recorded_observe: "r \<noteq> Panicked \<Longrightarrow> recorded ty op ms (observe_upstream ty op r ms)"
  by (simp add: recorded_def observed)

lemma recorded_models: "recorded ty op ms r \<Longrightarrow> recorded ty op ms (models_under key r)"
  by (cases "fst r") (auto simp: recorded_def models_under_def)

lemma recorded_stream: "recorded ty ''stream'' ms (open_upstream_stream net ty req ms)"
  by (simp add: recorded_def open_upstream_stream_def record_upstream_def split: sum.split)

lemma decode_returns [simp]: "decode_reply net who r \<noteq> Panicked"
  by (simp add: decode_reply_def split: sum.split)

lemma status_returns [simp]:
  "(case r of Inl e \<Rightarrow> Failed e | Inr resp \<Rightarrow> status_err net resp) \<noteq> Panicked"
  by (simp add: status_err_def split: sum.split)

lemma status_up:
  "(case r of Inl e \<Rightarrow> Failed e | Inr resp \<Rightarrow> status_err net resp) = Done up \<longleftrightarrow>
     up \<and> (\<exists>resp. r = Inr resp \<and> up_status resp = 200)"
  by (auto simp: status_err_def split: sum.split)

text \<open>
  A health probe succeeds exactly on a 200 and every other end of it is an error; and every
  probe, model list and accepted completion, whole or streamed, is recorded once under its
  engine's type with whether it failed. Only a completion for a URL that is not accepted is not
  recorded: it panics, or, streamed, fails before it is sent.
\<close>

theorem upstream_calls_recorded:
  "recorded engine_ollama ''status'' ms (ollama_status net cf ms) \<and>
   recorded engine_openai_compat ''status'' ms (compat_status net cf ms) \<and>
   (fst (ollama_status net cf ms) = Done up \<longleftrightarrow>
      up \<and> (\<exists>resp. get_url net (ollama_endpoint cf @ ''/api/version'') = Inr resp \<and> up_status resp = 200)) \<and>
   (fst (compat_status net cf ms) = Done up \<longleftrightarrow>
      up \<and> (\<exists>resp. do_req net cf ''GET'' ''/v1/models'' [] = Inr resp \<and> up_status resp = 200)) \<and>
   recorded engine_ollama ''list_models'' ms (ollama_list_models net cf ms) \<and>
   recorded engine_openai_compat ''list_models'' ms (compat_list_models net cf ms) \<and>
   (if nt_url_ok net (ollama_endpoint cf @ ''/api/chat'')
    then recorded engine_ollama ''chat'' ms (ollama_chat net cf req ms) \<and>
         (recorded engine_ollama ''stream'' ms (ollama_stream_chat net cf req ms) = (\<not> isl (nt_marshal net req)))
    else ollama_chat net cf req ms = (Panicked, ms) \<and> snd (ollama_stream_chat net cf req ms) = ms) \<and>
   (if nt_url_ok net (upstream_url cf ''/v1/chat/completions'')
    then recorded engine_openai_compat ''chat'' ms (compat_chat net cf req ms) \<and>
         (recorded engine_openai_compat ''stream'' ms (compat_stream_chat net cf req ms) = (\<not> isl (nt_marshal net req)))
    else compat_chat net cf req ms = (Panicked, ms) \<and> snd (compat_stream_chat net cf req ms) = ms)"
proof (intro conjI, goal_cases)
  case 1 then show ?case by (simp add: ollama_status_def recorded_observe)
next
  case 2 then show ?case by (simp add: compat_status_def recorded_observe)
next
  case 3 then show ?case by (simp add: ollama_status_def observed status_up)
next
  case 4 then show ?case by (simp add: compat_status_def observed status_up)
next
  case 5 then show ?case by (simp add: ollama_list_models_def recorded_models recorded_observe)
next
  case 6 then show ?case by (simp add: compat_list_models_def recorded_models recorded_observe)
next
  case 7 then show ?case
    by (auto simp: ollama_chat_def ollama_stream_chat_def stream_chat_def post_chat_def ollama_request_def Let_def
        observed_panic recorded_stream isl_def intro: recorded_observe split: sum.splits) (simp add: recorded_def)
next
  case 8 then show ?case
    by (auto simp: compat_chat_def compat_stream_chat_def stream_chat_def post_chat_def compat_request_def Let_def
        observed_panic recorded_stream isl_def intro: recorded_observe split: sum.splits) (simp add: recorded_def)
qed


text \<open>The search lists each model once, in the order of the page.\<close>

lemma first_occurrences_props:
  "set (first_occurrences seen ms) = set ms - set seen \<and> distinct (first_occurrences seen ms)"
  by (induction seen ms rule: first_occurrences.induct) auto

end
