(* ===== verification/Admin_Handlers.thy ===== *)
theory Admin_Handlers
  imports Http_Layer Auth Log_Store Upstream Probe_Cache
begin

section \<open>handlers.go: the admin handlers for accounts, users and logs\<close>

text \<open>
  Each handler is a function of the request and the state of the server and of the browser. The
  session exists twice: \<open>as_session\<close> are the values the handlers of one request share, and
  \<open>as_cookie\<close> is what the browser holds, which changes only when a save succeeds. \<open>admin_env\<close>
  has what the request finds outside the program: the clock, the fresh key, and which calls fail.
  Log lines are left out.
\<close>

subsection \<open>State, requests and replies\<close>

record admin_user =
  au_id :: int
  au_email :: string
  au_hash :: string

record 'b admin_state =
  as_session :: session
  as_cookie :: session
  as_users :: user_db
  as_cache :: user_cache
  as_limiters :: "'b limiters"
  as_logs :: log_store
  as_account :: "admin_user option"
  as_guard :: login_guard
  as_engines :: engine_store
  as_metrics :: metrics

record admin_call = admin_request +
  ac_query :: "string \<Rightarrow> string"
  ac_uid :: string \<comment> \<open>the \<open>uid\<close> of the route, digits\<close>
  ac_partial :: "string \<Rightarrow> string" \<comment> \<open>what a form that does not parse leaves behind\<close>

record admin_env =
  ae_now :: int
  ae_later :: int \<comment> \<open>when the password has been checked\<close>
  ae_ts :: string
  ae_hash :: "string \<Rightarrow> string"
  ae_derive :: "string \<Rightarrow> string \<Rightarrow> int \<Rightarrow> string"
  ae_salt :: string
  ae_key :: string \<comment> \<open>\<open>generateAPIKey\<close>\<close>
  ae_token :: "string option" \<comment> \<open>a fresh CSRF token\<close>
  ae_read_fault :: bool
  ae_write_fault :: bool
  ae_db_error :: string
  ae_save :: bool \<comment> \<open>the session store encodes the cookie\<close>
  ae_decode :: "string \<Rightarrow> flash_msg list option"
  ae_encode :: "flash_msg list \<Rightarrow> string"
  ae_max_len :: int
  ae_default_rl :: int
  ae_upper :: "nat \<Rightarrow> bool"
  ae_lower :: "nat \<Rightarrow> bool"
  ae_digit :: "nat \<Rightarrow> bool"
  ae_duration :: "int \<Rightarrow> string" \<comment> \<open>\<open>Duration.String\<close>\<close>
  ae_newest :: "request_log log_table \<Rightarrow> request_log log_table"
  ae_scans :: "nat \<times> request_log \<Rightarrow> bool"
  ae_engines_encode :: "engine_config list \<Rightarrow> string"
  ae_engines_decode :: "string \<Rightarrow> engine_config list option"
  ae_concurrency :: int
  ae_engine_faults :: db_faults
  ae_net :: net
  ae_probes :: probe_cache \<comment> \<open>what the probe cache holds when the page is rendered\<close>
  ae_quote :: "string \<Rightarrow> string" \<comment> \<open>\<open>%q\<close>\<close>
  ae_escape :: "string \<Rightarrow> string" \<comment> \<open>\<open>url.QueryEscape\<close>\<close>
  ae_links :: "string \<Rightarrow> string list" \<comment> \<open>the link pattern of the search page\<close>
  ae_pull :: "upstream_request \<Rightarrow> string + int \<times> string list \<times> string option"
    \<comment> \<open>a pull: the error of \<open>Do\<close>, or status, lines and the scanner's error\<close>

record base_data =
  bd_flashes :: "flash_msg list"
  bd_path :: string
  bd_csrf :: string
  bd_nav :: "nav_engine list"

datatype admin_reply =
    GoTo string
  | Refuse int string
  | TryLater string string \<comment> \<open>\<open>Retry-After\<close> and the text of the 429\<close>
  | KeyPage string
  | Page string base_data string
  | Csv string "string list list"
  | JsonReply int obj
  | Events "string list" \<comment> \<open>the \<open>data\<close> of an event stream\<close>
  | Panics

type_synonym 'b admin_handler = "admin_env \<Rightarrow> admin_call \<Rightarrow> 'b admin_state \<Rightarrow> 'b admin_state \<times> admin_reply"

subsection \<open>Helpers\<close>

definition save_session :: "admin_env \<Rightarrow> 'b admin_state \<Rightarrow> 'b admin_state \<times> bool" where
  "save_session env st = (if ae_save env then (st\<lparr>as_cookie := as_session st\<rparr>, True) else (st, False))"

definition flash_now :: "admin_env \<Rightarrow> string \<Rightarrow> string \<Rightarrow> 'b admin_state \<Rightarrow> 'b admin_state" where
  "flash_now env category msg st =
     fst (save_session env (st\<lparr>as_session := add_flash (ae_decode env) (ae_encode env) category msg (as_session st)\<rparr>))"

definition flash_goto :: "admin_env \<Rightarrow> string \<Rightarrow> string \<Rightarrow> string \<Rightarrow> 'b admin_state \<Rightarrow> 'b admin_state \<times> admin_reply" where
  "flash_goto env category msg to st = (flash_now env category msg st, GoTo to)"

definition is_admin_session :: "'b admin_state \<Rightarrow> bool" where
  "is_admin_session st \<longleftrightarrow> sn_admin (as_session st)"

definition admin_only :: "'b admin_handler \<Rightarrow> 'b admin_handler" where
  "admin_only h env rq st = (if \<not> is_admin_session st then (st, GoTo ''/'') else h env rq st)"

definition parse_admin_form ::
  "string \<Rightarrow> ((string \<Rightarrow> string) \<Rightarrow> 'b admin_handler) \<Rightarrow> 'b admin_handler" where
  "parse_admin_form back h env rq st =
     (case rq_form rq of
        None \<Rightarrow> flash_goto env ''error'' ''Could not read the submitted form. Please try again.'' back st
      | Some f \<Rightarrow> h f env rq st)"

definition new_base_data :: "admin_env \<Rightarrow> string \<Rightarrow> 'b admin_state \<Rightarrow> base_data \<times> 'b admin_state" where
  "new_base_data env path st =
     (let (fs, s1) = consume_flashes (ae_decode env) (as_session st);
          st1 = (if sn_flashes (as_session st) = [] then st else fst (save_session env (st\<lparr>as_session := s1\<rparr>)));
          (tok, s2) = csrf_token (ae_token env) (as_session st1);
          st2 = (if sn_csrf (as_session st1) \<noteq> [] \<or> ae_token env = None then st1 else fst (save_session env (st1\<lparr>as_session := s2\<rparr>)));
          nav = (if is_admin_session st2 then fst (nav_engines (ae_now env) (as_engines st2) (ae_probes env)) else [])
      in (\<lparr>bd_flashes = fs, bd_path = path, bd_csrf = tok, bd_nav = nav\<rparr>, st2))"

definition render :: "string \<Rightarrow> string \<Rightarrow> (admin_call \<Rightarrow> string) \<Rightarrow> 'b admin_handler" where
  "render page path extra env rq st = (let (bd, st1) = new_base_data env path st in (st1, Page page bd (extra rq)))"

text \<open>
  \<open>uid, _ := strconv.Atoi\<close>: a number out of range is read as the bound it exceeds, any other
  error as zero.
\<close>

definition atoi_lossy :: "string \<Rightarrow> int" where
  "atoi_lossy s =
     (case atoi s of
        Some i \<Rightarrow> i
      | None \<Rightarrow>
          let neg = (s \<noteq> [] \<and> hd s = CHR ''-''); ds = (if s \<noteq> [] \<and> hd s \<in> {CHR ''-'', CHR ''+''} then tl s else s) in
          if ds \<noteq> [] \<and> list_all (\<lambda>c. 48 \<le> byte c \<and> byte c \<le> 57) ds
          then (if neg then - (2 ^ 63) else 2 ^ 63 - 1) else 0)"

definition uid_from_vars :: "admin_call \<Rightarrow> int" where
  "uid_from_vars rq = atoi_lossy (ac_uid rq)"

subsection \<open>Login, logout and the password\<close>

definition handle_index :: "'b admin_handler" where
  "handle_index = render ''login'' ''/'' (\<lambda>_. [])"

definition set_admin :: "bool \<Rightarrow> 'b admin_state \<Rightarrow> 'b admin_state" where
  "set_admin b st = st\<lparr>as_session := (as_session st)\<lparr>sn_admin := b\<rparr>\<rparr>"

definition handle_logout :: "'b admin_handler" where
  "handle_logout env rq st =
     (let (st1, saved) = save_session env (set_admin False st) in
      if \<not> saved then (st1, Refuse 500 ''could not end session'') else (st1, GoTo ''/''))"

definition get_admin :: "bool \<Rightarrow> 'b admin_state \<Rightarrow> admin_user db_result" where
  "get_admin fault st =
     (if fault then DbError else case as_account st of None \<Rightarrow> Missing | Some a \<Rightarrow> Found a)"

definition password_right :: "admin_env \<Rightarrow> string \<Rightarrow> admin_user db_result \<Rightarrow> bool" where
  "password_right env password r =
     (case r of Found a \<Rightarrow> verify_password (ae_derive env) (au_hash a) password | _ \<Rightarrow> False)"

definition handle_admin_login :: "'b admin_handler" where
  "handle_admin_login env rq st =
     (case rq_form rq of
        None \<Rightarrow> (st, Refuse 400 ''bad request'')
      | Some f \<Rightarrow>
          let (ok, retry) = guard_allow (as_guard st) (ae_now env) in
          if \<not> ok then
            (let secs = go_div (retry + ns_second - 1) ns_second in
             (st, TryLater (itoa secs) (''Too many failed attempts. Try again in '' @ ae_duration env (secs * ns_second) @ ''.'')))
          else
            let admin = get_admin (ae_read_fault env) st in
            if admin = DbError then (st, Refuse 500 ''Internal server error'')
            else if \<not> password_right env (f ''password'') admin
            then flash_goto env ''error'' ''Invalid password'' ''/''
                   (st\<lparr>as_guard := snd (guard_failed (as_guard st) (ae_later env))\<rparr>)
            else
              let (st1, saved) = save_session env (set_admin True (st\<lparr>as_guard := guard_succeeded (as_guard st)\<rparr>)) in
              if \<not> saved then (st1, Refuse 500 ''could not start session'') else (st1, GoTo ''/admin/panel''))"

definition update_admin_password :: "bool \<Rightarrow> int \<Rightarrow> string \<Rightarrow> 'b admin_state \<Rightarrow> 'b admin_state \<times> bool" where
  "update_admin_password fault i hash st =
     (if fault then (st, False)
      else (st\<lparr>as_account := map_option (\<lambda>a. if au_id a = i then a\<lparr>au_hash := hash\<rparr> else a) (as_account st)\<rparr>, True))"

definition change_password :: "(string \<Rightarrow> string) \<Rightarrow> 'b admin_handler" where
  "change_password f env rq st =
     (let admin = get_admin (ae_read_fault env) st;
          (valid, msg) = validate_password (ae_upper env) (ae_lower env) (ae_digit env) (f ''new'') in
      if \<not> password_right env (f ''current'') admin
      then flash_goto env ''error'' ''Invalid current password'' settings_page st
      else if f ''new'' \<noteq> f ''confirm'' then flash_goto env ''error'' ''Passwords do not match'' settings_page st
      else if \<not> valid then flash_goto env ''error'' msg settings_page st
      else case admin of
          Found a \<Rightarrow>
            (let (st1, ok) = update_admin_password (ae_write_fault env) (au_id a)
                               (hash_password (ae_derive env) (ae_salt env) (f ''new'')) st in
             if \<not> ok then (st1, Refuse 500 ''Internal server error'')
             else
               let fs = ae_encode env [\<lparr>fm_category = ''success'', fm_message = ''Password updated. Please log in again.''\<rparr>];
                   st2 = st1\<lparr>as_session := (as_session st1)\<lparr>sn_admin := False, sn_flashes := fs\<rparr>\<rparr>
               in (fst (save_session env st2), GoTo ''/''))
        | _ \<Rightarrow> (st, Panics))"

definition handle_change_password :: "'b admin_handler" where
  "handle_change_password = admin_only (parse_admin_form settings_page change_password)"

subsection \<open>Users\<close>

definition html_escape :: "string \<Rightarrow> string" where
  "html_escape s =
     concat (map (\<lambda>c. if c = CHR ''&'' then ''&amp;'' else if c = CHR 0x27 then ''&#39;''
       else if c = CHR ''<'' then ''&lt;'' else if c = CHR ''>'' then ''&gt;''
       else if c = CHR 0x22 then ''&#34;'' else [c]) s)"

definition quote_char :: string where "quote_char = [CHR 0x27]"

text \<open>The dash of the page is the three bytes of U+2014.\<close>

definition write_api_key_page :: "string \<Rightarrow> string \<Rightarrow> string \<Rightarrow> string" where
  "write_api_key_page heading name key =
     ''<h2 style='' @ quote_char @ ''font-family:sans-serif'' @ quote_char @ ''>'' @ html_escape heading @ ''</h2>'' @
     ''<p>API key for <strong>'' @ html_escape name @ ''</strong>:</p>'' @
     ''<pre style='' @ quote_char @ ''background:#111;color:#0f0;padding:12px'' @ quote_char @ ''>'' @ html_escape key @ ''</pre>'' @
     ''<p>Save this key '' @ [CHR 0xE2, CHR 0x80, CHR 0x94] @ '' it will not be shown again.</p>'' @
     ''<p><a href='' @ quote_char @ ''/admin/panel'' @ quote_char @ ''>Back to admin panel</a></p>''"

definition register :: "(string \<Rightarrow> string) \<Rightarrow> 'b admin_handler" where
  "register f env rq st =
     (case truncate_input (ae_max_len env) (f ''name'') of
        None \<Rightarrow> (st, Panics)
      | Some name \<Rightarrow>
          if \<not> validate_name name
          then flash_goto env ''error'' ''Client name must be between 1 and 100 characters'' ''/admin/panel'' st
          else case create_user (ae_hash env) (ae_write_fault env) (ae_ts env) name (ae_key env) (ae_default_rl env) (as_users st) of
              None \<Rightarrow> flash_goto env ''error'' (ae_db_error env) ''/admin/panel'' st
            | Some d \<Rightarrow> (st\<lparr>as_users := d\<rparr>, KeyPage (write_api_key_page ''Registration Successful'' name (ae_key env))))"

definition handle_register :: "'b admin_handler" where
  "handle_register = admin_only (parse_admin_form ''/admin/panel'' register)"

text \<open>The users table and its cache, as the functions of db.go take them.\<close>

definition put_users :: "user_db \<times> user_cache \<Rightarrow> 'b admin_state \<Rightarrow> 'b admin_state" where
  "put_users dc st = st\<lparr>as_users := fst dc, as_cache := snd dc\<rparr>"

definition look_up :: "admin_env \<Rightarrow> int \<Rightarrow> 'b admin_state \<Rightarrow> user db_result \<times> 'b admin_state" where
  "look_up env uid st =
     (let (r, c) = get_user_by_id (ae_read_fault env) (ae_now env) uid (as_users st) (as_cache st)
      in (r, st\<lparr>as_cache := c\<rparr>))"

definition toggled :: "string \<Rightarrow> string" where
  "toggled status = (if status = ''active'' then ''disabled'' else ''active'')"

definition handle_toggle :: "'b admin_handler" where
  "handle_toggle = admin_only (\<lambda>env rq st.
     let uid = uid_from_vars rq; (r, st1) = look_up env uid st in
     case r of
       Found u \<Rightarrow>
         let (dc, ok) = update_user_status (ae_write_fault env) uid (toggled (us_status u)) (as_users st1, as_cache st1) in
         if \<not> ok then (st1, Refuse 500 ''Internal server error'') else (put_users dc st1, GoTo ''/admin/panel'')
     | _ \<Rightarrow> (st1, Refuse 404 ''User not found''))"

definition handle_admin_reset_key :: "'b admin_handler" where
  "handle_admin_reset_key = admin_only (\<lambda>env rq st.
     let uid = uid_from_vars rq; (r, st1) = look_up env uid st in
     case r of
       Found u \<Rightarrow>
         let (dc, ok) = reset_user_api_key (ae_hash env) (ae_write_fault env) uid (ae_key env) (as_users st1, as_cache st1) in
         if \<not> ok then (st1, Refuse 500 ''Internal server error'')
         else (put_users dc st1, KeyPage (write_api_key_page ''API Key Reset'' (us_name u) (ae_key env)))
     | _ \<Rightarrow> (st1, Refuse 404 ''User not found''))"

definition clamp_rate :: "string \<Rightarrow> int" where
  "clamp_rate s =
     (let rl = (case atoi s of None \<Rightarrow> 1 | Some i \<Rightarrow> if i < 1 then 1 else i) in if 1000 < rl then 1000 else rl)"

definition update_rate_limit :: "(string \<Rightarrow> string) \<Rightarrow> 'b admin_handler" where
  "update_rate_limit f env rq st =
     (let uid = uid_from_vars rq; rl = clamp_rate (f ''rate_limit'');
          (dc, ok) = update_user_rate_limit (ae_write_fault env) uid rl (as_users st, as_cache st) in
      if \<not> ok then (st, Refuse 500 ''Internal server error'')
      else flash_goto env ''success''
             (''Rate limit updated for user '' @ itoa uid @ '': '' @ itoa rl @ '' requests/minute'') ''/admin/panel''
             ((put_users dc st)\<lparr>as_limiters := drop_user_limiter uid (as_limiters st)\<rparr>))"

definition handle_update_rate_limit :: "'b admin_handler" where
  "handle_update_rate_limit = admin_only (parse_admin_form ''/admin/panel'' update_rate_limit)"

subsection \<open>Export and deletion\<close>

definition export_row :: "nat \<times> interaction_log \<Rightarrow> string list" where
  "export_row r = [itoa (int (fst r)), il_prompt (snd r), il_response (snd r), il_ts (snd r)]"

text \<open>
  A save that adds the cookie when \<open>body\<close> has been written and flushed. A response is
  committed by its first byte, and net/http documents that a header set later has no effect.
\<close>

definition save_late :: "'x list \<Rightarrow> admin_env \<Rightarrow> 'b admin_state \<Rightarrow> 'b admin_state" where
  "save_late body env st = (if body = [] then fst (save_session env st) else st)"

definition handle_export :: "'b admin_handler" where
  "handle_export = admin_only (\<lambda>env rq st.
     let uid = uid_from_vars rq in
     case get_user_logs (ae_read_fault env) uid (ls_logs (as_logs st)) of
       None \<Rightarrow> (st, Refuse 500 ''Internal server error'')
     | Some rows \<Rightarrow>
         let csv = [''log_id'', ''prompt'', ''response'', ''timestamp''] # map export_row rows in
         (save_late csv env (st\<lparr>as_session := (as_session st)\<lparr>sn_exported := insert uid (sn_exported (as_session st))\<rparr>\<rparr>),
          Csv (''user_'' @ itoa uid @ ''_audit.csv'') csv))"

definition request_csv_row :: "nat \<times> request_log \<Rightarrow> string list" where
  "request_csv_row r =
     [itoa (int (fst r)), rl_ts (snd r), rl_method (snd r), rl_path (snd r), rl_client_ip (snd r), rl_user_name (snd r),
      itoa (rl_status (snd r)), rl_request_id (snd r), rl_model_requested (snd r), rl_model_served (snd r),
      rl_engine_name (snd r), rl_engine_type (snd r), itoa (rl_streamed (snd r)), itoa (rl_ttft_ms (snd r)),
      itoa (rl_duration_ms (snd r)), itoa (rl_in (snd r)), itoa (rl_out (snd r)), rl_stop_reason (snd r),
      rl_outcome (snd r), rl_upstream_err (snd r), rl_user_agent (snd r)]"

definition request_csv_header :: "string list" where
  "request_csv_header =
     [''id'', ''timestamp'', ''method'', ''path'', ''client_ip'', ''client_name'', ''status_code'', ''request_id'',
      ''model_requested'', ''model_served'', ''engine_name'', ''engine_type'', ''streamed'', ''ttft_ms'', ''duration_ms'',
      ''in_tokens'', ''out_tokens'', ''stop_reason'', ''outcome'', ''upstream_error'', ''user_agent'']"

text \<open>The export stops at the first row that does not scan.\<close>

definition handle_export_all_logs :: "'b admin_handler" where
  "handle_export_all_logs = admin_only (\<lambda>env rq st.
     if ae_read_fault env then (st, Refuse 500 ''Internal server error'')
     else (st, Csv ''request_logs.csv''
             (request_csv_header # map request_csv_row (takeWhile (ae_scans env) (ae_newest env (ls_requests (as_logs st)))))))"

definition handle_confirm_delete :: "'b admin_handler" where
  "handle_confirm_delete =
     admin_only (\<lambda>env rq. render ''confirm_delete'' (''/confirm-delete/'' @ ac_uid rq) (\<lambda>rq. itoa (uid_from_vars rq)) env rq)"

text \<open>\<open>deleteUser\<close>: the rows go in one transaction, then the cache entries and the limiter.\<close>

definition remove_user :: "bool \<Rightarrow> int \<Rightarrow> 'b admin_state \<Rightarrow> 'b admin_state \<times> bool" where
  "remove_user fault uid st =
     (let (dc, ok) = delete_user fault uid (as_users st, as_cache st) in
      if \<not> ok then (st, False)
      else ((put_users dc st)\<lparr>as_logs := delete_user_logs uid (as_logs st),
                              as_limiters := drop_user_limiter uid (as_limiters st)\<rparr>, True))"

definition handle_delete :: "'b admin_handler" where
  "handle_delete = admin_only (\<lambda>env rq st.
     let uid = uid_from_vars rq in
     if uid \<notin> sn_exported (as_session st) then (st, Refuse 403 ''Export required before delete'')
     else
       let (st1, ok) = remove_user (ae_write_fault env) uid st in
       if \<not> ok then (st1, Refuse 500 ''Internal server error'')
       else (fst (save_session env (st1\<lparr>as_session := (as_session st1)\<lparr>sn_exported := sn_exported (as_session st1) - {uid}\<rparr>\<rparr>)),
             GoTo ''/admin/panel''))"

subsection \<open>Reset and the pages\<close>

definition reset_target :: "string \<Rightarrow> string" where
  "reset_target next =
     (if next = ''admin_logs'' then ''/admin/logs''
      else if next = ''settings_page'' then ''/admin/settings-page'' else ''/admin/panel'')"

definition handle_reset_system :: "'b admin_handler" where
  "handle_reset_system = admin_only (\<lambda>env rq st.
     let (sl, ok) = reset_system (ae_write_fault env) (as_logs st, as_limiters st) in
     if \<not> ok then (st, Refuse 500 ''Internal server error'')
     else flash_goto env ''success'' ''System reset: all logs and rate-limit entries have been cleared.''
            (reset_target (case rq_form rq of None \<Rightarrow> ac_partial rq ''next'' | Some f \<Rightarrow> f ''next''))
            (st\<lparr>as_logs := fst sl, as_limiters := snd sl\<rparr>))"

definition handle_users :: "'b admin_handler" where
  "handle_users = admin_only (\<lambda>env rq st. (st, GoTo ''/admin/panel''))"

definition handle_admin_help :: "'b admin_handler" where
  "handle_admin_help = admin_only (render ''help'' ''/admin/help'' (\<lambda>_. []))"

definition handle_admin_logs :: "'b admin_handler" where
  "handle_admin_logs = admin_only (render ''logs'' ''/admin/logs'' (\<lambda>rq. trim_space (ac_query rq ''q'')))"

subsection \<open>Engines\<close>

text \<open>The handlers of Engine Settings end in a redirect with at most one flash.\<close>

definition with_flash :: "admin_env \<Rightarrow> engine_store \<times> reply \<Rightarrow> 'b admin_state \<Rightarrow> 'b admin_state \<times> admin_reply" where
  "with_flash env r st =
     (case snd r of
        Redirect to f \<Rightarrow>
          let st1 = st\<lparr>as_engines := fst r\<rparr> in
          (case f of None \<Rightarrow> (st1, GoTo to) | Some m \<Rightarrow> flash_goto env (fm_category m) (fm_message m) to st1))"

definition plain_request :: "admin_call \<Rightarrow> 'b admin_state \<Rightarrow> admin_request" where
  "plain_request rq st = \<lparr>rq_admin = is_admin_session st, rq_form = rq_form rq\<rparr>"

definition admin_engine_settings :: "'b admin_handler" where
  "admin_engine_settings env rq st =
     with_flash env (handle_engine_settings (ae_engines_encode env) (ae_engines_decode env) (ae_concurrency env)
       (ae_engine_faults env) (plain_request rq st) (as_engines st)) st"

definition admin_remove_engine :: "'b admin_handler" where
  "admin_remove_engine env rq st =
     with_flash env (handle_remove_engine (ae_engines_encode env) (ae_engines_decode env) (ae_concurrency env)
       (ae_engine_faults env) (plain_request rq st) (as_engines st)) st"

definition adapter_status :: "net \<Rightarrow> engine_config \<Rightarrow> metrics \<Rightarrow> bool outcome \<times> metrics" where
  "adapter_status net cf = (if ec_type cf = engine_ollama then ollama_status net cf else compat_status net cf)"

definition adapter_list_models :: "net \<Rightarrow> engine_config \<Rightarrow> metrics \<Rightarrow> obj list outcome \<times> metrics" where
  "adapter_list_models net cf = (if ec_type cf = engine_ollama then ollama_list_models net cf else compat_list_models net cf)"

definition test_line :: "engine_config \<Rightarrow> bool outcome \<Rightarrow> string" where
  "test_line e r =
     (case r of
        Failed err \<Rightarrow> ec_name e @ '': failed ('' @ err @ '')''
      | Done up \<Rightarrow> if up then ec_name e @ '': OK ('' @ ec_type e @ '')'' else ec_name e @ '': not responding''
      | Panicked \<Rightarrow> [])"

fun test_engines :: "net \<Rightarrow> engine_store \<Rightarrow> engine_config list \<Rightarrow> metrics \<Rightarrow> string list \<times> metrics" where
  "test_engines net es [] ms = ([], ms)"
| "test_engines net es (e # rest) ms =
     (let (line, ms1) =
        (case cached_adapter es (ec_id e) of
           None \<Rightarrow> (ec_name e @ '': error (cached adapter missing)'', ms)
         | Some a \<Rightarrow> (let (r, ms1) = adapter_status net (ad_cfg a) ms in (test_line e r, ms1)));
          (lines, ms2) = test_engines net es rest ms1
      in (line # lines, ms2))"

definition no_engines_text :: string where
  "no_engines_text =
     ''No engines saved yet. Test Saved Engines only checks engines already added '' @ [CHR 0xE2, CHR 0x80, CHR 0x94] @
     '' click Add Engine first, then test.''"

definition handle_engine_test :: "'b admin_handler" where
  "handle_engine_test = admin_only (\<lambda>env rq st.
     let engines = cached_engines (as_engines st) in
     if engines = [] then flash_goto env ''error'' no_engines_text settings_page st
     else
       let (results, ms) = test_engines (ae_net env) (as_engines st) engines (as_metrics st);
           st1 = st\<lparr>as_metrics := ms\<rparr> in
       if length results = 1 \<and> contains (hd results) ''OK''
       then flash_goto env ''success'' (hd results) settings_page st1
       else flash_goto env ''info'' (join ''; '' results) settings_page st1)"

definition draft_reply :: "int \<Rightarrow> bool \<Rightarrow> string \<Rightarrow> admin_reply" where
  "draft_reply code ok msg = JsonReply code [(''ok'', JBool ok), (''message'', JStr msg)]"

text \<open>The configuration saving would store: the saved engine of that id, or a new one, edited.\<close>

definition draft_engine ::
  "(string \<Rightarrow> string) \<Rightarrow> string \<Rightarrow> string \<Rightarrow> int \<Rightarrow> engine_config list \<Rightarrow> engine_config" where
  "draft_engine f ty url port engines =
     (let draft = \<lparr>ec_id = 0, ec_name = ''draft'', ec_type = [], ec_base_url = [], ec_port = 0, ec_api_key = []\<rparr>;
          ec = (case atoi (f ''engine_id'') of
                  None \<Rightarrow> draft
                | Some i \<Rightarrow> (case List.find (\<lambda>e. ec_id e = i) engines of None \<Rightarrow> draft | Some e \<Rightarrow> e))
      in apply_engine_edit ty [] url port (f ''api_key'') ec)"

definition try_draft :: "net \<Rightarrow> engine_config \<Rightarrow> metrics \<Rightarrow> (bool \<times> string) \<times> metrics" where
  "try_draft net ec ms =
     (let (r, ms1) = adapter_status net ec ms in
      case r of
        Failed e \<Rightarrow> ((False, ''Connection failed: '' @ e), ms1)
      | Panicked \<Rightarrow> ((False, []), ms1)
      | Done up \<Rightarrow>
          if \<not> up then ((False, ''The engine answered, but does not report itself as ready''), ms1)
          else let (l, ms2) = adapter_list_models net ec ms1 in
            case l of
              Done models \<Rightarrow> ((True, ''Connected. '' @ itoa (int (length models)) @ '' model(s) available.''), ms2)
            | Failed e \<Rightarrow> ((True, ''Connected, but listing models failed: '' @ e), ms2)
            | Panicked \<Rightarrow> ((False, []), ms2))"

definition handle_engine_test_draft :: "'b admin_handler" where
  "handle_engine_test_draft env rq st =
     (if \<not> is_admin_session st then (st, draft_reply 401 False ''Session expired; log in again'')
      else case rq_form rq of
        None \<Rightarrow> (st, draft_reply 200 False ''Could not read the form'')
      | Some f \<Rightarrow>
          (case engine_form_fields f of
             BadField msg \<Rightarrow> (st, draft_reply 200 False msg)
           | Fields ty url port \<Rightarrow>
               let ec = draft_engine f ty url port (cached_engines (as_engines st)) in
               case new_engine (ae_concurrency env) ec of
                 None \<Rightarrow> (st, draft_reply 200 False (''unknown engine type: '' @ ec_type ec))
               | Some a \<Rightarrow>
                   let ((ok, msg), ms) = try_draft (ae_net env) ec (as_metrics st)
                   in (st\<lparr>as_metrics := ms\<rparr>, draft_reply 200 ok msg)))"

text \<open>\<open>onEnginesChanged\<close>: the probe cache and the routing index are told.\<close>

definition admin_engines_changed :: "'b admin_state \<Rightarrow> 'b admin_state" where
  "admin_engines_changed st = st\<lparr>as_engines := (as_engines st)\<lparr>es_changes := es_changes (as_engines st) + 1\<rparr>\<rparr>"

definition delete_model :: "(string \<Rightarrow> string) \<Rightarrow> 'b admin_handler" where
  "delete_model f env rq st =
     (let model = trim_space (f ''model''); q = [CHR 0x27] in
      if model = [] then flash_goto env ''error'' ''Model name is required'' settings_page st
      else case find_ollama_engine (as_engines st) (atoi_lossy (f ''engine_id'')) of
        None \<Rightarrow> flash_goto env ''error'' ''No Ollama engine available to delete from'' settings_page st
      | Some e \<Rightarrow>
          (case ollama_delete_model (ae_net env) (ae_quote env) (ollama_endpoint e) model of
             Panicked \<Rightarrow> (st, Panics)
           | Failed err \<Rightarrow> flash_goto env ''error'' (''Could not delete '' @ q @ model @ q @ '': '' @ err) settings_page st
           | Done _ \<Rightarrow>
               flash_goto env ''success'' (''Model '' @ q @ model @ q @ '' deleted from '' @ ec_name e @ ''.'') settings_page
                 (admin_engines_changed st)))"

definition handle_ollama_delete_model :: "'b admin_handler" where
  "handle_ollama_delete_model = admin_only (parse_admin_form settings_page delete_model)"

definition json_err :: "net \<Rightarrow> string \<Rightarrow> string" where
  "json_err net msg = marshalled net (JObj [(''error'', JStr msg)])"

definition pull_events :: "net \<Rightarrow> int \<times> string list \<times> string option \<Rightarrow> string list" where
  "pull_events net r =
     (let (status, lines, err) = r in
      if status \<noteq> 200 then [json_err net (''Ollama returned '' @ itoa status)]
      else filter (\<lambda>l. trim_space l \<noteq> []) lines @
           (case err of None \<Rightarrow> [] | Some e \<Rightarrow> [json_err net (''Pull interrupted: '' @ e)]) @ [''[DONE]''])"

definition ollama_pull_stream :: "string \<Rightarrow> int \<Rightarrow> 'b admin_handler" where
  "ollama_pull_stream model engine_id env rq st =
     (case find_ollama_engine (as_engines st) engine_id of
        None \<Rightarrow> (st, Events [json_err (ae_net env) ''No matching Ollama engine configured''])
      | Some e \<Rightarrow>
          let url = ollama_endpoint e @ ''/api/pull'';
              body = marshalled (ae_net env) (JObj [(''name'', JStr model), (''stream'', JBool True)]);
              events =
                (if \<not> nt_url_ok (ae_net env) url then [json_err (ae_net env) (nt_url_error (ae_net env) url)]
                 else case ae_pull env \<lparr>uq_method = ''POST'', uq_url = url, uq_headers = [json_type], uq_body = body\<rparr> of
                   Inl err \<Rightarrow> [json_err (ae_net env) err]
                 | Inr r \<Rightarrow> pull_events (ae_net env) r)
          in (admin_engines_changed st, Events events))"

definition handle_ollama_pull_stream :: "'b admin_handler" where
  "handle_ollama_pull_stream env rq st =
     (if \<not> is_admin_session st then (st, JsonReply 401 [(''error'', JStr ''Unauthorized'')])
      else if \<not> csrf_query_valid (as_session st) (ac_query rq ''_csrf'') then (st, JsonReply 403 [(''error'', JStr csrf_refusal)])
      else
        let model = trim_space (ac_query rq ''model'') in
        if model = [] then (st, JsonReply 400 [(''error'', JStr ''Model name required'')])
        else ollama_pull_stream model (atoi_lossy (ac_query rq ''engine_id'')) env rq st)"

definition handle_ollama_search :: "'b admin_handler" where
  "handle_ollama_search env rq st =
     (if \<not> is_admin_session st then (st, JsonReply 401 [(''error'', JStr ''Unauthorized'')])
      else
        let query = trim_space (ac_query rq ''q'') in
        if query = [] then (st, JsonReply 200 [(''results'', JArr [])])
        else case ollama_search_models (ae_net env) (ae_escape env) (ae_links env) query of
          Done rs \<Rightarrow>
            (st, JsonReply 200 [(''results'', JArr (map (\<lambda>(n, size). JObj [(''Name'', JStr n), (''Size'', JStr size)]) rs))])
        | Failed e \<Rightarrow> (st, JsonReply 502 [(''error'', JStr e)])
        | Panicked \<Rightarrow> (st, Panics))"

end
