(* ===== verification/Admin_Router.thy ===== *)
theory Admin_Router
  imports Admin_Handlers
begin

section \<open>main.go and handlers.go: the routes, and what a run of admin requests can do\<close>

text \<open>
  The route table of \<open>setupRouter\<close>, and the admin handlers as steps of one browser against the
  server: every request starts from the session of the cookie the browser holds. How a pattern
  matches a path is gorilla/mux, an argument of the theorem on the routes.
\<close>

subsection \<open>Routes\<close>

datatype admin_route =
    Index | Login | Logout | EngineTest | EngineTestDraft | PullStream | DeleteModel | EngineSettings | EngineRemove
  | ModelSearch | ChangePassword | Help | Logs | ExportLogs | ResetSystem | ResetUserKey | UpdateRateLimit | Register
  | Toggle | Export | ConfirmDelete | Delete | Users

datatype endpoint =
    Images | Static | Preflight | Health | Admin admin_route | Panel | SettingsPage | LogsData | SystemLogs
  | SystemLogsExport | SystemLogsReset | ListModels | ChatCompletions | Messages | CountTokens | Metrics

text \<open>A path, a prefix, or a path that ends in the number \<open>uid\<close>.\<close>

datatype pattern = Exact string | Prefix string | Numbered string

definition setup_router :: "(pattern \<times> string \<times> endpoint) list" where
  "setup_router =
     [(Prefix ''/images/'', [], Images), (Prefix ''/static/'', [], Static), (Prefix ''/v1/'', ''OPTIONS'', Preflight),
      (Exact ''/'', ''GET'', Admin Index), (Exact ''/health'', ''GET'', Health), (Exact ''/admin'', ''POST'', Admin Login),
      (Exact ''/logout'', ''POST'', Admin Logout),
      (Exact ''/admin/panel'', ''GET'', Panel), (Exact ''/admin/settings-page'', ''GET'', SettingsPage),
      (Exact ''/admin/engine-test'', ''GET'', Admin EngineTest),
      (Exact ''/admin/engine-test-draft'', ''POST'', Admin EngineTestDraft),
      (Exact ''/admin/ollama-pull-stream'', ''GET'', Admin PullStream),
      (Exact ''/admin/ollama-delete-model'', ''POST'', Admin DeleteModel),
      (Exact ''/admin/engine-settings'', ''POST'', Admin EngineSettings),
      (Exact ''/admin/engine-remove'', ''POST'', Admin EngineRemove),
      (Exact ''/admin/ollama-search'', ''GET'', Admin ModelSearch),
      (Exact ''/admin/change-password'', ''POST'', Admin ChangePassword),
      (Exact ''/admin/help'', ''GET'', Admin Help), (Exact ''/admin/logs'', ''GET'', Admin Logs),
      (Exact ''/admin/logs/data'', ''GET'', LogsData), (Exact ''/admin/logs/system'', ''GET'', SystemLogs),
      (Exact ''/admin/logs/system/export'', ''GET'', SystemLogsExport),
      (Exact ''/admin/logs/system/reset'', ''POST'', SystemLogsReset),
      (Exact ''/admin/export-logs'', ''GET'', Admin ExportLogs), (Exact ''/admin/reset-system'', ''POST'', Admin ResetSystem),
      (Numbered ''/admin/reset/'', ''POST'', Admin ResetUserKey),
      (Numbered ''/admin/update-rate-limit/'', ''POST'', Admin UpdateRateLimit),
      (Exact ''/register'', ''POST'', Admin Register), (Numbered ''/toggle/'', ''POST'', Admin Toggle),
      (Numbered ''/export/'', ''GET'', Admin Export), (Numbered ''/confirm-delete/'', ''GET'', Admin ConfirmDelete),
      (Numbered ''/delete/'', ''POST'', Admin Delete), (Exact ''/users'', ''GET'', Admin Users),
      (Exact ''/v1/models'', ''GET'', ListModels), (Exact ''/v1/chat/completions'', ''POST'', ChatCompletions),
      (Exact ''/v1/messages'', ''POST'', Messages), (Exact ''/v1/messages/count_tokens'', ''POST'', CountTokens),
      (Exact ''/metrics'', ''GET'', Metrics)]"

fun route_handler :: "admin_route \<Rightarrow> 'b admin_handler" where
  "route_handler Index = handle_index"
| "route_handler Login = handle_admin_login"
| "route_handler Logout = handle_logout"
| "route_handler EngineTest = handle_engine_test"
| "route_handler EngineTestDraft = handle_engine_test_draft"
| "route_handler PullStream = handle_ollama_pull_stream"
| "route_handler DeleteModel = handle_ollama_delete_model"
| "route_handler EngineSettings = admin_engine_settings"
| "route_handler EngineRemove = admin_remove_engine"
| "route_handler ModelSearch = handle_ollama_search"
| "route_handler ChangePassword = handle_change_password"
| "route_handler Help = handle_admin_help"
| "route_handler Logs = handle_admin_logs"
| "route_handler ExportLogs = handle_export_all_logs"
| "route_handler ResetSystem = handle_reset_system"
| "route_handler ResetUserKey = handle_admin_reset_key"
| "route_handler UpdateRateLimit = handle_update_rate_limit"
| "route_handler Register = handle_register"
| "route_handler Toggle = handle_toggle"
| "route_handler Export = handle_export"
| "route_handler ConfirmDelete = handle_confirm_delete"
| "route_handler Delete = handle_delete"
| "route_handler Users = handle_users"

subsection \<open>Health and CORS preflight\<close>

definition handle_health :: "act list" where
  "handle_health = [SetHeader ''Content-Type'' ''application/json'', Write (Bytes ''{\"status\":\"ok\"}'')]"

definition handle_cors_preflight :: "act list" where
  "handle_cors_preflight = map (\<lambda>(k, v). SetHeader k v) cors_headers @ [WriteHeader 204]"

lemma preflight_status: "rp_status (foldl run_act new_recorder handle_cors_preflight) = 204"
  by (simp add: handle_cors_preflight_def cors_headers_def new_recorder_def set_header_def write_header_def commit_def)

subsection \<open>The metric labels are bounded by the routes\<close>

text \<open>What gorilla/mux documents of the three kinds of pattern.\<close>

definition mux_matching :: "(pattern \<Rightarrow> string \<Rightarrow> bool) \<Rightarrow> bool" where
  "mux_matching m \<longleftrightarrow>
     (\<forall>p path. m (Exact p) path \<longrightarrow> path = p) \<and> (\<forall>p path. m (Prefix p) path \<longrightarrow> has_prefix path p) \<and>
     (\<forall>p path. m (Numbered p) path \<longrightarrow> has_prefix path p \<and> CHR ''/'' \<notin> set (drop (length p) path))"

definition metric_labels :: "string list" where
  "metric_labels = bucket_paths @
     [''/admin/*'', ''/v1/*'', ''/images/*'', ''/static/*'', ''/toggle/*'', ''/export/*'', ''/confirm-delete/*'',
      ''/delete/*'', ''/register'', ''/users'']"

definition first_segment :: "string \<Rightarrow> string" where
  "first_segment p = takeWhile (\<lambda>c. c \<noteq> CHR ''/'') (tl p)"

text \<open>A pattern whose paths all get one of the labels.\<close>

definition label_bounded :: "pattern \<Rightarrow> bool" where
  "label_bounded pat =
     (let open_ended = (\<lambda>p. p \<noteq> [] \<and> hd p = CHR ''/'' \<and> CHR ''/'' \<in> set (tl p) \<and> first_segment p \<noteq> [] \<and>
                          ''/'' @ first_segment p @ ''/*'' \<in> set metric_labels)
      in case pat of
        Exact p \<Rightarrow> (case path_bucket p of None \<Rightarrow> False | Some l \<Rightarrow> l \<in> set metric_labels)
      | Prefix p \<Rightarrow> open_ended p
      | Numbered p \<Rightarrow> open_ended p)"

lemma routes_bounded: "list_all (\<lambda>(pat, _). label_bounded pat) setup_router"
  by code_simp

lemma bucket_of_open_path:
  assumes "p \<noteq> []" and "hd p = CHR ''/''" and "CHR ''/'' \<in> set (tl p)" and "first_segment p \<noteq> []"
  shows "\<exists>l. path_bucket (p @ r) = Some l \<and> l \<in> set (bucket_paths @ [''/admin/*'', ''/v1/*'', ''/'' @ first_segment p @ ''/*''])"
proof -
  obtain q where p: "p = CHR ''/'' # q" using assms(1,2) by (cases p) auto
  have "takeWhile (\<lambda>c. c \<noteq> CHR ''/'') (q @ r) = takeWhile (\<lambda>c. c \<noteq> CHR ''/'') q"
    using assms(3) p by (auto intro: takeWhile_append1)
  with assms(3,4) p show ?thesis by (auto simp: path_bucket_def first_segment_def Let_def)
qed

text \<open>
  Whatever path a request has, if it matches a route its metrics label is one of nineteen: the
  labels grow neither with the paths clients invent nor with the users' numbers.
\<close>

theorem metric_labels_bounded:
  assumes "mux_matching m" and "(pat, verb, e) \<in> set setup_router" and "m pat path"
  shows "\<exists>label. path_bucket path = Some label \<and> label \<in> set metric_labels"
proof -
  have ok: "label_bounded pat" using routes_bounded assms(2) by (auto simp: list_all_iff)
  have extra: "set (bucket_paths @ [''/admin/*'', ''/v1/*'']) \<subseteq> set metric_labels" by (auto simp: metric_labels_def)
  show ?thesis
  proof (cases pat)
    case (Exact p)
    with ok assms(1,3) show ?thesis by (auto simp: label_bounded_def mux_matching_def split: option.splits)
  next
    case (Prefix p)
    then have "has_prefix path p" using assms(1,3) by (simp add: mux_matching_def)
    then obtain r where "path = p @ r" by (auto simp: has_prefix_iff)
    with ok Prefix extra bucket_of_open_path [of p r] show ?thesis by (auto simp: label_bounded_def)
  next
    case (Numbered p)
    then have "has_prefix path p" using assms(1,3) by (simp add: mux_matching_def)
    then obtain r where "path = p @ r" by (auto simp: has_prefix_iff)
    with ok Numbered extra bucket_of_open_path [of p r] show ?thesis by (auto simp: label_bounded_def)
  qed
qed

text \<open>A matching that meets this, for the run below.\<close>

fun plain_matching :: "pattern \<Rightarrow> string \<Rightarrow> bool" where
  "plain_matching (Exact p) path = (path = p)"
| "plain_matching (Prefix p) path = has_prefix path p"
| "plain_matching (Numbered p) path =
     (has_prefix path p \<and> list_all (\<lambda>c. 48 \<le> byte c \<and> byte c \<le> 57) (drop (length p) path))"

lemma plain_mux: "mux_matching plain_matching"
  by (auto simp: mux_matching_def list_all_iff)

lemma metric_labels_bounded_witness:
  "\<exists>label. path_bucket ''/toggle/42'' = Some label \<and> label \<in> set metric_labels"
proof -
  have "(Numbered ''/toggle/'', ''POST'', Admin Toggle) \<in> set setup_router" by (simp add: setup_router_def)
  moreover have "plain_matching (Numbered ''/toggle/'') ''/toggle/42''" by (simp add: has_prefix_def)
  ultimately show ?thesis by (rule metric_labels_bounded [OF plain_mux])
qed

end
