(* ===== verification/Admin_Safety.thy ===== *)
theory Admin_Safety
  imports Admin_Router
begin

section \<open>What the admin pages can and cannot do\<close>

text \<open>
  The properties of the admin handlers: nothing happens without the admin session, the session
  is given for the right password only, and what a run of requests of one browser can reach.
\<close>

subsection \<open>The helpers change the session and the cookie only\<close>

lemma save_session_fields [simp]:
  "as_users (fst (save_session env st)) = as_users st" "as_cache (fst (save_session env st)) = as_cache st"
  "as_limiters (fst (save_session env st)) = as_limiters st" "as_logs (fst (save_session env st)) = as_logs st"
  "as_account (fst (save_session env st)) = as_account st" "as_guard (fst (save_session env st)) = as_guard st"
  "as_engines (fst (save_session env st)) = as_engines st" "as_session (fst (save_session env st)) = as_session st"
  "snd (save_session env st) = ae_save env"
  "as_cookie (fst (save_session env st)) = (if ae_save env then as_session st else as_cookie st)"
  by (simp_all add: save_session_def)

lemma flash_now_fields [simp]:
  "as_users (flash_now env c m st) = as_users st" "as_cache (flash_now env c m st) = as_cache st"
  "as_limiters (flash_now env c m st) = as_limiters st" "as_logs (flash_now env c m st) = as_logs st"
  "as_account (flash_now env c m st) = as_account st" "as_guard (flash_now env c m st) = as_guard st"
  "as_engines (flash_now env c m st) = as_engines st"
  "sn_admin (as_session (flash_now env c m st)) = sn_admin (as_session st)"
  "sn_exported (as_session (flash_now env c m st)) = sn_exported (as_session st)"
  by (simp_all add: flash_now_def add_flash_def)

lemma flash_now_cookie:
  "as_cookie (flash_now env c m st) = (if ae_save env then as_session (flash_now env c m st) else as_cookie st)"
  by (simp add: flash_now_def)

lemma flash_goto_state [simp]: "fst (flash_goto env c m to st) = flash_now env c m st" "snd (flash_goto env c m to st) = GoTo to"
  by (simp_all add: flash_goto_def)

subsection \<open>Nothing without the session\<close>

text \<open>
  A request without the admin session changes nothing on the server nor in the browser,
  whatever admin route it takes besides the login page, the login and the logout; it is sent to
  the login page or told it is not authorised.
\<close>

theorem admin_routes_guarded:
  assumes "r \<notin> {Index, Login, Logout}" and "\<not> sn_admin (as_session st)"
  shows "fst (route_handler r env rq st) = st \<and>
    (snd (route_handler r env rq st) = GoTo ''/'' \<or> (\<exists>body. snd (route_handler r env rq st) = JsonReply 401 body))"
  using assms
  by (cases r) (simp_all add: handle_engine_test_def handle_engine_test_draft_def handle_ollama_pull_stream_def
      handle_ollama_delete_model_def admin_engine_settings_def admin_remove_engine_def handle_ollama_search_def
      handle_change_password_def handle_admin_help_def handle_admin_logs_def handle_export_all_logs_def
      handle_reset_system_def handle_admin_reset_key_def handle_update_rate_limit_def handle_register_def
      handle_toggle_def handle_export_def handle_confirm_delete_def handle_delete_def handle_users_def admin_only_def
      is_admin_session_def with_flash_def handle_engine_settings_def handle_remove_engine_def with_admin_form_def
      plain_request_def redirect_def draft_reply_def)

subsection \<open>Who becomes admin\<close>

text \<open>The password check of a login attempt, made only when the guard lets it through.\<close>

definition attempt_checked :: "admin_env \<Rightarrow> admin_call \<Rightarrow> 'b admin_state \<Rightarrow> bool" where
  "attempt_checked env rq st \<longleftrightarrow> rq_form rq \<noteq> None \<and> fst (guard_allow (as_guard st) (ae_now env)) \<and> \<not> ae_read_fault env"

definition attempt_right :: "admin_env \<Rightarrow> admin_call \<Rightarrow> 'b admin_state \<Rightarrow> bool" where
  "attempt_right env rq st \<longleftrightarrow>
     (\<exists>a. as_account st = Some a \<and> verify_password (ae_derive env) (au_hash a) (the (rq_form rq) ''password''))"

lemma password_right_iff:
  "password_right env pw (get_admin fault st) \<longleftrightarrow>
     \<not> fault \<and> (\<exists>a. as_account st = Some a \<and> verify_password (ae_derive env) (au_hash a) pw)"
  by (auto simp: password_right_def get_admin_def split: option.splits)

lemma get_admin_found: "get_admin fault st = Found a \<longleftrightarrow> \<not> fault \<and> as_account st = Some a"
  by (simp add: get_admin_def split: option.splits)

lemma get_admin_error: "get_admin fault st = DbError \<longleftrightarrow> fault"
  by (simp add: get_admin_def split: option.splits)

text \<open>
  C21. A login changes the guard exactly as the guard's own rules say: a refused attempt or one the
  database fails leaves it, a checked one counts as failed or as successful; the browser becomes
  an administrator only through a checked attempt with the right password, and a refused one is
  told to wait, rounded up, at least as long as the lockout still lasts.
\<close>

theorem login_checks_password:
  "let (st', reply) = handle_admin_login env rq (st\<lparr>as_session := as_cookie st\<rparr>) in
    as_guard st' = (if attempt_checked env rq st
                    then if attempt_right env rq st then guard_succeeded (as_guard st)
                         else snd (guard_failed (as_guard st) (ae_later env))
                    else as_guard st) \<and>
    (sn_admin (as_cookie st') = (sn_admin (as_cookie st) \<or> attempt_checked env rq st \<and> attempt_right env rq st \<and> ae_save env)) \<and>
    (case reply of TryLater secs msg \<Rightarrow> \<exists>n. secs = itoa n \<and> blocked_until (as_guard st) - ae_now env \<le> n * ns_second | _ \<Rightarrow> True)"
proof (cases "rq_form rq")
  case None
  then show ?thesis by (simp add: handle_admin_login_def attempt_checked_def)
next
  case (Some f)
  show ?thesis
  proof (cases "fst (guard_allow (as_guard st) (ae_now env))")
    case False
    let ?wait = "blocked_until (as_guard st) - ae_now env"
    have wait: "guard_allow (as_guard st) (ae_now env) = (False, ?wait)" "0 < ?wait"
      using False by (auto simp: guard_allow_def split: if_splits)
    have "?wait \<le> go_div (?wait + ns_second - 1) ns_second * ns_second"
      using wait(2) by (simp add: go_div_nonneg ns_second_def)
    then show ?thesis using wait False Some
      by (auto simp: handle_admin_login_def attempt_checked_def Let_def)
  next
    case True
    then have "guard_allow (as_guard st) (ae_now env) = (True, 0)" by (simp add: guard_allow_def split: if_splits)
    with True Some show ?thesis
      by (auto simp: handle_admin_login_def attempt_checked_def attempt_right_def get_admin_error password_right_iff Let_def
          set_admin_def case_prod_beta flash_now_cookie)
  qed
qed

subsection \<open>Runs of one browser\<close>

definition admin_step ::
  "admin_env \<times> admin_call \<times> admin_route \<Rightarrow> 'b admin_state \<Rightarrow> 'b admin_state \<times> admin_reply" where
  "admin_step q st = (case q of (env, rq, r) \<Rightarrow> route_handler r env rq (st\<lparr>as_session := as_cookie st\<rparr>))"

inductive admin_reach :: "'b admin_state \<Rightarrow> 'b admin_state \<Rightarrow> bool" for st0 where
  start: "admin_reach st0 st0"
| step: "admin_reach st0 st \<Longrightarrow> admin_reach st0 (fst (admin_step q st))"

lemma admin_invariant:
  assumes "admin_reach st0 st" and "I st0" and "\<And>q s. I s \<Longrightarrow> I (fst (admin_step q s))"
  shows "I st"
  using assms(1) by induction (simp_all add: assms)

text \<open>No handler adds an export flag to the cookie.\<close>

definition no_new_flags :: "'b admin_handler \<Rightarrow> bool" where
  "no_new_flags h \<longleftrightarrow>
     (\<forall>env rq st. as_session st = as_cookie st \<longrightarrow>
        sn_exported (as_cookie (fst (h env rq st))) \<subseteq> sn_exported (as_cookie st))"

lemma no_new_flagsI:
  assumes "\<And>env rq st. as_session st = as_cookie st \<Longrightarrow>
    sn_exported (as_cookie (fst (h env rq st))) \<subseteq> sn_exported (as_cookie st)"
  shows "no_new_flags h"
  using assms unfolding no_new_flags_def by blast

lemma no_new_flags_guard: "no_new_flags h \<Longrightarrow> no_new_flags (admin_only h)"
  by (simp add: no_new_flags_def admin_only_def)

lemma flash_cookie_flags:
  "as_session st = as_cookie st \<Longrightarrow> sn_exported (as_cookie (flash_now env c m st)) = sn_exported (as_cookie st)"
  by (simp add: flash_now_cookie)

lemma no_new_flags_form: "(\<And>f. no_new_flags (h f)) \<Longrightarrow> no_new_flags (parse_admin_form back h)"
  by (auto simp: no_new_flags_def parse_admin_form_def flash_cookie_flags split: option.splits)

lemma consume_keeps_flags: "sn_exported (snd (consume_flashes decode s)) = sn_exported s"
  by (simp add: consume_flashes_def)

lemma token_keeps_flags: "sn_exported (snd (csrf_token draw s)) = sn_exported s"
  by (simp add: csrf_token_def split: option.splits)

lemma no_new_flags_render: "no_new_flags (render page path extra)"
  by (rule no_new_flagsI)
    (auto simp: render_def new_base_data_def case_prod_beta Let_def consume_keeps_flags token_keeps_flags)

lemmas handler_defs = handle_index_def handle_admin_login_def handle_logout_def handle_engine_test_def
  handle_engine_test_draft_def handle_ollama_pull_stream_def ollama_pull_stream_def handle_ollama_delete_model_def
  delete_model_def admin_engine_settings_def admin_remove_engine_def handle_ollama_search_def handle_change_password_def
  change_password_def handle_admin_help_def handle_admin_logs_def handle_export_all_logs_def handle_reset_system_def
  handle_admin_reset_key_def handle_update_rate_limit_def update_rate_limit_def handle_register_def register_def
  handle_toggle_def handle_export_def save_late_def handle_confirm_delete_def handle_delete_def handle_users_def

lemmas step_defs = set_admin_def update_admin_password_def put_users_def look_up_def remove_user_def with_flash_def
  admin_engines_changed_def

lemma no_new_flags_admin:
  assumes "\<And>env rq st. as_session st = as_cookie st \<Longrightarrow>
    sn_exported (as_cookie (fst (h env rq st))) \<subseteq> sn_exported (as_cookie st)"
  shows "no_new_flags (admin_only h)"
  by (rule no_new_flags_guard, rule no_new_flagsI, rule assms)

lemma no_new_flags_admin_form:
  assumes "\<And>f env rq st. as_session st = as_cookie st \<Longrightarrow>
    sn_exported (as_cookie (fst (h f env rq st))) \<subseteq> sn_exported (as_cookie st)"
  shows "no_new_flags (admin_only (parse_admin_form back h))"
  by (rule no_new_flags_guard, rule no_new_flags_form, rule no_new_flagsI, rule assms)

lemma no_new_flags_pages:
  "no_new_flags handle_index" "no_new_flags handle_admin_help" "no_new_flags handle_admin_logs"
  by (simp_all add: handle_index_def handle_admin_help_def handle_admin_logs_def no_new_flags_guard no_new_flags_render)

lemma no_new_flags_confirm: "no_new_flags handle_confirm_delete"
  unfolding handle_confirm_delete_def
  by (rule no_new_flags_admin)
    (auto simp: render_def new_base_data_def case_prod_beta Let_def consume_keeps_flags token_keeps_flags)

lemma no_new_flags_session: "no_new_flags handle_admin_login" "no_new_flags handle_logout"
  by (rule no_new_flagsI; simp add: handle_admin_login_def handle_logout_def step_defs Let_def case_prod_beta
      flash_cookie_flags split: option.split)+

lemma no_new_flags_json:
  "no_new_flags handle_engine_test_draft" "no_new_flags handle_ollama_pull_stream" "no_new_flags handle_ollama_search"
  by (rule no_new_flagsI; simp add: handle_engine_test_draft_def handle_ollama_pull_stream_def ollama_pull_stream_def
      admin_engines_changed_def handle_ollama_search_def Let_def case_prod_beta split: option.split engine_fields.split outcome.split)+

lemma with_flash_flags:
  "as_session st = as_cookie st \<Longrightarrow> sn_exported (as_cookie (fst (with_flash env r st))) = sn_exported (as_cookie st)"
  by (simp add: with_flash_def Let_def flash_cookie_flags split: reply.split option.split)

lemma no_new_flags_engines: "no_new_flags admin_engine_settings" "no_new_flags admin_remove_engine"
  by (rule no_new_flagsI; simp add: admin_engine_settings_def admin_remove_engine_def with_flash_flags)+

lemma no_new_flags_guarded:
  "no_new_flags handle_engine_test" "no_new_flags handle_export_all_logs" "no_new_flags handle_reset_system"
  "no_new_flags handle_users" "no_new_flags handle_export"
  unfolding handle_engine_test_def handle_export_all_logs_def handle_reset_system_def handle_users_def handle_export_def
  by (rule no_new_flags_admin; auto simp: Let_def case_prod_beta flash_cookie_flags save_late_def split: option.splits)+

lemma no_new_flags_users:
  "no_new_flags handle_toggle" "no_new_flags handle_admin_reset_key" "no_new_flags handle_delete"
  unfolding handle_toggle_def handle_admin_reset_key_def handle_delete_def
  by (rule no_new_flags_admin; auto simp: step_defs Let_def case_prod_beta split: db_result.splits)+

lemma no_new_flags_forms:
  "no_new_flags handle_ollama_delete_model" "no_new_flags handle_change_password" "no_new_flags handle_register"
  "no_new_flags handle_update_rate_limit"
  unfolding handle_ollama_delete_model_def handle_change_password_def handle_register_def handle_update_rate_limit_def
  by (rule no_new_flags_admin_form; auto simp: delete_model_def change_password_def register_def update_rate_limit_def
      step_defs Let_def case_prod_beta flash_cookie_flags split: option.splits outcome.splits db_result.splits)+

lemma no_new_flags_all: "no_new_flags (route_handler r)"
  by (cases r) (simp_all add: no_new_flags_pages no_new_flags_confirm no_new_flags_session no_new_flags_json
      no_new_flags_engines no_new_flags_guarded no_new_flags_users no_new_flags_forms)

lemma flags_shrink: "sn_exported (as_cookie (fst (admin_step q st))) \<subseteq> sn_exported (as_cookie st)"
proof -
  obtain env rq r where q: "q = (env, rq, r)" by (cases q)
  have "as_session (st\<lparr>as_session := as_cookie st\<rparr>) = as_cookie (st\<lparr>as_session := as_cookie st\<rparr>)" by simp
  with no_new_flags_all [of r] have
    "sn_exported (as_cookie (fst (route_handler r env rq (st\<lparr>as_session := as_cookie st\<rparr>)))) \<subseteq>
     sn_exported (as_cookie (st\<lparr>as_session := as_cookie st\<rparr>))"
    unfolding no_new_flags_def by blast
  then show ?thesis by (simp add: q admin_step_def)
qed

text \<open>
  C9. Whatever an administrator does, exports included, the browser never holds an export flag, so
  the deletion of a user is always refused: the flag is saved after the export's CSV has been
  sent.
\<close>

theorem delete_always_refused:
  assumes "admin_reach st0 st" and "sn_exported (as_cookie st0) = {}"
  shows "fst (admin_step (env, rq, Delete) st) = st\<lparr>as_session := as_cookie st\<rparr> \<and>
    snd (admin_step (env, rq, Delete) st) \<in> {GoTo ''/'', Refuse 403 ''Export required before delete''}"
proof -
  have "sn_exported (as_cookie st) = {}"
    using admin_invariant [OF assms(1), of "\<lambda>s. sn_exported (as_cookie s) = {}"] assms(2) flags_shrink by blast
  then show ?thesis by (simp add: admin_step_def handle_delete_def admin_only_def)
qed

definition sample_admin_state :: "unit admin_state" where
  "sample_admin_state =
     (let s = \<lparr>sn_admin = True, sn_csrf = ''t'', sn_flashes = [], sn_exported = {}\<rparr> in
      \<lparr>as_session = s, as_cookie = s, as_users = sample_users, as_cache = [], as_limiters = Map.empty,
       as_logs = sample_log_store, as_account = Some \<lparr>au_id = 1, au_email = [], au_hash = ''x''\<rparr>, as_guard = new_guard,
       as_engines = sample_store, as_metrics = []\<rparr>)"

lemma delete_always_refused_witness:
  "\<forall>env rq. snd (admin_step (env, rq, Delete) (fst (admin_step (env, rq, Export) sample_admin_state))) \<in>
     {GoTo ''/'', Refuse 403 ''Export required before delete''}"
proof (intro allI)
  fix env rq
  have "admin_reach sample_admin_state (fst (admin_step (env, rq, Export) sample_admin_state))"
    by (intro admin_reach.step admin_reach.start)
  moreover have "sn_exported (as_cookie sample_admin_state) = {}" by (simp add: sample_admin_state_def Let_def)
  ultimately show "snd (admin_step (env, rq, Delete) (fst (admin_step (env, rq, Export) sample_admin_state))) \<in>
     {GoTo ''/'', Refuse 403 ''Export required before delete''}"
    using delete_always_refused by blast
qed

text \<open>The deletion itself is guarded as the page says: only a session with the export flag reaches it.\<close>

lemma delete_needs_flag:
  "as_users (fst (handle_delete env rq st)) \<noteq> as_users st \<Longrightarrow>
   sn_admin (as_session st) \<and> uid_from_vars rq \<in> sn_exported (as_session st)"
  by (rule ccontr) (auto simp: handle_delete_def admin_only_def is_admin_session_def Let_def)

subsection \<open>The users table and its cache\<close>

definition users_ok :: "'b admin_state \<Rightarrow> bool" where
  "users_ok st \<longleftrightarrow> wf_users (as_users st) \<and> users_coherent (as_users st) (as_cache st)"

lemma users_ok_fields [simp]:
  "users_ok (fst (save_session env st)) = users_ok st" "users_ok (flash_now env c m st) = users_ok st"
  "users_ok (set_admin b st) = users_ok st" "users_ok (admin_engines_changed st) = users_ok st"
  "users_ok (fst (update_admin_password fault i h st)) = users_ok st"
  "users_ok (st\<lparr>as_session := s\<rparr>) = users_ok st" "users_ok (st\<lparr>as_guard := g\<rparr>) = users_ok st"
  "users_ok (st\<lparr>as_metrics := ms\<rparr>) = users_ok st" "users_ok (st\<lparr>as_logs := l\<rparr>) = users_ok st"
  "users_ok (st\<lparr>as_limiters := b'\<rparr>) = users_ok st" "users_ok (st\<lparr>as_engines := es\<rparr>) = users_ok st"
  by (simp_all add: users_ok_def set_admin_def admin_engines_changed_def update_admin_password_def)

lemma look_up_ok: "users_ok st \<Longrightarrow> users_ok (snd (look_up env uid st))"
  using user_op_keeps [of "as_users st" "as_cache st" id "Lookup (ae_read_fault env) (ae_now env) (IdKey uid)"]
  by (simp add: users_ok_def look_up_def get_user_by_id_def case_prod_beta Let_def)

lemma put_users_ok:
  assumes "users_ok st" and "dc = apply_user_op hash opn (as_users st, as_cache st)"
  shows "users_ok (put_users dc st)"
  using user_op_keeps [of "as_users st" "as_cache st" hash opn "fst dc" "snd dc"] assms
  by (simp add: users_ok_def put_users_def)

lemma user_updates_ok:
  assumes "users_ok st"
  shows "users_ok (put_users (fst (update_user_status fault i x (as_users st, as_cache st))) st)"
    and "users_ok (put_users (fst (reset_user_api_key hash fault i raw (as_users st, as_cache st))) st)"
    and "users_ok (put_users (fst (update_user_rate_limit fault i l (as_users st, as_cache st))) st)"
    and "users_ok (put_users (fst (delete_user fault i (as_users st, as_cache st))) st)"
  using put_users_ok [OF assms, of _ id "SetStatus fault i x"] put_users_ok [OF assms, of _ hash "ResetKey fault i raw"]
    put_users_ok [OF assms, of _ id "SetLimit fault i l"] put_users_ok [OF assms, of _ id "DeleteUser fault i"]
  by simp_all

lemma create_user_ok:
  assumes "users_ok st" and "create_user hash fault ts name raw l (as_users st) = Some d"
  shows "users_ok (st\<lparr>as_users := d\<rparr>)"
  using user_op_keeps [of "as_users st" "as_cache st" hash "CreateUser fault ts name raw l"] assms
  by (simp add: users_ok_def)

definition keeps_users :: "'b admin_handler \<Rightarrow> bool" where
  "keeps_users h \<longleftrightarrow> (\<forall>env rq st. users_ok st \<longrightarrow> users_ok (fst (h env rq st)))"

lemma keeps_usersI: "(\<And>env rq st. users_ok st \<Longrightarrow> users_ok (fst (h env rq st))) \<Longrightarrow> keeps_users h"
  by (simp add: keeps_users_def)

lemma keeps_users_admin:
  assumes "\<And>env rq st. users_ok st \<Longrightarrow> users_ok (fst (h env rq st))"
  shows "keeps_users (admin_only h)"
  using assms by (simp add: keeps_users_def admin_only_def)

lemma keeps_users_form:
  assumes "\<And>f env rq st. users_ok st \<Longrightarrow> users_ok (fst (h f env rq st))"
  shows "keeps_users (admin_only (parse_admin_form back h))"
  using assms by (simp add: keeps_users_def admin_only_def parse_admin_form_def split: option.split)

lemma render_keeps_users: "users_ok (fst (render page path extra env rq st)) = users_ok st"
  by (simp add: render_def new_base_data_def case_prod_beta Let_def)

lemma keeps_users_pages:
  "keeps_users handle_index" "keeps_users handle_admin_help" "keeps_users handle_admin_logs" "keeps_users handle_confirm_delete"
  unfolding handle_index_def handle_admin_help_def handle_admin_logs_def handle_confirm_delete_def
  by (rule keeps_usersI, simp add: render_keeps_users, (rule keeps_users_admin, simp add: render_keeps_users)+)

lemma with_flash_users: "users_ok (fst (with_flash env r st)) = users_ok st"
  by (simp add: with_flash_def Let_def split: reply.split option.split)

lemma keeps_users_plain:
  "keeps_users handle_admin_login" "keeps_users handle_logout" "keeps_users handle_engine_test_draft"
  "keeps_users handle_ollama_pull_stream" "keeps_users handle_ollama_search" "keeps_users admin_engine_settings"
  "keeps_users admin_remove_engine"
  by (rule keeps_usersI; simp add: handle_admin_login_def handle_logout_def handle_engine_test_draft_def
      handle_ollama_pull_stream_def ollama_pull_stream_def handle_ollama_search_def admin_engine_settings_def
      admin_remove_engine_def with_flash_users Let_def case_prod_beta split: option.split engine_fields.split outcome.split)+

lemma keeps_users_guarded:
  "keeps_users handle_engine_test" "keeps_users handle_export_all_logs" "keeps_users handle_reset_system"
  "keeps_users handle_users" "keeps_users handle_export"
  unfolding handle_engine_test_def handle_export_all_logs_def handle_reset_system_def handle_users_def handle_export_def
  by (rule keeps_users_admin; simp add: Let_def case_prod_beta save_late_def split: option.split)+

lemma keeps_users_updates: "keeps_users handle_toggle" "keeps_users handle_admin_reset_key" "keeps_users handle_delete"
  unfolding handle_toggle_def handle_admin_reset_key_def handle_delete_def
  by (rule keeps_users_admin; simp add: remove_user_def Let_def case_prod_beta look_up_ok user_updates_ok split: db_result.split)+

lemma keeps_users_forms:
  "keeps_users handle_ollama_delete_model" "keeps_users handle_change_password" "keeps_users handle_register"
  "keeps_users handle_update_rate_limit"
  unfolding handle_ollama_delete_model_def handle_change_password_def handle_register_def handle_update_rate_limit_def
  by (rule keeps_users_form; simp add: delete_model_def change_password_def register_def update_rate_limit_def Let_def
      case_prod_beta user_updates_ok create_user_ok split: option.split outcome.split db_result.split)+

lemma keeps_users_all: "keeps_users (route_handler r)"
  by (cases r) (simp_all add: keeps_users_pages keeps_users_plain keeps_users_guarded keeps_users_updates keeps_users_forms)

lemma admin_step_users: "users_ok s \<Longrightarrow> users_ok (fst (admin_step q s))"
  by (cases q) (simp add: admin_step_def keeps_users_all [unfolded keeps_users_def, rule_format])

text \<open>
  After any run of admin requests the users table has distinct ids and keys and the API's
  lookups, cached or not, answer exactly as it does: a user the administrator has disabled, given
  a new key or a new limit is the one the next API request sees.
\<close>

theorem admin_changes_take_effect:
  assumes "admin_reach st0 st" and "users_ok st0"
  shows "wf_users (as_users st) \<and>
    fst (get_user_by_api_key hash False now raw (as_users st) (as_cache st)) =
      (case find_user (ApiKey (hash raw)) (as_users st) of None \<Rightarrow> Missing | Some u \<Rightarrow> Found u)"
proof -
  have ok: "users_ok st" by (rule admin_invariant [OF assms(1), where I = users_ok, OF assms(2) admin_step_users])
  obtain r c where g: "get_user False now (ApiKey (hash raw)) (as_users st) (as_cache st) = (r, c)" by fastforce
  from get_user_coherent [OF _ g] ok have
    "(\<forall>u. r = Found u \<longrightarrow> find_user (ApiKey (hash raw)) (as_users st) = Some u) \<and>
     (r = Missing \<longrightarrow> find_user (ApiKey (hash raw)) (as_users st) = None) \<and> r \<noteq> DbError"
    by (simp add: users_ok_def)
  with g ok show ?thesis by (cases r) (simp_all add: get_user_by_api_key_def users_ok_def)
qed

lemma admin_changes_take_effect_witness:
  "\<forall>env rq. case fst (get_user_by_api_key id False 7 ''h'' (as_users (fst (admin_step (env, rq, Toggle) sample_admin_state)))
                  (as_cache (fst (admin_step (env, rq, Toggle) sample_admin_state)))) of
       Found u \<Rightarrow> find_user (ApiKey ''h'') (as_users (fst (admin_step (env, rq, Toggle) sample_admin_state))) = Some u
     | _ \<Rightarrow> True"
proof (intro allI)
  fix env rq
  let ?st = "fst (admin_step (env, rq, Toggle) sample_admin_state)"
  have reach: "admin_reach sample_admin_state ?st" by (intro admin_reach.step admin_reach.start)
  have "users_ok sample_admin_state"
    by (simp add: users_ok_def sample_admin_state_def sample_users_def wf_users_def uc.coherent_def cache_holds_def Let_def)
  from admin_changes_take_effect [OF reach this, of id 7 "''h''"]
  show "case fst (get_user_by_api_key id False 7 ''h'' (as_users ?st) (as_cache ?st)) of
       Found u \<Rightarrow> find_user (ApiKey ''h'') (as_users ?st) = Some u | _ \<Rightarrow> True"
    by (simp split: option.splits)
qed

subsection \<open>Keys and the password\<close>

lemma render_no_key [simp]: "snd (render page path extra env rq st) \<noteq> KeyPage k"
  by (simp add: render_def case_prod_beta Let_def)

lemma with_flash_no_key [simp]: "snd (with_flash env r st) \<noteq> KeyPage k"
  by (simp add: with_flash_def Let_def split: reply.split option.split)

lemma no_key_page: "r \<noteq> Register \<Longrightarrow> r \<noteq> ResetUserKey \<Longrightarrow> snd (route_handler r env rq st) \<noteq> KeyPage page"
  by (cases r; simp only: route_handler.simps handler_defs draft_reply_def admin_only_def parse_admin_form_def Let_def case_prod_beta;
      simp split: option.split db_result.split outcome.split engine_fields.split)

lemma key_page_routes: "snd (route_handler r env rq st) = KeyPage page \<Longrightarrow> r = Register \<or> r = ResetUserKey"
  using no_key_page by blast

definition other_users :: "int \<Rightarrow> user_db \<Rightarrow> user set" where
  "other_users i d = {v \<in> set (ud_users d). us_id v \<noteq> i}"

lemma registered_key:
  assumes "users_ok st" and "users_ok st'" and "handle_register env rq st = (st', KeyPage page)"
  shows "\<exists>heading u. page = write_api_key_page heading (us_name u) (ae_key env) \<and>
    us_api_key u = ae_hash env (ae_key env) \<and>
    find_user (ApiKey (ae_hash env (ae_key env))) (as_users st') = Some u \<and>
    other_users (us_id u) (as_users st') = other_users (us_id u) (as_users st)"
proof -
  let ?h = "ae_hash env (ae_key env)"
  from assms(3) obtain name d where
    d: "create_user (ae_hash env) (ae_write_fault env) (ae_ts env) name (ae_key env) (ae_default_rl env) (as_users st) = Some d"
    and st': "st' = st\<lparr>as_users := d\<rparr>" "page = write_api_key_page ''Registration Successful'' name (ae_key env)"
    by (auto simp: handle_register_def register_def admin_only_def parse_admin_form_def flash_goto_def Let_def
        split: if_splits option.splits)
  let ?u = "\<lparr>us_id = ud_next (as_users st), us_name = name, us_api_key = ?h, us_status = ''disabled'',
             us_rate_limit = ae_default_rl env, us_created_at = ae_ts env\<rparr>"
  have rows: "ud_users d = ud_users (as_users st) @ [?u]" using d by (auto simp: create_user_def split: if_splits)
  then have "find_user (ApiKey ?h) d = Some ?u"
    using assms(2) st' find_user_iff [of d "ApiKey ?h" ?u] by (simp add: users_ok_def key_fits_def)
  moreover have "other_users (us_id ?u) d = other_users (us_id ?u) (as_users st)" using rows by (auto simp: other_users_def)
  ultimately show ?thesis using st' by (intro exI [of _ "''Registration Successful''"] exI [of _ ?u]) simp
qed

lemma reset_key:
  assumes "users_ok st" and "users_ok st'" and "handle_admin_reset_key env rq st = (st', KeyPage page)"
  shows "\<exists>heading u. page = write_api_key_page heading (us_name u) (ae_key env) \<and>
    us_api_key u = ae_hash env (ae_key env) \<and>
    find_user (ApiKey (ae_hash env (ae_key env))) (as_users st') = Some u \<and>
    other_users (us_id u) (as_users st') = other_users (us_id u) (as_users st)"
proof -
  let ?h = "ae_hash env (ae_key env)"
  let ?uid = "uid_from_vars rq" and ?st = "snd (look_up env (uid_from_vars rq) st)"
  have same: "as_users ?st = as_users st" by (simp add: look_up_def case_prod_beta Let_def)
  from assms(3) obtain u where u: "fst (look_up env ?uid st) = Found u"
    and reset: "snd (reset_user_api_key (ae_hash env) (ae_write_fault env) ?uid (ae_key env) (as_users st, as_cache ?st))"
    and st': "st' = put_users (fst (reset_user_api_key (ae_hash env) (ae_write_fault env) ?uid (ae_key env) (as_users st, as_cache ?st))) ?st"
      "page = write_api_key_page ''API Key Reset'' (us_name u) (ae_key env)"
    by (auto simp: handle_admin_reset_key_def admin_only_def Let_def case_prod_beta same split: if_splits db_result.splits)
  have find: "find_user (IdKey ?uid) (as_users st) = Some u"
    using u get_user_coherent [of "as_users st" "as_cache st" "ae_read_fault env" "ae_now env" "IdKey ?uid"] assms(1)
    by (auto simp: look_up_def get_user_by_id_def users_ok_def case_prod_beta Let_def prod_eq_iff)
  then have u_in: "u \<in> set (ud_users (as_users st))" "us_id u = ?uid"
    using assms(1) by (auto simp: users_ok_def find_user_iff key_fits_def)
  have rows: "as_users st' = update_row ?uid (\<lambda>u. u\<lparr>us_api_key := ?h\<rparr>) (as_users st)"
    using reset st' by (auto simp: reset_user_api_key_def put_users_def split: if_splits)
  let ?u = "u\<lparr>us_api_key := ?h\<rparr>"
  have "?u \<in> set (ud_users (as_users st'))" using u_in rows by (force simp: update_row_def)
  then have "find_user (ApiKey ?h) (as_users st') = Some ?u"
    using assms(2) find_user_iff [of "as_users st'" "ApiKey ?h" ?u] by (simp add: users_ok_def key_fits_def)
  moreover have "other_users ?uid (as_users st') = other_users ?uid (as_users st)"
    using rows by (force simp: other_users_def update_row_def)
  ultimately show ?thesis using st' u_in(2) by (intro exI [of _ "''API Key Reset''"] exI [of _ ?u]) simp
qed

text \<open>
  C23. A page with an API key is shown only for a key that has just become the key of one user, the
  one named on the page: the users table finds that user by the key's hash, holds no other form of
  it, and has every other user as before.
\<close>

theorem issued_keys_work:
  assumes "users_ok st" and "route_handler r env rq st = (st', KeyPage page)"
  shows "\<exists>heading u. page = write_api_key_page heading (us_name u) (ae_key env) \<and>
    us_api_key u = ae_hash env (ae_key env) \<and>
    find_user (ApiKey (ae_hash env (ae_key env))) (as_users st') = Some u \<and>
    other_users (us_id u) (as_users st') = other_users (us_id u) (as_users st)"
proof -
  have "users_ok st'" using keeps_users_all [unfolded keeps_users_def, rule_format, OF assms(1), of r env rq] assms(2) by simp
  with key_page_routes [of r env rq st page] assms registered_key [OF assms(1)] reset_key [OF assms(1)] show ?thesis by auto
qed

text \<open>
  C24. The administrator's password changes only for a session with the admin flag that gave the
  current password and a new one the rules accept; afterwards exactly the new password verifies,
  up to the key derivation, and the session is an administrator's no longer.
\<close>

theorem password_change_effective:
  assumes "as_account (fst (handle_change_password env rq st)) \<noteq> as_account st"
  shows "sn_admin (as_session st) \<and> \<not> sn_admin (as_session (fst (handle_change_password env rq st))) \<and>
    (\<exists>f a h. rq_form rq = Some f \<and> as_account st = Some a \<and>
       verify_password (ae_derive env) (au_hash a) (f ''current'') \<and> f ''new'' = f ''confirm'' \<and> 8 \<le> length (f ''new'') \<and>
       as_account (fst (handle_change_password env rq st)) = Some (a\<lparr>au_hash := h\<rparr>) \<and>
       (\<lambda>pw. verify_password (ae_derive env) h pw) =
       (\<lambda>pw. ae_derive env pw (hex_encode (ae_salt env)) 260000 = ae_derive env (f ''new'') (hex_encode (ae_salt env)) 260000))"
proof -
  have adm: "sn_admin (as_session st)"
    using assms by (rule contrapos_np) (simp add: handle_change_password_def admin_only_def is_admin_session_def)
  obtain f where f: "rq_form rq = Some f"
    using assms adm by (cases "rq_form rq") (simp_all add: handle_change_password_def admin_only_def is_admin_session_def parse_admin_form_def)
  have eq: "handle_change_password env rq st = change_password f env rq st"
    using adm f by (simp add: handle_change_password_def admin_only_def is_admin_session_def parse_admin_form_def)
  let ?v = "validate_password (ae_upper env) (ae_lower env) (ae_digit env) (f ''new'')"
  have right: "password_right env (f ''current'') (get_admin (ae_read_fault env) st)" "f ''new'' = f ''confirm''" "fst ?v"
    using assms unfolding eq by (auto simp: change_password_def Let_def case_prod_beta split: if_splits)
  then obtain a where a: "as_account st = Some a" "verify_password (ae_derive env) (au_hash a) (f ''current'')"
      "get_admin (ae_read_fault env) st = Found a"
    by (auto simp: password_right_iff get_admin_found)
  have "\<not> ae_write_fault env"
    using assms right a unfolding eq by (auto simp: change_password_def Let_def case_prod_beta update_admin_password_def)
  then have "as_account (fst (change_password f env rq st)) =
        Some (a\<lparr>au_hash := hash_password (ae_derive env) (ae_salt env) (f ''new'')\<rparr>) \<and>
      \<not> sn_admin (as_session (fst (change_password f env rq st)))"
    using right a by (simp add: change_password_def Let_def case_prod_beta update_admin_password_def)
  moreover have "8 \<le> length (f ''new'')" using right(3) by (simp add: validate_password_iff)
  ultimately show ?thesis
    unfolding eq using adm f a(1,2) right(2)
    by (intro conjI exI [of _ f] exI [of _ a] exI [of _ "hash_password (ae_derive env) (ae_salt env) (f ''new'')"])
      (simp_all add: fun_eq_iff verify_hash_password)
qed

lemma html_escape_plain: "set (html_escape s) \<inter> {CHR ''<'', CHR ''>'', CHR 0x22, CHR 0x27} = {}"
  by (induction s) (auto simp: html_escape_def)

lemma clamp_rate_range: "1 \<le> clamp_rate s \<and> clamp_rate s \<le> 1000"
  by (simp add: clamp_rate_def Let_def split: option.split)

subsection \<open>The handlers at work\<close>

definition sample_net :: net where
  "sample_net =
     \<lparr>nt_url_ok = (\<lambda>_. True), nt_url_error = id, nt_send = (\<lambda>_. Inl ''down''), nt_object = (\<lambda>_. Inl ''eof''),
      nt_marshal = (\<lambda>_. Inr []), nt_error_member = (\<lambda>_. None), nt_flat = (\<lambda>_. None), nt_message = (\<lambda>_. None)\<rparr>"

definition sample_admin_env :: admin_env where
  "sample_admin_env =
     \<lparr>ae_now = 5, ae_later = 6, ae_ts = [], ae_hash = id, ae_derive = (\<lambda>p s n. p), ae_salt = [], ae_key = ''k'',
      ae_token = Some ''t'', ae_read_fault = False, ae_write_fault = False, ae_db_error = ''busy'', ae_save = True,
      ae_decode = (\<lambda>_. None), ae_encode = (\<lambda>_. ''f''), ae_max_len = 100, ae_default_rl = 10,
      ae_upper = (\<lambda>r. 65 \<le> r \<and> r \<le> 90), ae_lower = (\<lambda>r. 97 \<le> r \<and> r \<le> 122), ae_digit = (\<lambda>r. 48 \<le> r \<and> r \<le> 57),
      ae_duration = (\<lambda>_. []), ae_newest = id, ae_scans = (\<lambda>_. True), ae_engines_encode = (\<lambda>_. []),
      ae_engines_decode = (\<lambda>_. None), ae_concurrency = 4, ae_engine_faults = \<lparr>df_read = False, df_write = False, df_reload = False\<rparr>,
      ae_net = sample_net, ae_probes = empty_cache, ae_quote = id, ae_escape = id, ae_links = (\<lambda>_. []), ae_pull = (\<lambda>_. Inl ''down'')\<rparr>"

definition sample_call :: admin_call where
  "sample_call =
     \<lparr>rq_admin = True, rq_form = Some (\<lambda>k. if k = ''name'' then ''bob'' else if k = ''current'' then ''old'' else ''Abcdefg1''),
      ac_query = (\<lambda>_. []), ac_uid = ''1'', ac_partial = (\<lambda>_. [])\<rparr>"

definition sample_account_state :: "unit admin_state" where
  "sample_account_state =
     sample_admin_state\<lparr>as_account := Some \<lparr>au_id = 1, au_email = [], au_hash = hash_password (\<lambda>p s n. p) [] ''old''\<rparr>\<rparr>"

lemma sample_users_ok: "users_ok sample_admin_state"
  by (simp add: users_ok_def sample_admin_state_def sample_users_def wf_users_def uc.coherent_def cache_holds_def Let_def)

lemma admin_routes_guarded_witness:
  "fst (route_handler Toggle sample_admin_env sample_call (set_admin False sample_admin_state)) = set_admin False sample_admin_state"
  using admin_routes_guarded [of Toggle "set_admin False sample_admin_state" sample_admin_env sample_call]
  by (simp add: set_admin_def)

definition key_page_of :: "admin_reply \<Rightarrow> string option" where
  "key_page_of r = (case r of KeyPage p \<Rightarrow> Some p | _ \<Rightarrow> None)"

lemma sample_register:
  "key_page_of (snd (route_handler Register sample_admin_env sample_call sample_admin_state)) =
     Some (write_api_key_page ''Registration Successful'' ''bob'' ''k'')"
  by code_simp

lemma issued_keys_work_witness:
  "\<exists>u. find_user (ApiKey ''k'') (as_users (fst (route_handler Register sample_admin_env sample_call sample_admin_state))) = Some u"
proof -
  obtain st' p where run: "route_handler Register sample_admin_env sample_call sample_admin_state = (st', KeyPage p)"
    using sample_register
    by (cases "route_handler Register sample_admin_env sample_call sample_admin_state")
      (auto simp: key_page_of_def split: admin_reply.splits)
  have env: "ae_hash sample_admin_env = id" "ae_key sample_admin_env = ''k''" by (simp_all add: sample_admin_env_def)
  from issued_keys_work [OF sample_users_ok run] show ?thesis unfolding run by (auto simp: env)
qed

abbreviation sample_derive :: "string \<Rightarrow> string \<Rightarrow> int \<Rightarrow> string" where
  "sample_derive \<equiv> \<lambda>p s n. p"

lemma sample_hash_differs: "hash_password sample_derive [] ''Abcdefg1'' \<noteq> hash_password sample_derive [] ''old''"
proof
  assume eq: "hash_password sample_derive [] ''Abcdefg1'' = hash_password sample_derive [] ''old''"
  have "verify_password sample_derive (hash_password sample_derive [] ''Abcdefg1'') ''old''" unfolding eq by (simp add: verify_hash_password)
  then show False by (simp add: verify_hash_password)
qed

lemma sample_password_ok:
  "fst (validate_password (\<lambda>r. 65 \<le> r \<and> r \<le> 90) (\<lambda>r. 97 \<le> r \<and> r \<le> 122) (\<lambda>r. 48 \<le> r \<and> r \<le> 57) ''Abcdefg1'')"
  by code_simp

lemma sample_change:
  "as_account (fst (handle_change_password sample_admin_env sample_call sample_account_state)) \<noteq> as_account sample_account_state"
  using sample_hash_differs sample_password_ok
  by (simp add: handle_change_password_def admin_only_def is_admin_session_def parse_admin_form_def change_password_def
      sample_call_def sample_account_state_def sample_admin_state_def sample_admin_env_def password_right_def get_admin_def
      update_admin_password_def verify_hash_password Let_def case_prod_beta)

lemma password_change_effective_witness:
  "\<not> sn_admin (as_session (fst (handle_change_password sample_admin_env sample_call sample_account_state)))"
  using password_change_effective [OF sample_change] by simp

end
