(* ===== verification/Usage_Panel.thy ===== *)
theory Usage_Panel
  imports Log_Writer User_Store
    "HOL-Library.List_Lexorder" "HOL-Library.Product_Lexorder" "HOL-Library.Char_ord"
    "HOL-Library.Multiset"
begin

section \<open>db.go and usage.go: token usage per client\<close>

text \<open>
  \<open>getUsageByClient\<close> is one SQL query over the request log, here the list of its rows:
  filter, group by client and model, sum, join the users table, order. \<open>buildUsagePanel\<close>
  nests the result per client. Text compares bytewise, as SQLite's \<open>BINARY\<close> collation does.
\<close>

subsection \<open>The query\<close>

record usage_row =
  ur_user :: string
  ur_model :: string
  ur_requests :: int
  ur_in :: int
  ur_out :: int
  ur_streamed :: int
  ur_unreported :: int
  ur_user_id :: "int option"
  ur_status :: "string option"

definition row_model :: "request_log \<Rightarrow> string" where
  "row_model r =
     (if rl_model_served r \<noteq> [] then rl_model_served r
      else if rl_model_requested r \<noteq> [] then rl_model_requested r else ''(unknown)'')"

definition counted :: "string \<Rightarrow> request_log \<Rightarrow> bool" where
  "counted since r \<longleftrightarrow> since \<le> rl_ts r \<and> rl_path r \<in> {''/v1/chat/completions'', ''/v1/messages''}"

definition group_key :: "request_log \<Rightarrow> string \<times> string" where
  "group_key r = (rl_user_name r, row_model r)"

definition usage_of_group :: "user list \<Rightarrow> request_log list \<Rightarrow> string \<times> string \<Rightarrow> usage_row" where
  "usage_of_group users rows k =
     (let g = filter (\<lambda>r. group_key r = k) rows; u = List.find (\<lambda>u. us_name u = fst k) users in
      \<lparr>ur_user = fst k, ur_model = snd k, ur_requests = int (length g),
       ur_in = sum_list (map rl_in g), ur_out = sum_list (map rl_out g),
       ur_streamed = sum_list (map rl_streamed g),
       ur_unreported = int (length (filter (\<lambda>r. rl_in r = 0 \<and> rl_out r = 0) g)),
       ur_user_id = map_option us_id u, ur_status = map_option us_status u\<rparr>)"

definition usage_order :: "usage_row \<Rightarrow> int \<times> string \<times> string" where
  "usage_order r = (- (ur_in r + ur_out r), ur_user r, ur_model r)"

definition get_usage_by_client :: "user list \<Rightarrow> string \<Rightarrow> request_log list \<Rightarrow> usage_row list" where
  "get_usage_by_client users since table =
     (let rows = filter (counted since) table in
      sort_key usage_order (map (usage_of_group users rows) (remdups (map group_key rows))))"

subsection \<open>The panel\<close>

definition usage_windows :: "(string \<times> int \<times> string) list" where
  "usage_windows = [(''24h'', 1, ''24 hours''), (''7d'', 7, ''7 days''), (''30d'', 30, ''30 days'')]"

definition usage_window_default :: string where "usage_window_default = ''7d''"

definition usage_window_for :: "string \<Rightarrow> string" where
  "usage_window_for key = (if map_of usage_windows key \<noteq> None then key else usage_window_default)"

record usage_by_model =
  um_model :: string
  um_requests :: int
  um_in :: int
  um_out :: int
  um_streamed :: int
  um_unreported :: int

record client_usage =
  cu_name :: string
  cu_registered :: bool
  cu_status :: string
  cu_requests :: int
  cu_in :: int
  cu_out :: int
  cu_streamed :: int
  cu_unreported :: int
  cu_models :: "usage_by_model list"
  cu_bar :: string

definition client_total :: "client_usage \<Rightarrow> int" where
  "client_total c = cu_in c + cu_out c"

record usage_totals =
  ut_clients :: int
  ut_requests :: int
  ut_in :: int
  ut_out :: int
  ut_unreported :: int

record usage_panel =
  up_window :: string
  up_label :: string
  up_clients :: "client_usage list"
  up_totals :: usage_totals
  up_known :: int

text \<open>The product is a 64-bit one and wraps.\<close>

definition usage_bar_class :: "int \<Rightarrow> int \<Rightarrow> string" where
  "usage_bar_class tokens mx =
     (if tokens \<le> 0 \<or> mx \<le> 0 then ''ub-0''
      else
        let pct = go_div (wrap64 (tokens * 100)) mx;
            pct1 = (if pct < 10 then 10 else pct);
            pct2 = pct1 - pct1 mod 10;
            pct3 = (if 100 < pct2 then 100 else pct2)
        in ''ub-'' @ itoa pct3)"

text \<open>\<open>fixed d n m\<close> is \<open>fmt.Sprintf("%.df", float64(n)/m)\<close>.\<close>

definition human_num :: "(nat \<Rightarrow> int \<Rightarrow> int \<Rightarrow> string) \<Rightarrow> int \<Rightarrow> string" where
  "human_num fixed n =
     (if n < 1000 then itoa n
      else if n < 10000 then fixed 2 n 1000 @ ''K''
      else if n < 100000 then fixed 1 n 1000 @ ''K''
      else if n < 1000000 then fixed 0 n 1000 @ ''K''
      else if n < 10000000 then fixed 2 n 1000000 @ ''M''
      else if n < 100000000 then fixed 1 n 1000000 @ ''M''
      else fixed 0 n 1000000 @ ''M'')"

text \<open>The first loop: the clients in order of first sighting, with \<open>byName\<close> beside.\<close>

definition add_usage :: "usage_row \<Rightarrow> client_usage \<Rightarrow> client_usage" where
  "add_usage r c =
     c\<lparr>cu_requests := cu_requests c + ur_requests r, cu_in := cu_in c + ur_in r,
       cu_out := cu_out c + ur_out r, cu_streamed := cu_streamed c + ur_streamed r,
       cu_unreported := cu_unreported c + ur_unreported r,
       cu_models := cu_models c @
         [\<lparr>um_model = ur_model r, um_requests = ur_requests r, um_in = ur_in r, um_out = ur_out r,
           um_streamed = ur_streamed r, um_unreported = ur_unreported r\<rparr>]\<rparr>"

definition new_client :: "usage_row \<Rightarrow> client_usage" where
  "new_client r =
     \<lparr>cu_name = ur_user r, cu_registered = (ur_user_id r \<noteq> None),
      cu_status = (if ur_user_id r \<noteq> None then (case ur_status r of None \<Rightarrow> [] | Some s \<Rightarrow> s) else []),
      cu_requests = 0, cu_in = 0, cu_out = 0, cu_streamed = 0, cu_unreported = 0, cu_models = [], cu_bar = []\<rparr>"

definition group_row :: "string list \<times> (string \<rightharpoonup> client_usage) \<Rightarrow> usage_row \<Rightarrow> string list \<times> (string \<rightharpoonup> client_usage)" where
  "group_row acc r =
     (let (order, by_name) = acc in
      case by_name (ur_user r) of
        None \<Rightarrow> (order @ [ur_user r], by_name(ur_user r \<mapsto> add_usage r (new_client r)))
      | Some c \<Rightarrow> (order, by_name(ur_user r \<mapsto> add_usage r c)))"

definition add_totals :: "usage_totals \<Rightarrow> usage_row \<Rightarrow> usage_totals" where
  "add_totals t r =
     t\<lparr>ut_requests := ut_requests t + ur_requests r, ut_in := ut_in t + ur_in r,
       ut_out := ut_out t + ur_out r, ut_unreported := ut_unreported t + ur_unreported r\<rparr>"

definition build_usage_panel :: "usage_row list \<Rightarrow> string \<Rightarrow> int \<Rightarrow> usage_panel" where
  "build_usage_panel rows window known =
     (let (order, by_name) = foldl group_row ([], Map.empty) rows;
          totals = foldl add_totals \<lparr>ut_clients = 0, ut_requests = 0, ut_in = 0, ut_out = 0, ut_unreported = 0\<rparr> rows;
          clients = map (\<lambda>n. the (by_name n)) order;
          mx = foldl (\<lambda>m c. if m < client_total c then client_total c else m) 0 clients
      in \<lparr>up_window = window,
          up_label = (case map_of usage_windows window of None \<Rightarrow> [] | Some (_, l) \<Rightarrow> l),
          up_clients = map (\<lambda>c. c\<lparr>cu_bar := usage_bar_class (client_total c) mx\<rparr>) clients,
          up_totals = totals\<lparr>ut_clients := int (length order)\<rparr>, up_known = known\<rparr>)"

subsection \<open>The panel against its rows\<close>

definition rows_of :: "string \<Rightarrow> usage_row list \<Rightarrow> usage_row list" where
  "rows_of n rows = filter (\<lambda>r. ur_user r = n) rows"

lemma add_usage_fields [simp]:
  "cu_name (add_usage r c) = cu_name c" "cu_requests (add_usage r c) = cu_requests c + ur_requests r"
  "cu_in (add_usage r c) = cu_in c + ur_in r" "cu_out (add_usage r c) = cu_out c + ur_out r"
  "map um_model (cu_models (add_usage r c)) = map um_model (cu_models c) @ [ur_model r]"
  "cu_registered (add_usage r c) = cu_registered c"
  by (simp_all add: add_usage_def)

definition grouped :: "usage_row list \<Rightarrow> string list \<times> (string \<rightharpoonup> client_usage) \<Rightarrow> bool" where
  "grouped rows acc \<longleftrightarrow>
     distinct (fst acc) \<and> set (fst acc) = ur_user ` set rows \<and> dom (snd acc) = set (fst acc) \<and>
     (\<forall>n c. snd acc n = Some c \<longrightarrow>
        cu_name c = n \<and> cu_requests c = sum_list (map ur_requests (rows_of n rows)) \<and>
        cu_in c = sum_list (map ur_in (rows_of n rows)) \<and>
        cu_out c = sum_list (map ur_out (rows_of n rows)) \<and>
        map um_model (cu_models c) = map ur_model (rows_of n rows))"

lemma group_row_grouped: "grouped rows acc \<Longrightarrow> grouped (rows @ [r]) (group_row acc r)"
proof -
  assume g: "grouped rows acc"
  obtain order by_name where acc: "acc = (order, by_name)" by fastforce
  show ?thesis
  proof (cases "by_name (ur_user r)")
    case None
    with g acc have fresh: "ur_user r \<notin> set order" by (auto simp: grouped_def)
    with g acc have none: "\<forall>x \<in> set rows. ur_user x \<noteq> ur_user r"
      by (simp add: grouped_def) (metis imageI)
    then have "rows_of (ur_user r) rows = []" by (simp add: rows_of_def filter_empty_conv)
    with g acc None fresh none show ?thesis
      by (auto simp: grouped_def group_row_def rows_of_def new_client_def Let_def)
  next
    case (Some c)
    then have "ur_user r \<in> set order" using g acc by (auto simp: grouped_def)
    with g acc Some show ?thesis
      by (auto simp: grouped_def group_row_def rows_of_def)
  qed
qed

lemma grouped_fold: "grouped rows (foldl group_row ([], Map.empty) rows)"
proof (induction rows rule: rev_induct)
  case Nil
  show ?case by (simp add: grouped_def)
next
  case (snoc r rows)
  then show ?case by (simp add: group_row_grouped)
qed

lemma totals_fold:
  "let t = foldl add_totals t0 rows in
   ut_requests t = ut_requests t0 + sum_list (map ur_requests rows) \<and>
   ut_in t = ut_in t0 + sum_list (map ur_in rows) \<and>
   ut_out t = ut_out t0 + sum_list (map ur_out rows) \<and>
   ut_unreported t = ut_unreported t0 + sum_list (map ur_unreported rows)"
  by (induction rows arbitrary: t0) (simp_all add: add_totals_def Let_def)

lemma sum_single:
  "distinct ks \<Longrightarrow> sum_list (map (\<lambda>k. if a = k then (c::int) else 0) ks) = (if a \<in> set ks then c else 0)"
  by (induction ks) auto

lemma sum_by_key:
  fixes f :: "'a \<Rightarrow> int"
  shows "distinct ks \<Longrightarrow> key ` set xs \<subseteq> set ks \<Longrightarrow>
    sum_list (map (\<lambda>k. sum_list (map f (filter (\<lambda>x. key x = k) xs))) ks) = sum_list (map f xs)"
proof (induction xs)
  case Nil
  then show ?case by (simp add: sum_list_0)
next
  case (Cons x xs)
  have "sum_list (map (\<lambda>k. if key x = k then f x else 0) ks) = f x"
    using Cons.prems by (simp add: sum_single)
  moreover have "sum_list (map (\<lambda>k. sum_list (map f (filter (\<lambda>x. key x = k) (x # xs)))) ks) =
      sum_list (map (\<lambda>k. (if key x = k then f x else 0) + sum_list (map f (filter (\<lambda>x. key x = k) xs))) ks)"
    by (intro arg_cong [where f = sum_list] map_cong) auto
  ultimately show ?case using Cons by (simp add: sum_list_addf)
qed

lemma panel_clients:
  assumes "panel = build_usage_panel rows window known"
  shows "distinct (map cu_name (up_clients panel))"
    and "set (map cu_name (up_clients panel)) = ur_user ` set rows"
    and "c \<in> set (up_clients panel) \<Longrightarrow>
      cu_requests c = sum_list (map ur_requests (rows_of (cu_name c) rows)) \<and>
      cu_in c = sum_list (map ur_in (rows_of (cu_name c) rows)) \<and>
      cu_out c = sum_list (map ur_out (rows_of (cu_name c) rows)) \<and>
      map um_model (cu_models c) = map ur_model (rows_of (cu_name c) rows)"
proof -
  obtain order by_name where acc: "foldl group_row ([], Map.empty) rows = (order, by_name)" by fastforce
  have g: "grouped rows (order, by_name)" using grouped_fold [of rows] acc by simp
  have lookup: "cu_name (the (by_name n)) = n" if "n \<in> set order" for n
  proof -
    from g that have "n \<in> dom by_name" by (simp add: grouped_def)
    then obtain c where "by_name n = Some c" by blast
    with g show ?thesis by (simp add: grouped_def)
  qed
  then have names: "map (\<lambda>n. cu_name (the (by_name n))) order = order" by (simp add: map_idI)
  have cl: "map cu_name (up_clients panel) = map (\<lambda>n. cu_name (the (by_name n))) order"
    using assms acc by (simp add: build_usage_panel_def Let_def o_def)
  with names g show "distinct (map cu_name (up_clients panel))"
    "set (map cu_name (up_clients panel)) = ur_user ` set rows"
    by (simp_all add: grouped_def)
  assume "c \<in> set (up_clients panel)"
  with assms acc obtain n b where n: "n \<in> set order" "c = (the (by_name n))\<lparr>cu_bar := b\<rparr>"
    by (auto simp: build_usage_panel_def Let_def)
  from g n(1) have "n \<in> dom by_name" by (simp add: grouped_def)
  then obtain c0 where "by_name n = Some c0" by blast
  with g n show "cu_requests c = sum_list (map ur_requests (rows_of (cu_name c) rows)) \<and>
      cu_in c = sum_list (map ur_in (rows_of (cu_name c) rows)) \<and>
      cu_out c = sum_list (map ur_out (rows_of (cu_name c) rows)) \<and>
      map um_model (cu_models c) = map ur_model (rows_of (cu_name c) rows)"
    by (auto simp: grouped_def)
qed

lemma sort_key_sum: "sum_list (map f (sort_key k xs)) = sum_list (map (f :: 'a \<Rightarrow> int) xs)"
proof -
  have "mset (map f (sort_key k xs)) = mset (map f xs)" by simp
  then show ?thesis by (metis sum_mset_sum_list)
qed

lemma usage_sums:
  fixes f :: "request_log \<Rightarrow> int"
  assumes "\<And>k. g (usage_of_group users rows k) = sum_list (map f (filter (\<lambda>r. group_key r = k) rows))"
    and "rows = filter (counted since) table"
  shows "sum_list (map g (get_usage_by_client users since table)) = sum_list (map f rows)"
proof -
  have "sum_list (map g (get_usage_by_client users since table)) =
      sum_list (map (\<lambda>k. sum_list (map f (filter (\<lambda>r. group_key r = k) rows))) (remdups (map group_key rows)))"
    using assms by (simp add: get_usage_by_client_def sort_key_sum Let_def o_def)
  also have "\<dots> = sum_list (map f rows)" by (rule sum_by_key) auto
  finally show ?thesis .
qed

lemma usage_panel_sums:
  assumes rows_def: "rows = filter (counted since) table"
    and panel: "panel = build_usage_panel (get_usage_by_client users since table) window known"
  shows "ut_requests (up_totals panel) = int (length rows) \<and>
    ut_in (up_totals panel) = sum_list (map rl_in rows) \<and>
    ut_out (up_totals panel) = sum_list (map rl_out rows) \<and>
    distinct (map cu_name (up_clients panel)) \<and>
    set (map cu_name (up_clients panel)) = rl_user_name ` set rows \<and>
    sum_list (map cu_requests (up_clients panel)) = ut_requests (up_totals panel) \<and>
    sum_list (map client_total (up_clients panel)) = ut_in (up_totals panel) + ut_out (up_totals panel)"
proof -
  let ?u = "get_usage_by_client users since table"
  have fields: "ut_requests (up_totals panel) = sum_list (map ur_requests ?u)"
    "ut_in (up_totals panel) = sum_list (map ur_in ?u)" "ut_out (up_totals panel) = sum_list (map ur_out ?u)"
    using totals_fold [of "\<lparr>ut_clients = 0, ut_requests = 0, ut_in = 0, ut_out = 0, ut_unreported = 0\<rparr>" ?u]
    by (simp_all add: panel build_usage_panel_def Let_def case_prod_beta)
  have sums: "sum_list (map ur_requests ?u) = int (length rows)"
    "sum_list (map ur_in ?u) = sum_list (map rl_in rows)" "sum_list (map ur_out ?u) = sum_list (map rl_out rows)"
    using usage_sums [of ur_requests users rows "\<lambda>_. 1" since table]
      usage_sums [of ur_in users rows rl_in since table] usage_sums [of ur_out users rows rl_out since table]
    by (simp_all add: rows_def usage_of_group_def Let_def sum_list_triv)
  note cl = panel_clients [OF panel]
  let ?names = "map cu_name (up_clients panel)"
  have per: "sum_list (map (\<lambda>c. sum_list (map f (rows_of (cu_name c) ?u))) (up_clients panel)) = sum_list (map f ?u)"
    for f :: "usage_row \<Rightarrow> int"
    using sum_by_key [of ?names ur_user ?u f] cl(1,2) by (simp add: rows_of_def o_def)
  have "sum_list (map cu_requests (up_clients panel)) = sum_list (map ur_requests ?u)"
    using per [of ur_requests] cl(3) by (simp cong: map_cong)
  moreover have "sum_list (map cu_in (up_clients panel)) = sum_list (map ur_in ?u)"
    using per [of ur_in] cl(3) by (simp cong: map_cong)
  moreover have "sum_list (map cu_out (up_clients panel)) = sum_list (map ur_out ?u)"
    using per [of ur_out] cl(3) by (simp cong: map_cong)
  moreover have "sum_list (map client_total (up_clients panel)) =
      sum_list (map cu_in (up_clients panel)) + sum_list (map cu_out (up_clients panel))"
    by (simp add: client_total_def [abs_def] sum_list_addf)
  moreover have "ur_user ` set ?u = rl_user_name ` set rows"
    by (auto simp: get_usage_by_client_def usage_of_group_def group_key_def rows_def Let_def image_image)
  ultimately show ?thesis using fields sums cl(1,2) by simp
qed

text \<open>
  The dashboard's totals are exactly the completions of the window: every request-log row
  at or after the cut-off on one of the two completion paths is counted once, its tokens
  added once; each client is listed once, and the clients' figures add up to the totals.
\<close>

theorem usage_panel_accounts:
  "let rows = filter (counted since) table;
       panel = build_usage_panel (get_usage_by_client users since table) window known
   in ut_requests (up_totals panel) = int (length rows) \<and>
      ut_in (up_totals panel) = sum_list (map rl_in rows) \<and>
      ut_out (up_totals panel) = sum_list (map rl_out rows) \<and>
      distinct (map cu_name (up_clients panel)) \<and>
      set (map cu_name (up_clients panel)) = rl_user_name ` set rows \<and>
      sum_list (map cu_requests (up_clients panel)) = ut_requests (up_totals panel) \<and>
      sum_list (map client_total (up_clients panel)) = ut_in (up_totals panel) + ut_out (up_totals panel)"
  unfolding Let_def using usage_panel_sums [OF refl refl] by blast

text \<open>
  The panel does not rank its clients by their totals: the rows come ordered by the total
  of a client with one model, so a client whose use is spread over two models can stand
  below one that used less.
\<close>

theorem usage_panel_not_ranked:
  "\<exists>table. map (\<lambda>c. (cu_name c, client_total c))
     (up_clients (build_usage_panel (get_usage_by_client [] [] table) ''7d'' 2)) =
     [(''ann'', 100), (''bob'', 180)]"
proof
  let ?row = "\<lambda>user model n. (request_row \<lparr>re_ts = ''t'', re_method = ''POST'', re_path = ''/v1/messages'',
      re_client_ip = [], re_user_name = user, re_status = 200, re_detail = None\<rparr>)\<lparr>rl_model_served := model, rl_in := n\<rparr>"
  show "map (\<lambda>c. (cu_name c, client_total c))
     (up_clients (build_usage_panel (get_usage_by_client [] []
        [?row ''ann'' ''m'' 100, ?row ''bob'' ''m'' 90, ?row ''bob'' ''n'' 90]) ''7d'' 2)) =
     [(''ann'', 100), (''bob'', 180)]"
    by (simp add: build_usage_panel_def get_usage_by_client_def request_row_def counted_def group_key_def
        row_model_def usage_of_group_def usage_order_def group_row_def new_client_def add_usage_def
        client_total_def sort_key_def Let_def)
qed


end
