(* ===== verification/Dashboard.thy ===== *)
theory Dashboard
  imports Admin_Handlers Usage_Panel Probe_Cache
begin

section \<open>handlers.go: the data of the dashboard and the settings page\<close>

text \<open>
  Both pages render from what the probe cache holds; \<open>warm\<close> is the one bounded warm-up, made
  only when the cache knows nothing of any engine. What the templates make of the data is not
  modelled.
\<close>

record dashboard_data =
  dd_base :: base_data
  dd_users :: "user list"
  dd_engines :: "engine_config list"
  dd_urls :: "string \<rightharpoonup> string"
  dd_status :: "string \<rightharpoonup> bool"
  dd_models :: "string \<rightharpoonup> string list"
  dd_usage :: "usage_panel option"

record settings_data =
  sd_base :: base_data
  sd_engines :: "engine_config list"
  sd_urls :: "string \<rightharpoonup> string"
  sd_status :: "string \<rightharpoonup> bool"
  sd_details :: "string \<rightharpoonup> model_detail list"

datatype 'd page_reply = ToLogin | PageError | Rendered 'd

text \<open>\<open>ORDER BY created_at DESC\<close>; users of one instant keep the order \<open>sort_key\<close> gives them.\<close>

definition get_all_users :: "bool \<Rightarrow> user_db \<Rightarrow> user list option" where
  "get_all_users fault d = (if fault then None else Some (rev (sort_key us_created_at (ud_users d))))"

definition page_snapshot :: "int \<Rightarrow> engine_store \<Rightarrow> (probe_cache \<Rightarrow> probe_cache) \<Rightarrow> probe_cache \<Rightarrow> (int \<rightharpoonup> probe_data) \<times> bool" where
  "page_snapshot now st warm pc =
     (let snapshot = cached_probe_snapshot now st pc in
      if list_all (\<lambda>e. fst snapshot (ec_id e) = None) (cached_engines st) then cached_probe_snapshot now st (warm pc) else snapshot)"

text \<open>One entry per engine, from the probe data the snapshot has of it, or the zero value.\<close>

definition per_engine :: "(probe_data \<Rightarrow> 'v) \<Rightarrow> (int \<rightharpoonup> probe_data) \<Rightarrow> engine_config list \<Rightarrow> (string \<rightharpoonup> 'v)" where
  "per_engine field snap es =
     foldl (\<lambda>m e. m(itoa (ec_id e) \<mapsto> field (case snap (ec_id e) of None \<Rightarrow> no_probe | Some d \<Rightarrow> d))) Map.empty es"

text \<open>\<open>fmt\<close> is the RFC 3339 text of an instant, \<open>table\<close> the request log.\<close>

definition usage_since :: "(int \<Rightarrow> string) \<Rightarrow> int \<Rightarrow> string \<Rightarrow> string" where
  "usage_since fmt now window =
     (let days = (case map_of usage_windows window of None \<Rightarrow> 0 | Some (d, _) \<Rightarrow> d)
      in fmt (now - 24 * 60 * ns_minute * days))"

definition handle_admin_panel ::
  "(int \<Rightarrow> string) \<Rightarrow> (probe_cache \<Rightarrow> probe_cache) \<Rightarrow> bool \<Rightarrow> probe_cache \<Rightarrow> admin_env \<Rightarrow> admin_call \<Rightarrow>
   'b admin_state \<Rightarrow> 'b admin_state \<times> dashboard_data page_reply" where
  "handle_admin_panel fmt warm usage_fault pc env rq st =
     (if \<not> is_admin_session st then (st, ToLogin)
      else case get_all_users (ae_read_fault env) (as_users st) of
        None \<Rightarrow> (st, PageError)
      | Some users \<Rightarrow>
          let es = cached_engines (as_engines st);
              snap = fst (page_snapshot (ae_now env) (as_engines st) warm pc);
              window = usage_window_for (ac_query rq ''usage'');
              rows = get_usage_by_client (ud_users (as_users st)) (usage_since fmt (ae_now env) window)
                       (map snd (ls_requests (as_logs st)));
              (bd, st1) = new_base_data env ''/admin/panel'' st
          in (st1, Rendered
               \<lparr>dd_base = bd, dd_users = users, dd_engines = es, dd_urls = get_engine_urls es,
                dd_status = per_engine pd_status snap es, dd_models = per_engine pd_models snap es,
                dd_usage = (if usage_fault then None else Some (build_usage_panel rows window (int (length users))))\<rparr>))"

definition handle_admin_settings_page ::
  "(probe_cache \<Rightarrow> probe_cache) \<Rightarrow> probe_cache \<Rightarrow> admin_env \<Rightarrow> admin_call \<Rightarrow>
   'b admin_state \<Rightarrow> 'b admin_state \<times> settings_data page_reply" where
  "handle_admin_settings_page warm pc env rq st =
     (if \<not> is_admin_session st then (st, ToLogin)
      else
        let es = cached_engines (as_engines st);
            snap = fst (page_snapshot (ae_now env) (as_engines st) warm pc);
            (bd, st1) = new_base_data env settings_page st
        in (st1, Rendered
             \<lparr>sd_base = bd, sd_engines = es, sd_urls = get_engine_urls es, sd_status = per_engine pd_status snap es,
              sd_details = per_engine pd_details snap es\<rparr>))"

subsection \<open>What the pages show\<close>

lemma per_engine_map:
  "per_engine field snap es =
     map_of (rev (map (\<lambda>e. (itoa (ec_id e), field (case snap (ec_id e) of None \<Rightarrow> no_probe | Some d \<Rightarrow> d))) es))"
  by (induction es rule: rev_induct) (simp_all add: per_engine_def)

text \<open>
  The dashboard has a status and a model list for exactly the configured engines, an engine no
  probe has finished for showing as down with no models; a usage query that fails costs the usage
  panel only; and every form of the page carries the token the session now holds.
\<close>

theorem dashboard_complete:
  assumes "sn_admin (as_session st)" and "\<not> ae_read_fault env"
  shows "\<exists>d. snd (handle_admin_panel fmt warm usage_fault pc env rq st) = Rendered d \<and>
    dom (dd_status d) = (\<lambda>e. itoa (ec_id e)) ` set (dd_engines d) \<and>
    dom (dd_models d) = (\<lambda>e. itoa (ec_id e)) ` set (dd_engines d) \<and>
    dd_engines d = cached_engines (as_engines st) \<and> mset (dd_users d) = mset (ud_users (as_users st)) \<and>
    (dd_usage d = None \<longleftrightarrow> usage_fault) \<and>
    (bd_csrf (dd_base d) = [] \<or>
     bd_csrf (dd_base d) = sn_csrf (as_session (fst (handle_admin_panel fmt warm usage_fault pc env rq st))))"
proof -
  have tok: "bd_csrf (fst (new_base_data env p st)) = [] \<or>
      bd_csrf (fst (new_base_data env p st)) = sn_csrf (as_session (snd (new_base_data env p st)))" for p
    by (auto simp: new_base_data_def csrf_token_def save_session_def case_prod_beta Let_def split: option.splits)
  show ?thesis
    using assms tok [of "''/admin/panel''"]
    by (simp add: handle_admin_panel_def is_admin_session_def get_all_users_def case_prod_beta Let_def)
      (auto simp: per_engine_map dom_map_of_conv_image_fst image_image)
qed

end
