(* ===== verification/Whole_Server.thy ===== *)
theory Whole_Server
  imports Gateway Admin_Safety Dashboard
begin

section \<open>The whole server, one request after another\<close>

text \<open>
  The state all requests share, and one request through \<open>setupRouter\<close>: the first route that
  matches, the middleware, the handler. The API and the admin UI meet in the users table, its
  cache, the limiters and the engines; an engine change marks the routing index stale. A session
  is the value of a cookie: a client can send only one the server has issued, which the cookie's
  signature ensures, or none. Requests run one at a time here; what concurrent ones can do to
  each other is in the theories of the parts.
\<close>

record 'b site =
  si_users :: user_db
  si_cache :: user_cache
  si_limiters :: "'b limiters"
  si_engines :: engine_store
  si_account :: "admin_user option"
  si_guard :: login_guard
  si_logs :: log_store
  si_upstream :: metrics
  si_route :: route_state
  si_slots :: "int \<Rightarrow> limiter"
  si_calls :: "(engine_config \<times> obj) list"
  si_audit :: "interaction_entry writer"
  si_requests :: "request_entry writer"
  si_total :: "(string \<times> string \<times> int) list"
  si_inflight :: "string \<Rightarrow> int"
  si_panics :: "string list"
  si_issued :: "session set" \<comment> \<open>the cookies browsers hold\<close>

definition no_session :: session where
  "no_session = \<lparr>sn_admin = False, sn_csrf = [], sn_flashes = [], sn_exported = {}\<rparr>"

text \<open>A request with what its handler finds outside the program.\<close>

record arrival =
  ar_http :: http_request
  ar_layers :: http_env
  ar_admin :: admin_env
  ar_form :: "(string \<Rightarrow> string) option" \<comment> \<open>\<open>FormValue\<close>, when the form parses\<close>
  ar_partial :: "string \<Rightarrow> string"
  ar_query :: "string \<Rightarrow> string"
  ar_api :: request_env
  ar_usage_fault :: bool
  ar_warm :: "probe_cache \<Rightarrow> probe_cache"
  ar_rest :: "endpoint \<Rightarrow> unit handler" \<comment> \<open>the endpoints that touch none of this state\<close>

text \<open>What encoding and templates make of a reply.\<close>

record site_text =
  st_frames :: frame_text
  st_page :: "string \<Rightarrow> base_data \<Rightarrow> string \<Rightarrow> string"
  st_panel :: "dashboard_data \<Rightarrow> string"
  st_settings :: "settings_data \<Rightarrow> string"
  st_csv :: "string list list \<Rightarrow> string"
  st_json :: "obj \<Rightarrow> string"
  st_time :: "int \<Rightarrow> string"

subsection \<open>Replies of the admin handlers\<close>

text \<open>The short body of \<open>http.Redirect\<close> and the session's \<open>Set-Cookie\<close> are left out.\<close>

definition redirect_acts :: "string \<Rightarrow> act list" where
  "redirect_acts to = [SetHeader ''Location'' to, WriteHeader 302]"

definition error_acts :: "int \<Rightarrow> string \<Rightarrow> act list" where
  "error_acts code msg =
     [SetHeader ''Content-Type'' ''text/plain; charset=utf-8'', WriteHeader code, Write (Bytes msg)]"

text \<open>
  Every frame is flushed; the one that reports an interrupted pull reaches the wire with the
  \<open>[DONE]\<close> after it.
\<close>

definition event_acts :: "string list \<Rightarrow> act list" where
  "event_acts ds =
     [SetHeader ''Content-Type'' ''text/event-stream'', SetHeader ''X-Accel-Buffering'' ''no'',
      SetHeader ''Cache-Control'' ''no-cache''] @
     concat (map (\<lambda>d. [Write (Bytes (''data: '' @ d @ [CHR 0x0A, CHR 0x0A])), Flush]) ds)"

fun admin_acts :: "site_text \<Rightarrow> admin_reply \<Rightarrow> act list" where
  "admin_acts tx (GoTo to) = redirect_acts to"
| "admin_acts tx (Refuse code msg) = error_acts code msg"
| "admin_acts tx (TryLater secs msg) = SetHeader ''Retry-After'' secs # error_acts 429 msg"
| "admin_acts tx (KeyPage p) = [SetHeader ''Content-Type'' ''text/html'', Write (Bytes p)]"
| "admin_acts tx (Page name bd extra) = [SetHeader ''Content-Type'' ''text/html; charset=utf-8'', Write (Bytes (st_page tx name bd extra))]"
| "admin_acts tx (Csv file rows) =
     [SetHeader ''Content-Type'' ''text/csv'', SetHeader ''Content-Disposition'' (''attachment; filename='' @ file),
      Write (Bytes (st_csv tx rows)), Flush]"
| "admin_acts tx (JsonReply code j) =
     [SetHeader ''Content-Type'' ''application/json'', WriteHeader code, Write (Bytes (st_json tx j))]"
| "admin_acts tx (Events ds) = event_acts ds"
| "admin_acts tx Panics = []"

fun page_acts :: "('d \<Rightarrow> string) \<Rightarrow> 'd page_reply \<Rightarrow> act list" where
  "page_acts txt ToLogin = redirect_acts ''/''"
| "page_acts txt PageError = error_acts 500 ''Internal server error''"
| "page_acts txt (Rendered d) = [SetHeader ''Content-Type'' ''text/html; charset=utf-8'', Write (Bytes (txt d))]"

subsection \<open>One request\<close>

definition enter :: "'a \<Rightarrow> 'b site \<Rightarrow> 'a exchange" where
  "enter a y =
     \<lparr>xc_resp = new_recorder, xc_detail = None,
      xc_world = \<lparr>wd_app = a, wd_users = si_users y, wd_cache = si_cache y, wd_log = si_requests y,
                  wd_total = si_total y, wd_inflight = si_inflight y, wd_panics = si_panics y\<rparr>\<rparr>"

definition leave :: "'a exchange \<Rightarrow> 'b site \<Rightarrow> 'b site" where
  "leave x y =
     y\<lparr>si_cache := wd_cache (xc_world x), si_requests := wd_log (xc_world x), si_total := wd_total (xc_world x),
       si_inflight := wd_inflight (xc_world x), si_panics := wd_panics (xc_world x)\<rparr>"

definition handled :: "http_env \<Rightarrow> 'a handler \<Rightarrow> http_request \<Rightarrow> 'a \<Rightarrow> 'b site \<Rightarrow> 'a exchange" where
  "handled env h rq a y = fst (middleware_chain env (serve h) rq None (enter a y))"

definition admin_view :: "session \<Rightarrow> 'b site \<Rightarrow> 'b admin_state" where
  "admin_view s y =
     \<lparr>as_session = s, as_cookie = s, as_users = si_users y, as_cache = si_cache y, admin_state.as_limiters = si_limiters y,
      as_logs = si_logs y, as_account = si_account y, as_guard = si_guard y, as_engines = si_engines y,
      as_metrics = si_upstream y\<rparr>"

text \<open>\<open>onEnginesChanged\<close>, as often as the handler called it, and the cookie the browser ends with.\<close>

definition admin_back :: "'b admin_state \<Rightarrow> 'b site \<Rightarrow> 'b site" where
  "admin_back st y =
     y\<lparr>si_users := as_users st, si_cache := as_cache st, si_limiters := admin_state.as_limiters st, si_logs := as_logs st,
       si_account := as_account st, si_guard := as_guard st, si_engines := as_engines st, si_upstream := as_metrics st,
       si_route := (invalidate_route_index ^^ (es_changes (as_engines st) - es_changes (si_engines y))) (si_route y),
       si_issued := insert (as_cookie st) (si_issued y)\<rparr>"

definition admin_http ::
  "('r \<Rightarrow> act list) \<Rightarrow> ('b admin_state \<Rightarrow> 'b admin_state \<times> 'r) \<Rightarrow> bool \<Rightarrow> 'b admin_state handler" where
  "admin_http acts h panics rq usr d st = (let (st1, reply) = h st in (acts reply, d, st1, panics))"

definition admin_request ::
  "http_env \<Rightarrow> ('r \<Rightarrow> act list) \<Rightarrow> ('r \<Rightarrow> bool) \<Rightarrow> ('b admin_state \<Rightarrow> 'b admin_state \<times> 'r) \<Rightarrow> http_request \<Rightarrow>
   'b site \<Rightarrow> 'b site \<times> http_response option" where
  "admin_request env acts panics h rq y =
     (let st = admin_view (hr_session rq) y; x = handled env (admin_http acts h (panics (snd (h st)))) rq st y
      in (admin_back (app x) (leave x y), Some (xc_resp x)))"

definition api_view :: "'b site \<Rightarrow> 'b api_state" where
  "api_view y =
     \<lparr>api_state.as_limiters = si_limiters y, as_route = si_route y, as_slots = si_slots y, as_calls = si_calls y,
      as_log = si_audit y, as_detail = None\<rparr>"

definition api_back :: "'b api_state \<Rightarrow> 'b site \<Rightarrow> 'b site" where
  "api_back a y =
     y\<lparr>si_limiters := api_state.as_limiters a, si_route := as_route a, si_slots := as_slots a, si_calls := as_calls a,
       si_audit := as_log a\<rparr>"

definition api_request :: "'b gateway \<Rightarrow> site_text \<Rightarrow> arrival \<Rightarrow> 'b site \<Rightarrow> 'b site \<times> http_response option" where
  "api_request gw tx ar y =
     (let x = handled (ar_layers ar) (api_handler (gw\<lparr>gw_store := si_engines y\<rparr>) (st_frames tx) (ar_api ar)) (ar_http ar)
                (api_view y) y
      in (api_back (app x) (leave x y), Some (xc_resp x)))"

definition call_of :: "pattern \<Rightarrow> arrival \<Rightarrow> admin_call" where
  "call_of pat ar =
     \<lparr>rq_admin = sn_admin (hr_session (ar_http ar)), rq_form = ar_form ar, ac_query = ar_query ar,
      ac_uid = (case pat of Numbered p \<Rightarrow> drop (length p) (hr_path (ar_http ar)) | _ \<Rightarrow> []), ac_partial = ar_partial ar\<rparr>"

text \<open>The first route of the pattern's path and method; \<open>None\<close>: the router answers 404 or 405 itself.\<close>

definition routed :: "(pattern \<Rightarrow> string \<Rightarrow> bool) \<Rightarrow> http_request \<Rightarrow> (pattern \<times> string \<times> endpoint) option" where
  "routed m rq =
     List.find (\<lambda>(pat, verb, e). m pat (hr_path rq) \<and> (verb = [] \<or> hr_method rq = verb)) setup_router"

definition endpoint_request ::
  "'b gateway \<Rightarrow> site_text \<Rightarrow> arrival \<Rightarrow> pattern \<Rightarrow> endpoint \<Rightarrow> 'b site \<Rightarrow> 'b site \<times> http_response option" where
  "endpoint_request gw tx ar pat e y =
     (let rq = ar_http ar; env = ar_layers ar; q = call_of pat ar in
      case e of
        Admin r \<Rightarrow> admin_request env (admin_acts tx) (\<lambda>p. p = Panics) (route_handler r (ar_admin ar) q) rq y
      | Panel \<Rightarrow> admin_request env (page_acts (st_panel tx)) (\<lambda>_. False)
          (handle_admin_panel (st_time tx) (ar_warm ar) (ar_usage_fault ar) (ae_probes (ar_admin ar)) (ar_admin ar) q) rq y
      | SettingsPage \<Rightarrow> admin_request env (page_acts (st_settings tx)) (\<lambda>_. False)
          (handle_admin_settings_page (ar_warm ar) (ae_probes (ar_admin ar)) (ar_admin ar) q) rq y
      | ChatCompletions \<Rightarrow> api_request gw tx ar y
      | Messages \<Rightarrow> api_request gw tx ar y
      | CountTokens \<Rightarrow> api_request gw tx ar y
      | _ \<Rightarrow> (let x = handled env (ar_rest ar e) rq () y in (leave x y, Some (xc_resp x))))"

definition serve_site ::
  "(pattern \<Rightarrow> string \<Rightarrow> bool) \<Rightarrow> 'b gateway \<Rightarrow> site_text \<Rightarrow> arrival \<Rightarrow> 'b site \<Rightarrow> 'b site \<times> http_response option" where
  "serve_site m gw tx ar y =
     (case routed m (ar_http ar) of
        None \<Rightarrow> (y, None)
      | Some (pat, verb, e) \<Rightarrow> endpoint_request gw tx ar pat e y)"

text \<open>
  Steps of the site: a request of a client with a cookie the server has issued, or without; and,
  between requests, the background tasks, which touch the limiters, the log tables and the queues.
\<close>

inductive site_step ::
  "(pattern \<Rightarrow> string \<Rightarrow> bool) \<Rightarrow> 'b gateway \<Rightarrow> site_text \<Rightarrow> 'b site \<Rightarrow> 'b site \<Rightarrow> bool" for m gw tx where
  request: "hr_session (ar_http ar) \<in> insert no_session (si_issued y) \<Longrightarrow> site_step m gw tx y (fst (serve_site m gw tx ar y))"
| background: "site_step m gw tx y (y\<lparr>si_limiters := ls, si_logs := t, si_audit := a, si_requests := r\<rparr>)"

abbreviation site_reach ::
  "(pattern \<Rightarrow> string \<Rightarrow> bool) \<Rightarrow> 'b gateway \<Rightarrow> site_text \<Rightarrow> 'b site \<Rightarrow> 'b site \<Rightarrow> bool" where
  "site_reach m gw tx \<equiv> (site_step m gw tx)\<^sup>*\<^sup>*"

subsection \<open>The administrator's part of the state\<close>

definition server_part :: "'b admin_state \<Rightarrow> user_db \<times> admin_user option \<times> engine_store \<times> log_store" where
  "server_part st = (as_users st, as_account st, as_engines st, as_logs st)"

lemma server_part_fields [simp]:
  "server_part (fst (save_session env st)) = server_part st" "server_part (flash_now env c msg st) = server_part st"
  "server_part (st\<lparr>as_session := s\<rparr>) = server_part st" "server_part (st\<lparr>as_guard := g\<rparr>) = server_part st"
  "server_part (set_admin b st) = server_part st" "server_part (st\<lparr>as_metrics := ms\<rparr>) = server_part st"
  "server_part (snd (new_base_data env path st)) = server_part st"
  by (simp_all add: server_part_def set_admin_def new_base_data_def case_prod_beta Let_def)

lemma server_part_render [simp]: "server_part (fst (render page path extra env rq st)) = server_part st"
  by (simp add: render_def case_prod_beta Let_def)

lemma login_keeps_server: "server_part (fst (handle_admin_login env rq st)) = server_part st"
  by (simp add: handle_admin_login_def Let_def case_prod_beta split: option.split)

lemma logout_keeps_server: "server_part (fst (handle_logout env rq st)) = server_part st"
  by (simp add: handle_logout_def Let_def case_prod_beta)

text \<open>Neither a request without the session nor a GET other than the pull changes it.\<close>

lemma guarded_server:
  assumes "\<not> sn_admin (as_session st)"
  shows "server_part (fst (route_handler r env rq st)) = server_part st"
proof (cases "r \<in> {Index, Login, Logout}")
  case True
  then show ?thesis by (auto simp: handle_index_def login_keeps_server logout_keeps_server)
next
  case False
  with admin_routes_guarded [OF this assms] show ?thesis by simp
qed

definition reading_routes :: "admin_route set" where
  "reading_routes = {Index, EngineTest, ModelSearch, Help, Logs, ExportLogs, Export, ConfirmDelete, Users}"

lemma reading_server:
  assumes "r \<in> reading_routes"
  shows "server_part (fst (route_handler r env rq st)) = server_part st"
  using assms
  by (auto simp: reading_routes_def handle_index_def handle_engine_test_def handle_ollama_search_def handle_admin_help_def
      handle_admin_logs_def handle_export_all_logs_def handle_export_def handle_confirm_delete_def handle_users_def
      admin_only_def save_late_def Let_def case_prod_beta split: option.split outcome.split)

lemma pull_server:
  assumes "\<not> csrf_query_valid (as_session st) (ac_query rq ''_csrf'')"
  shows "server_part (fst (route_handler PullStream env rq st)) = server_part st"
  using assms by (simp add: handle_ollama_pull_stream_def)

lemma pages_server:
  "server_part (fst (handle_admin_panel fmt warm uf pc env rq st)) = server_part st"
  "server_part (fst (handle_admin_settings_page warm pc env rq st)) = server_part st"
  by (simp_all add: handle_admin_panel_def handle_admin_settings_page_def Let_def case_prod_beta split: option.split)

text \<open>The cookie of a client that is not admin becomes one only through the login.\<close>

definition gains_admin :: "'b admin_state \<Rightarrow> 'b admin_state \<Rightarrow> bool" where
  "gains_admin st st' \<longleftrightarrow> \<not> sn_admin (as_cookie st) \<and> sn_admin (as_cookie st')"

lemma base_data_cookie:
  "as_session st = as_cookie st \<Longrightarrow> sn_admin (as_cookie (snd (new_base_data env path st))) = sn_admin (as_cookie st)"
  by (simp add: new_base_data_def save_session_def consume_flashes_def csrf_token_def case_prod_beta Let_def split: option.split)

lemma login_cookie:
  assumes "as_session st = as_cookie st" and "gains_admin st (fst (handle_admin_login env rq st))"
  shows "attempt_checked env rq st \<and> attempt_right env rq st"
  using assms
  by (auto simp: gains_admin_def handle_admin_login_def attempt_checked_def attempt_right_def get_admin_error
      password_right_iff flash_now_cookie set_admin_def save_session_def Let_def case_prod_beta split: option.splits if_splits)

lemma route_cookie:
  assumes "as_session st = as_cookie st" and "gains_admin st (fst (route_handler r env rq st))"
  shows "r = Login \<and> attempt_checked env rq st \<and> attempt_right env rq st"
proof -
  have out: "\<not> sn_admin (as_session st)" using assms by (simp add: gains_admin_def)
  have "r \<in> {Index, Login, Logout}"
  proof (rule ccontr)
    assume "r \<notin> {Index, Login, Logout}"
    from admin_routes_guarded [OF this out, of env rq] assms(2) show False by (simp add: gains_admin_def)
  qed
  moreover have "r \<noteq> Index" using assms by (auto simp: gains_admin_def handle_index_def render_def base_data_cookie case_prod_beta Let_def)
  moreover have "r \<noteq> Logout" using assms by (auto simp: gains_admin_def handle_logout_def set_admin_def save_session_def Let_def case_prod_beta split: if_splits)
  ultimately have "r = Login" by blast
  with login_cookie [OF assms(1)] assms(2) show ?thesis by simp
qed

lemma pages_cookie:
  assumes "as_session st = as_cookie st"
  shows "\<not> gains_admin st (fst (handle_admin_panel fmt warm uf pc env rq st))"
    and "\<not> gains_admin st (fst (handle_admin_settings_page warm pc env rq st))"
  using assms
  by (simp_all add: gains_admin_def handle_admin_panel_def handle_admin_settings_page_def is_admin_session_def
      split: option.split)

subsection \<open>What a request reaches\<close>

text \<open>The methods of the admin routes, none of which is under \<open>/v1/\<close>.\<close>

definition outside_api :: "pattern \<Rightarrow> bool" where
  "outside_api pat =
     (case pat of Exact p \<Rightarrow> \<not> has_prefix p ''/v1/''
      | Prefix p \<Rightarrow> Suc 0 < length p \<and> p ! Suc 0 \<noteq> CHR ''v''
      | Numbered p \<Rightarrow> Suc 0 < length p \<and> p ! Suc 0 \<noteq> CHR ''v'')"

definition admin_route_ok :: "pattern \<times> string \<times> endpoint \<Rightarrow> bool" where
  "admin_route_ok t =
     (case t of (pat, verb, e) \<Rightarrow>
        case e of Admin r \<Rightarrow> verb = (if r \<in> insert PullStream reading_routes then ''GET'' else ''POST'') \<and> outside_api pat
        | _ \<Rightarrow> True)"

lemma admin_routes_ok: "list_all admin_route_ok setup_router"
  by code_simp

lemma routed_Some:
  assumes "routed m rq = Some (pat, verb, e)"
  shows "(pat, verb, e) \<in> set setup_router" and "m pat (hr_path rq)" and "verb = [] \<or> hr_method rq = verb"
  using assms unfolding routed_def find_Some_iff by (auto simp: in_set_conv_nth)

lemma mux_open_ended:
  "mux_matching m \<Longrightarrow> m (Prefix p) path \<Longrightarrow> \<exists>q. path = p @ q"
  "mux_matching m \<Longrightarrow> m (Numbered p) path \<Longrightarrow> \<exists>q. path = p @ q"
  unfolding mux_matching_def has_prefix_iff by blast+

lemma admin_routed:
  assumes "mux_matching m" and "routed m rq = Some (pat, verb, Admin r)"
  shows "hr_method rq = (if r \<in> insert PullStream reading_routes then ''GET'' else ''POST'')" and "\<not> api_path rq"
proof -
  note at = routed_Some [OF assms(2)]
  have ok: "verb = (if r \<in> insert PullStream reading_routes then ''GET'' else ''POST'')" "outside_api pat"
    using admin_routes_ok at(1) by (auto simp: list_all_iff admin_route_ok_def)
  then show "hr_method rq = (if r \<in> insert PullStream reading_routes then ''GET'' else ''POST'')"
    using at(3) by (auto split: if_splits)
  have far: "\<not> has_prefix (p @ q) ''/v1/''" if "Suc 0 < length p" "p ! Suc 0 \<noteq> CHR ''v''" for p q :: string
    using that by (cases p; cases "tl p") (auto simp: has_prefix_iff)
  show "\<not> api_path rq"
  proof (cases pat)
    case (Exact p)
    with ok assms(1) at(2) show ?thesis by (auto simp: outside_api_def mux_matching_def api_path_def)
  next
    case (Prefix p)
    with mux_open_ended [OF assms(1)] at(2) obtain q where "hr_path rq = p @ q" by blast
    with far [of p q] ok Prefix show ?thesis by (simp add: outside_api_def api_path_def)
  next
    case (Numbered p)
    with mux_open_ended [OF assms(1)] at(2) obtain q where "hr_path rq = p @ q" by blast
    with far [of p q] ok Numbered show ?thesis by (simp add: outside_api_def api_path_def)
  qed
qed

text \<open>A handler inside the layers leaves the state as it was or runs, with the token if it must be held.\<close>

lemma handled_ran:
  assumes "app (handled env h rq a y) \<noteq> a"
  shows "\<exists>u d. app (handled env h rq a y) = fst (snd (snd (h rq u d a))) \<and> csrf_held rq \<and>
    (\<forall>v. u = Some v \<longrightarrow> authenticated env rq (xc_world (enter a y)) v)"
proof -
  have "app (fst (middleware_chain env (serve h) rq None (enter a y))) \<noteq> app (enter a y)"
    using assms by (simp add: handled_def enter_def)
  from reachesD [OF chain_reaches this] show ?thesis
    by (fastforce simp: handled_def enter_def split: if_splits)
qed

lemma admin_handled:
  assumes "app (handled env (admin_http acts h p) rq st y) \<noteq> st"
  shows "app (handled env (admin_http acts h p) rq st y) = fst (h st)" and "csrf_held rq"
  using handled_ran [OF assms] by (auto simp: admin_http_def case_prod_beta Let_def)

definition site_config :: "'b site \<Rightarrow> user_db \<times> admin_user option \<times> engine_store \<times> log_store" where
  "site_config y = (si_users y, si_account y, si_engines y, si_logs y)"

lemma site_config_fields [simp]:
  "site_config (leave x y) = site_config y" "site_config (api_back a y) = site_config y"
  "site_config (admin_back st y) = server_part st" "server_part (admin_view s y) = site_config y"
  "si_issued (leave x y) = si_issued y" "si_issued (api_back a y) = si_issued y"
  "si_issued (admin_back st y) = insert (as_cookie st) (si_issued y)"
  "as_session (admin_view s y) = s" "as_cookie (admin_view s y) = s" "as_account (admin_view s y) = si_account y"
  "as_users (admin_view s y) = si_users y" "as_cache (admin_view s y) = si_cache y" "as_guard (admin_view s y) = si_guard y"
  by (simp_all add: site_config_def leave_def api_back_def admin_back_def server_part_def admin_view_def)

lemma api_request_config [simp]:
  "site_config (fst (api_request gw tx ar y)) = site_config y" "si_issued (fst (api_request gw tx ar y)) = si_issued y"
  by (simp_all add: api_request_def Let_def)

lemma admin_request_cases:
  assumes "y' = fst (admin_request env acts p h rq y)"
  obtains (ran) "site_config y' = server_part (fst (h (admin_view (hr_session rq) y)))" "csrf_held rq"
    "si_issued y' = insert (as_cookie (fst (h (admin_view (hr_session rq) y)))) (si_issued y)"
  | (kept) "site_config y' = site_config y" "si_issued y' = insert (hr_session rq) (si_issued y)"
  using assms that admin_handled [of env acts h _ rq "admin_view (hr_session rq) y" y]
  by (cases "app (handled env (admin_http acts h (p (snd (h (admin_view (hr_session rq) y))))) rq (admin_view (hr_session rq) y) y) =
      admin_view (hr_session rq) y") (simp_all add: admin_request_def Let_def)

lemma admin_request_keeps:
  assumes "server_part (fst (h (admin_view (hr_session rq) y))) = site_config y"
  shows "site_config (fst (admin_request env acts p h rq y)) = site_config y"
  by (rule admin_request_cases [OF refl, of env acts p h rq y]) (simp_all add: assms)

lemma pages_config:
  "e \<in> {Panel, SettingsPage} \<Longrightarrow> site_config (fst (endpoint_request gw tx ar pat e y)) = site_config y"
  by (auto simp: endpoint_request_def Let_def pages_server intro!: admin_request_keeps)

subsection \<open>Every change is an administrator's\<close>

text \<open>What an endpoint outside the admin UI leaves alone.\<close>

lemma other_endpoint:
  assumes "\<And>r. e \<noteq> Admin r" and "e \<notin> {Panel, SettingsPage}"
  shows "site_config (fst (endpoint_request gw tx ar pat e y)) = site_config y"
    and "si_issued (fst (endpoint_request gw tx ar pat e y)) = si_issued y"
  using assms by (cases e; simp add: endpoint_request_def Let_def)+

text \<open>
  C3. Whatever request arrives, if it changes the users, the administrator's account, the engines or
  the stored logs then it took an admin route with an administrator's session, and it carried the
  token of that session: as a POST in its form or header, or as a pull in its query.
\<close>

theorem changes_need_admin_and_token:
  assumes "mux_matching m" and "site_config (fst (serve_site m gw tx ar y)) \<noteq> site_config y"
  shows "\<exists>pat verb r. routed m (ar_http ar) = Some (pat, verb, Admin r) \<and>
    sn_admin (hr_session (ar_http ar)) \<and> sn_csrf (hr_session (ar_http ar)) \<noteq> [] \<and>
    (if r = PullStream then ar_query ar ''_csrf'' = sn_csrf (hr_session (ar_http ar))
     else hr_method (ar_http ar) = ''POST'' \<and> csrf_sent (ar_http ar) = sn_csrf (hr_session (ar_http ar)))"
proof -
  let ?rq = "ar_http ar" let ?st = "admin_view (hr_session ?rq) y"
  obtain pat verb e where at: "routed m ?rq = Some (pat, verb, e)"
    using assms(2) by (auto simp: serve_site_def split: option.splits)
  with assms(2) have new: "site_config (fst (endpoint_request gw tx ar pat e y)) \<noteq> site_config y"
    by (simp add: serve_site_def)
  have "e \<notin> {Panel, SettingsPage}"
    using new pages_config [of e gw tx ar pat y] by blast
  with new other_endpoint(1) obtain r where e: "e = Admin r" by metis
  let ?h = "route_handler r (ar_admin ar) (call_of pat ar)"
  define y' where "y' = fst (admin_request (ar_layers ar) (admin_acts tx) (\<lambda>p. p = Panics) ?h ?rq y)"
  have "site_config y' \<noteq> site_config y" using new by (simp add: y'_def e endpoint_request_def Let_def)
  with y'_def have ran: "server_part (fst (?h ?st)) \<noteq> site_config y \<and> csrf_held ?rq"
    by (elim admin_request_cases) simp_all
  have admin: "sn_admin (hr_session ?rq)" using guarded_server [of ?st r] ran by fastforce
  have "r \<notin> reading_routes" using reading_server [of r _ _ ?st] ran by fastforce
  moreover have "csrf_query_valid (hr_session ?rq) (ar_query ar ''_csrf'')" if "r = PullStream"
  proof (rule ccontr)
    assume "\<not> csrf_query_valid (hr_session ?rq) (ar_query ar ''_csrf'')"
    then have "\<not> csrf_query_valid (as_session ?st) (ac_query (call_of pat ar) ''_csrf'')" by (simp add: call_of_def)
    from pull_server [OF this, of "ar_admin ar"] ran that show False by simp
  qed
  ultimately show ?thesis
    using admin_routed [OF assms(1), of ?rq pat verb r] at e admin ran
    by (auto simp: csrf_held_def csrf_protected_def csrf_query_valid_def)
qed

subsection \<open>Every change traces back to the password\<close>

definition accounts_of :: "'b site \<Rightarrow> user_db \<times> admin_user option \<times> engine_store" where
  "accounts_of y = (si_users y, si_account y, si_engines y)"

definition no_admin :: "'b site \<Rightarrow> bool" where
  "no_admin y \<longleftrightarrow> (\<forall>s \<in> si_issued y. \<not> sn_admin s)"

text \<open>A request to the login page, let through by the guard, with the password of \<open>account\<close>.\<close>

definition gives_password ::
  "(pattern \<Rightarrow> string \<Rightarrow> bool) \<Rightarrow> arrival \<Rightarrow> login_guard \<Rightarrow> admin_user option \<Rightarrow> bool" where
  "gives_password m ar guard account \<longleftrightarrow>
     (\<exists>pat verb f a. routed m (ar_http ar) = Some (pat, verb, Admin Login) \<and> ar_form ar = Some f \<and> account = Some a \<and>
        fst (guard_allow guard (ae_now (ar_admin ar))) \<and>
        verify_password (ae_derive (ar_admin ar)) (au_hash a) (f ''password''))"

lemma request_without_admin:
  assumes "hr_session (ar_http ar) \<in> insert no_session (si_issued y)" and "no_admin y"
    and "\<not> gives_password m ar (si_guard y) (si_account y)"
  shows "site_config (fst (serve_site m gw tx ar y)) = site_config y \<and> no_admin (fst (serve_site m gw tx ar y))"
proof (cases "routed m (ar_http ar)")
  case None
  then show ?thesis using assms(2) by (simp add: serve_site_def)
next
  case (Some t)
  then obtain pat verb e where at: "routed m (ar_http ar) = Some (pat, verb, e)" by (cases t) auto
  let ?rq = "ar_http ar" let ?st = "admin_view (hr_session ?rq) y" let ?y = "fst (serve_site m gw tx ar y)"
  have out: "\<not> sn_admin (hr_session ?rq)" using assms(1,2) by (auto simp: no_admin_def no_session_def)
  have admin: "site_config ?y = site_config y \<and> no_admin ?y"
    if "?y = fst (admin_request env acts p h ?rq y)" "server_part (fst (h ?st)) = server_part ?st"
      "\<not> gains_admin ?st (fst (h ?st))" for env acts p and h :: "'a admin_state \<Rightarrow> 'a admin_state \<times> 'r"
    using that(1) by (rule admin_request_cases) (use that(2,3) out assms(2) in \<open>auto simp: no_admin_def gains_admin_def\<close>)
  show ?thesis
  proof (cases e)
    case (Admin r)
    let ?h = "route_handler r (ar_admin ar) (call_of pat ar)"
    have "\<not> gains_admin ?st (fst (?h ?st))"
    proof
      assume "gains_admin ?st (fst (?h ?st))"
      from route_cookie [OF _ this] have "r = Login" "attempt_checked (ar_admin ar) (call_of pat ar) ?st"
        "attempt_right (ar_admin ar) (call_of pat ar) ?st" by simp_all
      with assms(3) at Admin show False
        by (auto simp: gives_password_def attempt_checked_def attempt_right_def call_of_def)
    qed
    then show ?thesis
      using at Admin guarded_server [of ?st] out
      by (intro admin [of "ar_layers ar" "admin_acts tx" "\<lambda>p. p = Panics" ?h]) (simp_all add: serve_site_def endpoint_request_def Let_def)
  next
    case Panel
    show ?thesis
      by (rule admin) (use at Panel in \<open>simp add: serve_site_def endpoint_request_def Let_def\<close>, simp_all add: pages_server pages_cookie)
  next
    case SettingsPage
    show ?thesis
      by (rule admin) (use at SettingsPage in \<open>simp add: serve_site_def endpoint_request_def Let_def\<close>, simp_all add: pages_server pages_cookie)
  qed (use at other_endpoint [of e gw tx ar pat y] assms(2) in \<open>simp_all add: serve_site_def no_admin_def\<close>)
qed

text \<open>
  C2. Whatever requests arrive, if no browser holds an administrator's session at first and the users,
  the account or the engines are later not what they were, then in between a login that the guard
  let through gave the password of the account.
\<close>

theorem changes_trace_to_password:
  assumes "site_reach m gw tx y0 y" and "no_admin y0" and "accounts_of y \<noteq> accounts_of y0"
  shows "\<exists>y1 ar. site_reach m gw tx y0 y1 \<and> hr_session (ar_http ar) \<in> insert no_session (si_issued y1) \<and>
    gives_password m ar (si_guard y1) (si_account y0)"
proof -
  have "(accounts_of y = accounts_of y0 \<and> no_admin y) \<or>
    (\<exists>y1 ar. site_reach m gw tx y0 y1 \<and> hr_session (ar_http ar) \<in> insert no_session (si_issued y1) \<and>
       gives_password m ar (si_guard y1) (si_account y0))"
    using assms(1)
  proof (induction rule: rtranclp_induct)
    case base
    then show ?case using assms(2) by simp
  next
    case (step y z)
    from step(2) show ?case
    proof cases
      case (request ar)
      show ?thesis
      proof (cases "accounts_of y = accounts_of y0 \<and> no_admin y")
        case True
        then have same: "si_account y = si_account y0" by (simp add: accounts_of_def)
        show ?thesis
        proof (cases "gives_password m ar (si_guard y) (si_account y)")
          case False
          with True request request_without_admin [of ar y m gw tx] show ?thesis
            by (auto simp: accounts_of_def site_config_def)
        qed (use same step(1) request in auto)
      qed (use step(3) in blast)
    next
      case (background ls t a r)
      with step(3) show ?thesis by (auto simp: accounts_of_def no_admin_def)
    qed
  qed
  with assms(3) show ?thesis by blast
qed

subsection \<open>The users table and its cache, whoever asks\<close>

definition cache_kept :: "'a layer \<Rightarrow> bool" where
  "cache_kept L \<longleftrightarrow>
     (\<forall>rq usr x. users_coherent (wd_users (xc_world x)) (wd_cache (xc_world x)) \<longrightarrow>
        wd_users (xc_world (fst (L rq usr x))) = wd_users (xc_world x) \<and>
        users_coherent (wd_users (xc_world x)) (wd_cache (xc_world (fst (L rq usr x)))))"

lemma cache_keptI:
  assumes "\<And>rq usr x. users_coherent (wd_users (xc_world x)) (wd_cache (xc_world x)) \<Longrightarrow>
    wd_users (xc_world (fst (L rq usr x))) = wd_users (xc_world x) \<and>
    users_coherent (wd_users (xc_world x)) (wd_cache (xc_world (fst (L rq usr x))))"
  shows "cache_kept L"
  using assms unfolding cache_kept_def by blast

lemma cache_keptD:
  assumes "cache_kept L" and "wd_users (xc_world x) = d" and "users_coherent d (wd_cache (xc_world x))"
  shows "wd_users (xc_world (fst (L rq usr x))) = d" and "users_coherent d (wd_cache (xc_world (fst (L rq usr x))))"
  using assms unfolding cache_kept_def by blast+

lemma serve_cache: "cache_kept (serve h)"
  by (rule cache_keptI) (simp add: serve_def case_prod_beta Let_def)

lemma logging_cache: "cache_kept L \<Longrightarrow> cache_kept (request_logging_middleware env L)"
  by (rule cache_keptI) (simp add: request_logging_middleware_def case_prod_beta Let_def cache_keptD)

lemma csrf_cache: "cache_kept L \<Longrightarrow> cache_kept (csrf_middleware L)"
  by (rule cache_keptI) (simp add: csrf_middleware_def Let_def cache_keptD)

lemma auth_cache:
  assumes "cache_kept L"
  shows "cache_kept (api_auth_middleware env L)"
proof (rule cache_keptI)
  fix rq usr and x :: "'a exchange"
  assume ok: "users_coherent (wd_users (xc_world x)) (wd_cache (xc_world x))"
  let ?g = "get_user_by_api_key (he_hash env) (he_fault env) (he_now env) (api_key_from_request rq)
              (wd_users (xc_world x)) (wd_cache (xc_world x))"
  let ?x = "on_world (\<lambda>w. w\<lparr>wd_cache := snd ?g\<rparr>) x"
  have "users_coherent (wd_users (xc_world ?x)) (wd_cache (xc_world ?x))"
    using get_user_coherent [OF ok, of "he_fault env" "he_now env" "ApiKey (he_hash env (api_key_from_request rq))"]
    by (simp add: get_user_by_api_key_def prod_eq_iff)
  from this cache_keptD [OF assms refl this] cache_keptD [OF assms refl ok]
  show "wd_users (xc_world (fst (api_auth_middleware env L rq usr x))) = wd_users (xc_world x) \<and>
      users_coherent (wd_users (xc_world x)) (wd_cache (xc_world (fst (api_auth_middleware env L rq usr x))))"
    using ok by (simp add: api_auth_middleware_def case_prod_beta Let_def split: db_result.split)
qed

lemma outer_cache: "cache_kept L \<Longrightarrow> cache_kept (metrics_middleware (recovery_middleware (cors_middleware L)))"
  by (rule cache_keptI)
    (simp add: metrics_middleware_def recovery_middleware_def cors_middleware_def case_prod_beta Let_def cache_keptD split: option.split)

lemma chain_cache: "cache_kept (middleware_chain env (serve h))"
  unfolding middleware_chain_def by (intro outer_cache auth_cache csrf_cache logging_cache serve_cache)

definition site_ok :: "'b site \<Rightarrow> bool" where
  "site_ok y \<longleftrightarrow> wf_users (si_users y) \<and> users_coherent (si_users y) (si_cache y)"

lemma left_ok:
  assumes "site_ok y"
  shows "site_ok (leave (handled env h rq a y) y)"
  using assms cache_keptD(2) [OF chain_cache, of "enter a y" "si_users y" env h rq None]
  by (simp add: site_ok_def leave_def handled_def enter_def)

lemma admin_request_ok:
  assumes "site_ok y" and "\<And>st. users_ok st \<Longrightarrow> users_ok (fst (h st))"
  shows "site_ok (fst (admin_request env acts p h rq y))"
proof -
  let ?st = "admin_view (hr_session rq) y"
  let ?x = "handled env (admin_http acts h (p (snd (h ?st)))) rq ?st y"
  have "users_ok ?st" using assms(1) by (simp add: users_ok_def site_ok_def)
  then have "users_ok (app ?x)" using admin_handled(1) [of env acts h "p (snd (h ?st))" rq ?st y] assms(2) by metis
  then show ?thesis by (simp add: admin_request_def Let_def site_ok_def users_ok_def admin_back_def)
qed

lemma pages_users:
  "users_ok st \<Longrightarrow> users_ok (fst (handle_admin_panel fmt warm uf pc env rq st))"
  "users_ok st \<Longrightarrow> users_ok (fst (handle_admin_settings_page warm pc env rq st))"
  by (simp_all add: handle_admin_panel_def handle_admin_settings_page_def new_base_data_def Let_def case_prod_beta split: option.split)

lemma api_back_ok [simp]: "site_ok (api_back a y) = site_ok y"
  by (simp add: site_ok_def api_back_def)

lemma serve_site_ok:
  assumes "site_ok y"
  shows "site_ok (fst (serve_site m gw tx ar y))"
proof (cases "routed m (ar_http ar)")
  case (Some t)
  then obtain pat verb e where at: "routed m (ar_http ar) = Some (pat, verb, e)" by (cases t) auto
  have "users_ok (fst (route_handler r env q st))" if "users_ok st" for r env q and st :: "'a admin_state"
    using that by (rule keeps_users_all [unfolded keeps_users_def, rule_format])
  then have "site_ok (fst (endpoint_request gw tx ar pat e y))"
    using assms
    by (cases e) (simp_all add: endpoint_request_def api_request_def admin_request_ok pages_users left_ok Let_def)
  with at show ?thesis by (simp add: serve_site_def)
qed (use assms in \<open>simp add: serve_site_def\<close>)

lemma site_reach_ok: "site_reach m gw tx y0 y \<Longrightarrow> site_ok y0 \<Longrightarrow> site_ok y"
  by (induction rule: rtranclp_induct) (auto elim!: site_step.cases simp: serve_site_ok, simp add: site_ok_def)

subsection \<open>Engines answer only active users\<close>

lemma calls_kept:
  "si_calls (leave x y) = si_calls y" "si_calls (admin_back st y) = si_calls y"
  "si_calls (fst (admin_request env acts p h rq y)) = si_calls y"
  by (simp_all add: leave_def admin_back_def admin_request_def Let_def)

lemma enter_fields:
  "app (enter a y) = a" "wd_users (xc_world (enter a y)) = si_users y" "wd_cache (xc_world (enter a y)) = si_cache y"
  "as_calls (api_view y) = si_calls y" "as_log (api_view y) = si_audit y" "api_state.as_limiters (api_view y) = si_limiters y"
  by (simp_all add: enter_def api_view_def)


subsection \<open>Every answer is accounted for\<close>

lemma event_acts_settle [simp]:
  "settles True (concat (map (\<lambda>d. [Write (Bytes (f d)), Flush]) ds))" "settles False (event_acts ds)"
proof -
  have "settles b (concat (map (\<lambda>d. [Write (Bytes (f d)), Flush]) ds))" for b and f :: "string \<Rightarrow> string"
    by (induction ds arbitrary: b) simp_all
  then show "settles True (concat (map (\<lambda>d. [Write (Bytes (f d)), Flush]) ds))" "settles False (event_acts ds)"
    by (simp_all add: event_acts_def)
qed

lemma admin_acts_settle: "settles False (admin_acts tx reply)" "settles False (page_acts txt page)"
  by (cases reply; simp add: redirect_acts_def error_acts_def) (cases page; simp add: redirect_acts_def error_acts_def)

lemma admin_http_settled:
  "(\<And>r. settles False (acts r)) \<Longrightarrow> write_settled (admin_http acts h p)"
  by (simp add: write_settled_def admin_http_def case_prod_beta Let_def)

text \<open>What \<open>responses_accounted\<close> says of one handler, on the fields of the site.\<close>

definition accounted :: "string \<Rightarrow> http_request \<Rightarrow> 'b site \<Rightarrow> 'b site \<times> http_response option \<Rightarrow> bool" where
  "accounted label rq y r \<longleftrightarrow>
     (\<exists>resp. snd r = Some resp \<and> si_total (fst r) = si_total y @ [(label, hr_method rq, seen_status resp)] \<and>
        si_inflight (fst r) = si_inflight y \<and>
        (si_requests (fst r) = si_requests y \<or>
         (\<exists>e. si_requests (fst r) = enqueue e (si_requests y) \<and> re_status e = seen_status resp)))"

lemma handled_accounted:
  assumes "write_settled h" and "path_bucket (hr_path rq) = Some label"
    and "\<And>x. si_total (ret x) = si_total (leave x y) \<and> si_inflight (ret x) = si_inflight (leave x y) \<and>
           si_requests (ret x) = si_requests (leave x y)"
  shows "accounted label rq y (ret (handled env h rq a y), Some (xc_resp (handled env h rq a y)))"
proof -
  have "hr_path rq \<noteq> []" using assms(2) by (auto simp: path_bucket_def bucket_paths_def has_prefix_def)
  from responses_accounted [OF assms(1) _ this, of "enter a y" env] assms(2,3) show ?thesis
    by (simp add: accounted_def Let_def leave_def handled_def) (simp add: enter_def)
qed

text \<open>
  C25. Every request that a route takes, of whatever endpoint, is answered and accounted for: it adds
  one count, under one of the fixed labels and with the status the client saw, the gauge of
  requests in flight returns to its value, and at most one row, of that status, enters the queue
  of the request log. The endpoints modelled elsewhere must not flush before they write.
\<close>

theorem every_request_accounted:
  assumes "mux_matching m" and "routed m (ar_http ar) \<noteq> None" and "\<And>e. write_settled (ar_rest ar e)"
  shows "\<exists>label \<in> set metric_labels. accounted label (ar_http ar) y (serve_site m gw tx ar y)"
proof -
  let ?rq = "ar_http ar"
  obtain pat verb e where at: "routed m ?rq = Some (pat, verb, e)" using assms(2) by auto
  from metric_labels_bounded [OF assms(1) routed_Some(1,2) [OF at]] obtain label where
    label: "path_bucket (hr_path ?rq) = Some label" "label \<in> set metric_labels" by blast
  have admin: "accounted label ?rq y (admin_request env acts p h ?rq y)" if "\<And>r. settles False (acts r)"
    for env p and acts :: "'r \<Rightarrow> act list" and h :: "'a admin_state \<Rightarrow> 'a admin_state \<times> 'r"
    unfolding admin_request_def Let_def
    by (rule handled_accounted [where ret = "\<lambda>x. admin_back (app x) (leave x y)", OF admin_http_settled [OF that] label(1)])
      (simp add: admin_back_def)
  have api: "accounted label ?rq y (api_request gw tx ar y)"
    unfolding api_request_def Let_def
    by (rule handled_accounted [where ret = "\<lambda>x. api_back (app x) (leave x y)", OF api_handler_settled label(1)])
      (simp add: api_back_def)
  have rest: "accounted label ?rq y (leave (handled env (ar_rest ar e) ?rq () y) y, Some (xc_resp (handled env (ar_rest ar e) ?rq () y)))"
    for env e
    by (rule handled_accounted [where ret = "\<lambda>x. leave x y", OF assms(3) label(1)]) simp
  have "accounted label ?rq y (endpoint_request gw tx ar pat e y)"
    by (cases e) (simp_all add: endpoint_request_def Let_def admin admin_acts_settle api rest)
  with label(2) at show ?thesis by (auto simp: serve_site_def)
qed

subsection \<open>A site, its login and its first change\<close>

definition guest :: session where
  "guest = no_session\<lparr>sn_csrf := ''t''\<rparr>"

definition boss :: session where
  "boss = guest\<lparr>sn_admin := True\<rparr>"

definition sample_site :: "unit site" where
  "sample_site =
     \<lparr>si_users = sample_users, si_cache = [], si_limiters = Map.empty, si_engines = gw_store sample_gateway,
      si_account = Some \<lparr>au_id = 1, au_email = [], au_hash = hash_password sample_derive [] ''old''\<rparr>,
      si_guard = new_guard, si_logs = sample_log_store, si_upstream = [],
      si_route = \<lparr>rs_index = None, rs_gen = 0, rs_refreshing = False\<rparr>, si_slots = (\<lambda>_. new_limiter 1), si_calls = [],
      si_audit = new_writer, si_requests = new_writer, si_total = [], si_inflight = (\<lambda>_. 0), si_panics = [],
      si_issued = {guest}\<rparr>"

definition sample_post :: "string \<Rightarrow> session \<Rightarrow> arrival" where
  "sample_post path s =
     \<lparr>ar_http = \<lparr>hr_method = ''POST'', hr_path = path,
        hr_headers = (\<lambda>k. if k = ''X-CSRF-Token'' then ''t'' else if k = ''Authorization'' then ''Bearer h'' else []),
        hr_remote = ''10.0.0.1:80'', hr_session = s, hr_form = (\<lambda>_. [])\<rparr>,
      ar_layers = Http_Layer.sample_env, ar_admin = sample_admin_env,
      ar_form = Some (\<lambda>k. if k = ''password'' then ''old'' else if k = ''name'' then ''bob'' else []),
      ar_partial = (\<lambda>_. []), ar_query = (\<lambda>_. []), ar_api = sample_chat, ar_usage_fault = False, ar_warm = id,
      ar_rest = (\<lambda>_ _ _ d a. ([], d, a, False))\<rparr>"

definition plain_text :: site_text where
  "plain_text =
     \<lparr>st_frames = plain_frames, st_page = (\<lambda>_ _ _. []), st_panel = (\<lambda>_. []), st_settings = (\<lambda>_. []), st_csv = (\<lambda>_. []),
      st_json = (\<lambda>_. []), st_time = (\<lambda>_. [])\<rparr>"

abbreviation post_to :: "string \<Rightarrow> session \<Rightarrow> unit site \<Rightarrow> unit site" where
  "post_to path s y \<equiv> fst (serve_site plain_matching sample_gateway plain_text (sample_post path s) y)"

lemma handled_passes:
  assumes "\<not> api_path rq" and "csrf_held rq" and "path_bucket (hr_path rq) = Some b"
  shows "app (handled env h rq a y) = fst (snd (snd (h rq None None a)))"
proof -
  have "csrf_middleware L rq usr x = L rq usr x" for L :: "'a layer" and usr x
    using assms(2) by (auto simp: csrf_middleware_def csrf_held_def Let_def)
  with assms(1,3) show ?thesis
    by (simp add: handled_def enter_def middleware_chain_def metrics_middleware_def recovery_middleware_def
        cors_middleware_def api_auth_middleware_def request_logging_middleware_def serve_def case_prod_beta Let_def)
qed

lemma sample_post_fields:
  "hr_session (ar_http (sample_post p s)) = s" "hr_path (ar_http (sample_post p s)) = p"
  "hr_method (ar_http (sample_post p s)) = ''POST''" "ar_admin (sample_post p s) = sample_admin_env"
  "csrf_sent (ar_http (sample_post p s)) = ''t''" "ar_layers (sample_post p s) = Http_Layer.sample_env"
  by (simp_all add: sample_post_def csrf_sent_def)

lemma sample_admin_post:
  assumes "s \<in> {guest, boss}" and "\<not> has_prefix p ''/v1/''" and "path_bucket p = Some b"
    and "routed plain_matching (ar_http (sample_post p s)) = Some (Exact p, ''POST'', Admin r)"
  shows "post_to p s y =
    admin_back (fst (route_handler r sample_admin_env (call_of (Exact p) (sample_post p s)) (admin_view s y)))
      (leave (handled Http_Layer.sample_env (admin_http (admin_acts plain_text)
          (route_handler r sample_admin_env (call_of (Exact p) (sample_post p s)))
          (snd (route_handler r sample_admin_env (call_of (Exact p) (sample_post p s)) (admin_view s y)) = Panics))
        (ar_http (sample_post p s)) (admin_view s y) y) y)"
proof -
  have "\<not> api_path (ar_http (sample_post p s))" "csrf_held (ar_http (sample_post p s))"
    using assms(1,2) by (auto simp: api_path_def csrf_held_def sample_post_fields guest_def boss_def)
  note pass = handled_passes [OF this, of b]
  show ?thesis
    using assms(3,4)
    by (simp add: pass serve_site_def endpoint_request_def admin_request_def sample_post_fields Let_def)
      (simp add: admin_http_def case_prod_beta Let_def)
qed

lemma sample_routes:
  "routed plain_matching (ar_http (sample_post ''/admin'' s)) = Some (Exact ''/admin'', ''POST'', Admin Login)"
  "routed plain_matching (ar_http (sample_post ''/register'' s)) = Some (Exact ''/register'', ''POST'', Admin Register)"
  by (simp_all add: routed_def sample_post_fields setup_router_def has_prefix_def)

lemma sample_login:
  "si_issued (post_to ''/admin'' guest sample_site) = {boss, guest}" "accounts_of (post_to ''/admin'' guest sample_site) = accounts_of sample_site"
proof -
  have b: "path_bucket ''/admin'' = Some ''/admin''" "\<not> has_prefix ''/admin'' ''/v1/''"
    by (simp_all add: path_bucket_def bucket_paths_def has_prefix_def)
  have run: "fst (handle_admin_login sample_admin_env (call_of (Exact ''/admin'') (sample_post ''/admin'' guest)) (admin_view guest sample_site)) =
      (admin_view boss sample_site)\<lparr>as_guard := guard_succeeded new_guard\<rparr>"
    by (simp add: handle_admin_login_def call_of_def sample_post_def guard_allow_def new_guard_def admin_view_def sample_site_def
        get_admin_def password_right_def sample_admin_env_def verify_hash_password save_session_def set_admin_def boss_def
        guard_succeeded_def Let_def)
  show "si_issued (post_to ''/admin'' guest sample_site) = {boss, guest}"
    "accounts_of (post_to ''/admin'' guest sample_site) = accounts_of sample_site"
    unfolding sample_admin_post [OF insertI1 b(2,1) sample_routes(1)] route_handler.simps run
    by (simp_all add: accounts_of_def admin_back_def admin_view_def leave_def) (simp add: sample_site_def)
qed

text \<open>A new client, registered by whoever holds the administrator's cookie.\<close>

lemma sample_registration:
  assumes "si_users y = sample_users"
  shows "si_users (post_to ''/register'' boss y) \<noteq> si_users y"
proof -
  have b: "path_bucket ''/register'' = Some ''/register''" "\<not> has_prefix ''/register'' ''/v1/''"
    by (simp_all add: path_bucket_def bucket_paths_def has_prefix_def)
  have "validate_name ''bob''" by code_simp
  then have "as_users (fst (handle_register sample_admin_env (call_of (Exact ''/register'') (sample_post ''/register'' boss)) (admin_view boss y))) \<noteq>
      sample_users"
    using assms
    by (simp add: handle_register_def admin_only_def is_admin_session_def boss_def parse_admin_form_def register_def call_of_def
        sample_post_def sample_admin_env_def truncate_input_def create_user_def sample_users_def Let_def
        rune_start_def)
  moreover have "si_users (post_to ''/register'' boss y) =
      as_users (fst (handle_register sample_admin_env (call_of (Exact ''/register'') (sample_post ''/register'' boss)) (admin_view boss y)))"
    unfolding sample_admin_post [OF insertI2 [OF singletonI] b(2,1) sample_routes(2)] route_handler.simps
    by (simp add: admin_back_def)
  ultimately show ?thesis using assms by simp
qed

lemma changes_need_admin_and_token_witness:
  "sn_admin (hr_session (ar_http (sample_post ''/register'' boss))) \<and>
   csrf_sent (ar_http (sample_post ''/register'' boss)) = sn_csrf (hr_session (ar_http (sample_post ''/register'' boss)))"
proof -
  have "si_users sample_site = sample_users" by (simp add: sample_site_def)
  from sample_registration [OF this]
  have "site_config (post_to ''/register'' boss sample_site) \<noteq> site_config sample_site" by (simp add: site_config_def)
  from changes_need_admin_and_token [OF plain_mux this] show ?thesis by (auto simp: sample_routes)
qed

lemma changes_trace_to_password_witness:
  "\<exists>ar guard. gives_password plain_matching ar guard (si_account sample_site)"
proof -
  let ?y1 = "post_to ''/admin'' guest sample_site" let ?y2 = "post_to ''/register'' boss ?y1"
  have "site_step plain_matching sample_gateway plain_text sample_site ?y1"
    by (rule site_step.request) (simp add: sample_post_fields sample_site_def)
  moreover have "site_step plain_matching sample_gateway plain_text ?y1 ?y2"
    by (rule site_step.request) (simp add: sample_post_fields sample_login)
  ultimately have "site_reach plain_matching sample_gateway plain_text sample_site ?y2" by (meson converse_rtranclp_into_rtranclp r_into_rtranclp)
  moreover have "no_admin sample_site" by (simp add: no_admin_def sample_site_def guest_def no_session_def)
  moreover have "accounts_of ?y2 \<noteq> accounts_of sample_site"
  proof -
    have "si_users ?y1 = sample_users" using sample_login(2) by (simp add: accounts_of_def sample_site_def)
    from sample_registration [OF this] sample_login(2) show ?thesis by (auto simp: accounts_of_def)
  qed
  ultimately show ?thesis using changes_trace_to_password by blast
qed


lemma every_request_accounted_witness:
  "\<exists>label \<in> set metric_labels. accounted label (ar_http (sample_post ''/admin'' guest)) sample_site
     (serve_site plain_matching sample_gateway plain_text (sample_post ''/admin'' guest) sample_site)"
  by (rule every_request_accounted [OF plain_mux]) (simp_all add: sample_routes write_settled_def, simp add: sample_post_def)

end
