(* ===== verification/Stream_Plain.thy ===== *)
theory Stream_Plain
  imports Chat_Streams
begin

section \<open>A streamed answer is the answer\<close>

text \<open>
  The gateway translates an Ollama answer in two ways: whole, by \<open>ollamaToOpenAI\<close>, and line by
  line, by \<open>formatStreamChunk\<close> under \<open>ollamaStream.Recv\<close>. Here they are compared: what an SDK
  accumulates from the chunks of a stream against the translation of the one reply Ollama would
  have sent, which has the lines' texts and calls put together.
\<close>

subsection \<open>What a client accumulates, and the reply in one piece\<close>

definition accumulate :: "chat_completion_chunk list \<Rightarrow> message \<times> string option \<times> usage option" where
  "accumulate cs =
     (let deltas = map (\<lambda>c. cc_delta (choice_of c)) cs in
      (\<lparr>msg_role = concat (map d_role deltas), msg_content = concat (map d_content deltas),
        msg_tool_calls = concat (map (\<lambda>d. map st_call (d_tool_calls d)) deltas)\<rparr>,
       last (None # map (\<lambda>c. cc_finish (choice_of c)) cs), last (None # map ck_usage cs)))"

definition line_message :: "obj \<Rightarrow> obj" where
  "line_message x = as_obj (idx x ''message'')"

definition line_text :: "obj \<Rightarrow> string" where
  "line_text x = as_str (idx (line_message x) ''content'')"

definition line_calls :: "obj \<Rightarrow> json list" where
  "line_calls x = as_arr (idx (line_message x) ''tool_calls'')"

definition whole_reply :: "obj list \<Rightarrow> obj \<Rightarrow> obj" where
  "whole_reply xs z =
     [(''model'', idx z ''model''),
      (''message'', JObj [(''role'', JStr ''assistant''), (''content'', JStr (concat (map line_text (xs @ [z])))),
                          (''tool_calls'', JArr (concat (map line_calls (xs @ [z]))))]),
      (''done_reason'', idx z ''done_reason''), (''prompt_eval_count'', idx z ''prompt_eval_count''),
      (''eval_count'', idx z ''eval_count'')]"

subsection \<open>One line\<close>

lemma openai_calls_append:
  "openai_calls marshal rnd k (xs @ ys) =
     (let (a, k1) = openai_calls marshal rnd k xs; (b, k2) = openai_calls marshal rnd k1 ys in (a @ b, k2))"
  by (induction xs arbitrary: k) (simp_all add: Let_def case_prod_beta)

lemma renumber_calls: "map st_call (renumber n ts) = map st_call ts"
  by (rule nth_equalityI) (simp_all add: renumber_def case_prod_beta nth_enumerate_eq)

lemma length_number_calls: "length (number_calls i calls) = length calls"
  by (simp add: number_calls_def)

lemma ollama_chunk_line:
  assumes "ollama_chunk marshal rnd now line s = (c, s1)"
  shows "d_content (cc_delta (choice_of c)) =
      (if os_first s \<or> \<not> as_bool (idx line ''done'') then line_text line else [])"
    and "map st_call (d_tool_calls (cc_delta (choice_of c))) = fst (openai_calls marshal rnd (os_rnd s) (line_calls line))"
    and "os_rnd s1 = snd (openai_calls marshal rnd (os_rnd s) (line_calls line))"
    and "os_tool_calls s1 = os_tool_calls s + int (length (line_calls line))"
    and "ck_usage c = (if as_bool (idx line ''done'') then Some (ollama_usage line) else None)"
    and "os_scanner s1 = os_scanner s"
  using assms
  by (auto simp: ollama_chunk_def format_stream_chunk_def choice_of_def openai_tool_calls_def line_text_def line_calls_def
      line_message_def renumber_calls number_calls_calls length_number_calls openai_calls_length Let_def case_prod_beta)

lemma scan_next:
  assumes "List.map_filter f (sc_lines sc) = x # xs" and "list_all (\<lambda>l. length l < max_stream_line) (sc_lines sc)"
  obtains sc' where "scan_until f sc = (Some x, sc')" "List.map_filter f (sc_lines sc') = xs"
    "list_all (\<lambda>l. length l < max_stream_line) (sc_lines sc')" "sc_err sc' = sc_err sc"
proof -
  have "\<exists>ls'. scan_lines f ls e = (Some x, \<lparr>sc_lines = ls', sc_err = e\<rparr>) \<and> List.map_filter f ls' = xs \<and>
      list_all (\<lambda>l. length l < max_stream_line) ls'"
    if "List.map_filter f ls = x # xs" "list_all (\<lambda>l. length l < max_stream_line) ls" for ls e
    using that
    by (induction ls) (auto simp: List.map_filter_simps not_le split: option.splits)
  from this [OF assms, of "sc_err sc"] show thesis using that by (auto simp: scan_until_def)
qed

subsection \<open>The whole stream\<close>

text \<open>The chunks of the lines \<open>xs\<close> and of the final line \<open>z\<close>, from any state of the stream.\<close>

lemma pull_lines:
  assumes "List.map_filter (ollama_line unm) (sc_lines (os_scanner s)) = xs @ [z]"
    and "list_all (\<lambda>l. length l < max_stream_line) (sc_lines (os_scanner s))"
    and "list_all (\<lambda>x. \<not> as_bool (idx x ''done'')) xs" and "as_bool (idx z ''done'')" and "\<not> os_done s"
    and "length xs + 1 < length nows" and "line_text z = [] \<or> xs = [] \<and> os_first s"
  shows "\<exists>ps s'. pull (ollama_recv unm marshal Some rnd) nows s = (ps, Some Eof, s') \<and>
    concat (map (\<lambda>p. d_content (cc_delta (choice_of (fst p)))) ps) = concat (map line_text (xs @ [z])) \<and>
    concat (map (\<lambda>p. map st_call (d_tool_calls (cc_delta (choice_of (fst p))))) ps) =
      fst (openai_calls marshal rnd (os_rnd s) (concat (map line_calls (xs @ [z])))) \<and>
    concat (map (\<lambda>p. d_role (cc_delta (choice_of (fst p)))) ps) = (if os_first s then ''assistant'' else []) \<and>
    (\<exists>p. ps \<noteq> [] \<and> last ps = p \<and> ck_usage (fst p) = Some (ollama_usage z) \<and>
      cc_finish (choice_of (fst p)) =
        Some (if 0 < os_tool_calls s + int (length (concat (map line_calls (xs @ [z])))) then finish_tool_calls
              else ollama_finish_reason z))"
  using assms
proof (induction nows arbitrary: s xs)
  case (Cons now nows)
  define x where "x = hd (xs @ [z])"
  have lines: "List.map_filter (ollama_line unm) (sc_lines (os_scanner s)) = x # tl (xs @ [z])"
    using Cons.prems(1) by (cases xs) (simp_all add: x_def)
  obtain sc where sc: "scan_until (ollama_line unm) (os_scanner s) = (Some x, sc)"
      "List.map_filter (ollama_line unm) (sc_lines sc) = tl (xs @ [z])"
      "list_all (\<lambda>l. length l < max_stream_line) (sc_lines sc)"
    by (rule scan_next [OF lines Cons.prems(2)])
  obtain c s1 where c: "ollama_chunk marshal rnd now x (s\<lparr>os_scanner := sc\<rparr>) = (c, s1)" by fastforce
  note line = ollama_chunk_line [OF c]
  note shape = ollama_chunk_shape [OF c]
  define s2 where "s2 = s1\<lparr>os_first := False, os_done := as_bool (idx x ''done'')\<rparr>"
  have recv: "ollama_recv unm marshal Some rnd now s = (s2, Got c (chunk_meta_of c))"
    using Cons.prems(5) sc(1) c by (simp add: ollama_recv_def s2_def)
  show ?case
  proof (cases xs)
    case Nil
    then have x: "x = z" by (simp add: x_def)
    then have "os_done s2" using Cons.prems(4) by (simp add: s2_def)
    then have "pull (ollama_recv unm marshal Some rnd) nows s2 = ([], Some Eof, s2)"
      using Cons.prems(6) ollama_recv_done [of s2 unm marshal Some rnd nows] Nil by auto
    then have "pull (ollama_recv unm marshal Some rnd) (now # nows) s = ([(c, chunk_meta_of c)], Some Eof, s2)"
      using recv by simp
    then show ?thesis using Nil x line shape Cons.prems(4,7) by auto
  next
    case (Cons y ys)
    then have x: "x = y" and nd: "\<not> as_bool (idx x ''done'')" using Cons.prems(3) by (simp_all add: x_def)
    have quiet: "line_text z = []" using Cons.prems(7) Cons by simp
    have "os_scanner s2 = sc" "\<not> os_done s2" "os_first s2 = False"
      "os_tool_calls s2 = os_tool_calls s + int (length (line_calls x))"
      "os_rnd s2 = snd (openai_calls marshal rnd (os_rnd s) (line_calls x))"
      using line nd by (simp_all add: s2_def)
    note s2 = this
    obtain ps s' where IH: "pull (ollama_recv unm marshal Some rnd) nows s2 = (ps, Some Eof, s')"
      "concat (map (\<lambda>p. d_content (cc_delta (choice_of (fst p)))) ps) = concat (map line_text (ys @ [z]))"
      "concat (map (\<lambda>p. map st_call (d_tool_calls (cc_delta (choice_of (fst p))))) ps) =
        fst (openai_calls marshal rnd (os_rnd s2) (concat (map line_calls (ys @ [z]))))"
      "concat (map (\<lambda>p. d_role (cc_delta (choice_of (fst p)))) ps) = []"
      "ps \<noteq> []" "ck_usage (fst (last ps)) = Some (ollama_usage z)"
      "cc_finish (choice_of (fst (last ps))) =
        Some (if 0 < os_tool_calls s2 + int (length (concat (map line_calls (ys @ [z])))) then finish_tool_calls
              else ollama_finish_reason z)"
      using Cons.IH [of s2 ys] Cons.prems Cons sc(2,3) s2 quiet by auto
    have "pull (ollama_recv unm marshal Some rnd) (now # nows) s = ((c, chunk_meta_of c) # ps, Some Eof, s')"
      using recv IH(1) by simp
    then show ?thesis
      using IH s2 line shape(7) nd Cons x
      by (auto simp: openai_calls_append Let_def case_prod_beta)
  qed
qed simp

text \<open>The translation of the whole reply, and the stream from its start.\<close>

lemma whole_reply_translated:
  defines "calls \<equiv> \<lambda>xs z. concat (map line_calls (xs @ [z]))"
  shows "cpl_choices (fst (ollama_to_openai marshal rnd now k (whole_reply xs z))) =
      [\<lparr>ch_index = 0,
        ch_message = \<lparr>msg_role = ''assistant'', msg_content = concat (map line_text (xs @ [z])),
                      msg_tool_calls = fst (openai_calls marshal rnd k (calls xs z))\<rparr>,
        ch_finish = Some (if calls xs z \<noteq> [] then finish_tool_calls else ollama_finish_reason z)\<rparr>]"
    and "cpl_usage (fst (ollama_to_openai marshal rnd now k (whole_reply xs z))) = ollama_usage z"
proof -
  let ?r = "whole_reply xs z"
  have message: "as_obj (idx ?r ''message'') = [(''role'', JStr ''assistant''),
      (''content'', JStr (concat (map line_text (xs @ [z])))), (''tool_calls'', JArr (calls xs z))]"
    by (simp add: whole_reply_def calls_def)
  have same: "fst (openai_calls marshal rnd k cs) = [] \<longleftrightarrow> cs = []" for cs
    using openai_calls_length [of marshal rnd k cs] by (metis length_0_conv)
  have "ollama_usage ?r = ollama_usage z" "ollama_finish_reason ?r = ollama_finish_reason z"
    by (simp_all add: ollama_usage_def ollama_finish_reason_def whole_reply_def)
  then show "cpl_choices (fst (ollama_to_openai marshal rnd now k ?r)) =
      [\<lparr>ch_index = 0,
        ch_message = \<lparr>msg_role = ''assistant'', msg_content = concat (map line_text (xs @ [z])),
                      msg_tool_calls = fst (openai_calls marshal rnd k (calls xs z))\<rparr>,
        ch_finish = Some (if calls xs z \<noteq> [] then finish_tool_calls else ollama_finish_reason z)\<rparr>]"
    and "cpl_usage (fst (ollama_to_openai marshal rnd now k ?r)) = ollama_usage z"
    using message by (simp_all add: ollama_to_openai_def openai_tool_calls_def same Let_def case_prod_beta)
qed

lemma stream_of_lines:
  assumes "List.map_filter (ollama_line unm) ls = xs @ [z]" and "list_all (\<lambda>l. length l < max_stream_line) ls"
    and "list_all (\<lambda>x. \<not> as_bool (idx x ''done'')) xs" and "as_bool (idx z ''done'')"
    and "line_text z = [] \<or> xs = []" and "length xs + 1 < length nows"
  defines "calls \<equiv> concat (map line_calls (xs @ [z]))"
  obtains ps s' where
    "pull (ollama_recv unm marshal Some rnd) nows (new_ollama_stream rnd k ls e) = (ps, Some Eof, s')" "ps \<noteq> []"
    "concat (map (\<lambda>p. d_content (cc_delta (choice_of (fst p)))) ps) = concat (map line_text (xs @ [z]))"
    "concat (map (\<lambda>p. map st_call (d_tool_calls (cc_delta (choice_of (fst p))))) ps) =
      fst (openai_calls marshal rnd (Suc k) calls)"
    "concat (map (\<lambda>p. d_role (cc_delta (choice_of (fst p)))) ps) = ''assistant''"
    "ck_usage (fst (last ps)) = Some (ollama_usage z)"
    "cc_finish (choice_of (fst (last ps))) = Some (if calls \<noteq> [] then finish_tool_calls else ollama_finish_reason z)"
proof -
  define s where "s = new_ollama_stream rnd k ls e"
  have s: "sc_lines (os_scanner s) = ls" "\<not> os_done s" "os_first s" "os_tool_calls s = 0" "os_rnd s = Suc k"
    by (simp_all add: s_def new_ollama_stream_def new_completion_id_def)
  have some: "0 < os_tool_calls s + int (length calls) \<longleftrightarrow> calls \<noteq> []" using s(4) by simp
  show thesis
    using that pull_lines [of unm s xs z nows marshal rnd, folded calls_def, unfolded some] assms(1-6) s
    unfolding s_def [symmetric] by auto
qed

text \<open>
  C31. Of a stream whose last line is the only one marked done, and whose done line adds no text to
  the lines before it (its text is not relayed), a client accumulates exactly the message, the
  finish reason and the usage that the plain translation gives for the reply in one piece, down
  to the ids drawn for tool calls that came without one.
\<close>

theorem streamed_is_plain:
  assumes "List.map_filter (ollama_line unm) ls = xs @ [z]" and "list_all (\<lambda>l. length l < max_stream_line) ls"
    and "list_all (\<lambda>x. \<not> as_bool (idx x ''done'')) xs" and "as_bool (idx z ''done'')"
    and "line_text z = [] \<or> xs = []" and "length xs + 1 < length nows"
  shows "\<exists>ps s'. pull (ollama_recv unm marshal Some rnd) nows (new_ollama_stream rnd k ls e) = (ps, Some Eof, s') \<and>
    (let c = fst (ollama_to_openai marshal rnd now (Suc k) (whole_reply xs z)); ch = hd (cpl_choices c)
     in accumulate (map fst ps) = (ch_message ch, ch_finish ch, Some (cpl_usage c)))"
proof -
  obtain ps s' where p: "pull (ollama_recv unm marshal Some rnd) nows (new_ollama_stream rnd k ls e) = (ps, Some Eof, s')"
    "ps \<noteq> []" "concat (map (\<lambda>p. d_content (cc_delta (choice_of (fst p)))) ps) = concat (map line_text (xs @ [z]))"
    "concat (map (\<lambda>p. map st_call (d_tool_calls (cc_delta (choice_of (fst p))))) ps) =
      fst (openai_calls marshal rnd (Suc k) (concat (map line_calls (xs @ [z]))))"
    "concat (map (\<lambda>p. d_role (cc_delta (choice_of (fst p)))) ps) = ''assistant''"
    "ck_usage (fst (last ps)) = Some (ollama_usage z)"
    "cc_finish (choice_of (fst (last ps))) =
      Some (if concat (map line_calls (xs @ [z])) \<noteq> [] then finish_tool_calls else ollama_finish_reason z)"
    using stream_of_lines [OF assms] .
  then have "accumulate (map fst ps) =
      (\<lparr>msg_role = ''assistant'', msg_content = concat (map line_text (xs @ [z])),
        msg_tool_calls = fst (openai_calls marshal rnd (Suc k) (concat (map line_calls (xs @ [z]))))\<rparr>,
       Some (if concat (map line_calls (xs @ [z])) \<noteq> [] then finish_tool_calls else ollama_finish_reason z),
       Some (ollama_usage z))"
    by (simp add: accumulate_def Let_def comp_def last_map del: concat_append map_append concat_eq_Nil_conv)
  with p(1) show ?thesis by (simp add: whole_reply_translated Let_def)
qed

text \<open>Two lines, the second done.\<close>

definition sample_lines :: "string \<Rightarrow> obj option" where
  "sample_lines l =
     (if l = ''a'' then Some [(''message'', JObj [(''content'', JStr ''Hi'')])]
      else if l = ''b'' then Some [(''done'', JBool True), (''eval_count'', JNum 2 0)] else None)"

lemma streamed_is_plain_witness:
  "\<exists>ps s'. pull (ollama_recv sample_lines (\<lambda>_. None) Some (\<lambda>_. ''r'')) [1, 2, 3]
       (new_ollama_stream (\<lambda>_. ''r'') 0 [''a'', ''b''] None) = (ps, Some Eof, s') \<and>
     msg_content (fst (accumulate (map fst ps))) = ''Hi''"
proof -
  let ?x = "[(''message'', JObj [(''content'', JStr ''Hi'')])]"
  let ?z = "[(''done'', JBool True), (''eval_count'', JNum 2 0)]"
  have "List.map_filter (ollama_line sample_lines) [''a'', ''b''] = [?x] @ [?z]" by code_simp
  moreover have "list_all (\<lambda>l. length l < max_stream_line) [''a'', ''b'']" by (simp add: max_stream_line_def)
  moreover have "list_all (\<lambda>x. \<not> as_bool (idx x ''done'')) [?x]" "as_bool (idx ?z ''done'')" "line_text ?z = []"
    by (simp_all add: line_text_def line_message_def)
  ultimately obtain ps s' where "pull (ollama_recv sample_lines (\<lambda>_. None) Some (\<lambda>_. ''r'')) [1, 2, 3]
       (new_ollama_stream (\<lambda>_. ''r'') 0 [''a'', ''b''] None) = (ps, Some Eof, s')"
     "accumulate (map fst ps) =
        (let c = fst (ollama_to_openai (\<lambda>_. None) (\<lambda>_. ''r'') 0 (Suc 0) (whole_reply [?x] ?z)); ch = hd (cpl_choices c)
         in (ch_message ch, ch_finish ch, Some (cpl_usage c)))"
    using streamed_is_plain [of sample_lines "[''a'', ''b'']" "[?x]" ?z "[1, 2, 3]" "\<lambda>_. None" "\<lambda>_. ''r''" 0 None 0]
    by (auto simp: Let_def)
  then show ?thesis
    by (auto simp: ollama_to_openai_def openai_tool_calls_def whole_reply_def line_text_def line_message_def Let_def case_prod_beta)
qed

end
