(* ===== verification/Anthropic_Plain.thy ===== *)
theory Anthropic_Plain
  imports Stream_Plain Anthropic_Stream
begin

section \<open>A streamed Anthropic answer is the answer\<close>

text \<open>
  An Anthropic client of an Ollama engine gets its answer in one of two ways: as the message
  \<open>openAIToAnthropic\<close> makes of the whole reply, or as the events \<open>anthropicStream\<close> makes of the
  chunks \<open>ollamaStream\<close> makes of the lines. Four translations are involved; here both ways are
  shown to give the client the same content blocks, stop reason and usage.
\<close>

subsection \<open>Chunks as the translator decodes them\<close>

text \<open>What \<open>json.Unmarshal\<close> into \<open>streamChunk\<close> reads of a chunk \<open>json.Marshal\<close> has written.\<close>

definition tool_view :: "stream_tool_call \<Rightarrow> sc_tool_call" where
  "tool_view t =
     \<lparr>sct_index = st_index t, sct_id = tc_id (st_call t), sct_name = fc_name (tc_function (st_call t)),
      sct_args = fc_arguments (tc_function (st_call t))\<rparr>"

definition choice_view :: "chunk_choice \<Rightarrow> sc_choice" where
  "choice_view ch =
     \<lparr>scc_content = d_content (cc_delta ch), scc_tools = map tool_view (d_tool_calls (cc_delta ch)), scc_finish = cc_finish ch\<rparr>"

definition chunk_view :: "chat_completion_chunk \<Rightarrow> stream_chunk" where
  "chunk_view c = \<lparr>sk_choices = map choice_view (ck_choices c), sk_usage = ck_usage c\<rparr>"

text \<open>The block of a message that the client has assembled when a block of the stream is closed.\<close>

fun block_read :: "(string \<Rightarrow> bool) \<Rightarrow> read_block \<Rightarrow> content_block" where
  "block_read valid (RText t) = text_block t"
| "block_read valid (RTool i n a) =
     \<lparr>cb_type = ''tool_use'', cb_text = None, cb_id = i, cb_name = n, cb_input = Some (tool_input valid a)\<rparr>"

subsection \<open>The runs of texts followed by calls\<close>

lemma runs_texts:
  "ts \<noteq> [] \<Longrightarrow> (\<And>q qs. qs0 = q # qs \<Longrightarrow> \<not> same_run (PText []) q) \<Longrightarrow>
   runs (map PText ts @ qs0) = (PText (hd ts), concat ts) # runs qs0"
proof (cases ts)
  case (Cons t us)
  assume sep: "\<And>q qs. qs0 = q # qs \<Longrightarrow> \<not> same_run (PText []) q"
  have other: "\<not> same_run (PText t) q" if "qs0 = q # qs" for q qs using sep [OF that] by (cases q) simp_all
  have all: "\<And>q. q \<in> set (map PText us) \<Longrightarrow> same_run (PText t) q" by auto
  have "takeWhile (same_run (PText t)) qs0 = []" "dropWhile (same_run (PText t)) qs0 = qs0"
    using other by (cases qs0; simp)+
  then have "takeWhile (same_run (PText t)) (map PText us @ qs0) = map PText us"
    "dropWhile (same_run (PText t)) (map PText us @ qs0) = qs0"
    using all takeWhile_append2 [of "map PText us" "same_run (PText t)" qs0]
      dropWhile_append2 [of "map PText us" "same_run (PText t)" qs0] by simp_all
  with Cons show ?thesis by (simp add: comp_def)
qed simp

lemma runs_calls:
  "distinct (map sct_index tcs) \<Longrightarrow> runs (map PTool tcs) = map (\<lambda>tc. (PTool tc, sct_args tc)) tcs"
proof (induction tcs)
  case (Cons tc tcs)
  then show ?case by (cases tcs) auto
qed simp

lemma pieces_ordered:
  "sorted_wrt (\<lambda>a b. snd a = [] \<or> fst b = []) l \<Longrightarrow>
   concat (map (\<lambda>(t, tcs). (if t = [] then [] else [PText t]) @ map PTool tcs) l) =
     map PText (filter (\<lambda>t. t \<noteq> []) (map fst l)) @ map PTool (concat (map snd l))"
proof (induction l)
  case (Cons a l)
  obtain t tcs where a: "a = (t, tcs)" by (cases a)
  show ?case
  proof (cases "tcs = []")
    case False
    then have "filter (\<lambda>t. t \<noteq> []) (map fst l) = []" using Cons.prems a by (auto simp: filter_empty_conv)
    with Cons a show ?thesis by simp
  qed (use Cons a in simp)
qed simp

lemma concat_filter_nonempty: "concat (filter (\<lambda>t. t \<noteq> []) ts) = concat ts"
  by (induction ts) simp_all

text \<open>The only blocks a reader can have of such pieces.\<close>

lemma tool_blocks_read:
  "list_all2 block_of_run blocks (map (\<lambda>tc. (PTool tc, sct_args tc)) tcs) \<Longrightarrow> (\<And>tc. tc \<in> set tcs \<Longrightarrow> sct_id tc \<noteq> []) \<Longrightarrow>
   blocks = map (\<lambda>tc. RTool (sct_id tc) (sct_name tc) (sct_args tc)) tcs"
proof (induction tcs arbitrary: blocks)
  case (Cons tc tcs)
  from Cons.prems(1) obtain b bs where b: "blocks = b # bs" "block_of_run b (PTool tc, sct_args tc)"
    "list_all2 block_of_run bs (map (\<lambda>tc. (PTool tc, sct_args tc)) tcs)" by (auto simp: list_all2_Cons2)
  have "b = RTool (sct_id tc) (sct_name tc) (sct_args tc)" using b(2) Cons.prems(2) by (cases b) auto
  with b Cons.IH [OF b(3)] Cons.prems(2) show ?case by simp
qed simp

lemma blocks_of_pieces:
  assumes "list_all2 block_of_run blocks (runs (map PText ts @ map PTool tcs))"
    and "\<And>t. t \<in> set ts \<Longrightarrow> t \<noteq> []" and "distinct (map sct_index tcs)" and "\<And>tc. tc \<in> set tcs \<Longrightarrow> sct_id tc \<noteq> []"
  shows "blocks = (if concat ts = [] then [] else [RText (concat ts)]) @
    map (\<lambda>tc. RTool (sct_id tc) (sct_name tc) (sct_args tc)) tcs"
proof (cases "ts = []")
  case True
  with assms(1) runs_calls [OF assms(3)] tool_blocks_read [OF _ assms(4)] show ?thesis by simp
next
  case False
  have "runs (map PText ts @ map PTool tcs) = (PText (hd ts), concat ts) # map (\<lambda>tc. (PTool tc, sct_args tc)) tcs"
    using runs_texts [OF False, of "map PTool tcs"] runs_calls [OF assms(3)] by (cases tcs) auto
  with assms(1) obtain b bs where b: "blocks = b # bs" "block_of_run b (PText (hd ts), concat ts)"
    "list_all2 block_of_run bs (map (\<lambda>tc. (PTool tc, sct_args tc)) tcs)" by (auto simp: list_all2_Cons2)
  have "b = RText (concat ts)" using b(2) by (cases b) simp_all
  moreover have "concat ts \<noteq> []" using False assms(2) by (cases ts) auto
  ultimately show ?thesis using b(1) tool_blocks_read [OF b(3) assms(4)] by simp
qed

lemma tool_blocks_ids:
  "(\<And>tc. tc \<in> set tcs \<Longrightarrow> tc_id tc \<noteq> []) \<Longrightarrow>
   fst (tool_blocks valid rnd k tcs) =
     map (\<lambda>tc. block_read valid (RTool (tc_id tc) (fc_name (tc_function tc)) (fc_arguments (tc_function tc)))) tcs"
  by (induction tcs arbitrary: k) (simp_all add: Let_def case_prod_beta)

subsection \<open>Chunks line by line\<close>

definition shows_line :: "chat_completion_chunk \<Rightarrow> obj \<Rightarrow> bool" where
  "shows_line c x \<longleftrightarrow> d_content (cc_delta (choice_of c)) = line_text x \<and>
     length (d_tool_calls (cc_delta (choice_of c))) = length (line_calls x)"

lemma pull_shows_lines:
  assumes "pull (ollama_recv unm marshal Some rnd) nows s = (ps, Some Eof, s')"
    and "List.map_filter (ollama_line unm) (sc_lines (os_scanner s)) = xs @ [z]"
    and "list_all (\<lambda>l. length l < max_stream_line) (sc_lines (os_scanner s))"
    and "list_all (\<lambda>x. \<not> as_bool (idx x ''done'')) xs" and "as_bool (idx z ''done'')" and "\<not> os_done s"
    and "line_text z = [] \<or> xs = [] \<and> os_first s"
  shows "list_all2 shows_line (map fst ps) (xs @ [z])"
  using assms
proof (induction nows arbitrary: s xs ps)
  case (Cons now nows)
  define x where "x = hd (xs @ [z])"
  have lines: "List.map_filter (ollama_line unm) (sc_lines (os_scanner s)) = x # tl (xs @ [z])"
    using Cons.prems(2) by (cases xs) (simp_all add: x_def)
  obtain sc where sc: "scan_until (ollama_line unm) (os_scanner s) = (Some x, sc)"
      "List.map_filter (ollama_line unm) (sc_lines sc) = tl (xs @ [z])"
      "list_all (\<lambda>l. length l < max_stream_line) (sc_lines sc)"
    by (rule scan_next [OF lines Cons.prems(3)])
  obtain c s1 where c: "ollama_chunk marshal rnd now x (s\<lparr>os_scanner := sc\<rparr>) = (c, s1)" by fastforce
  note line = ollama_chunk_line [OF c]
  define s2 where "s2 = s1\<lparr>os_first := False, os_done := as_bool (idx x ''done'')\<rparr>"
  have recv: "ollama_recv unm marshal Some rnd now s = (s2, Got c (chunk_meta_of c))"
    using Cons.prems(6) sc(1) c by (simp add: ollama_recv_def s2_def)
  then obtain qs where qs: "ps = (c, chunk_meta_of c) # qs" "pull (ollama_recv unm marshal Some rnd) nows s2 = (qs, Some Eof, s')"
    using Cons.prems(1) by (auto split: prod.splits)
  have calls: "length (d_tool_calls (cc_delta (choice_of c))) = length (line_calls x)"
    using arg_cong [OF line(2), of length] by (simp add: openai_calls_length)
  show ?case
  proof (cases xs)
    case Nil
    then have x: "x = z" by (simp add: x_def)
    then have "os_done s2" using Cons.prems(5) by (simp add: s2_def)
    then have "qs = []" using qs(2) ollama_recv_done [of s2 unm marshal Some rnd nows] by simp
    moreover have "d_content (cc_delta (choice_of c)) = line_text z"
      using line(1) x Nil Cons.prems(7) by auto
    ultimately show ?thesis using qs(1) calls x Nil by (simp add: shows_line_def)
  next
    case (Cons y ys)
    then have x: "x = y" and nd: "\<not> as_bool (idx x ''done'')" using Cons.prems(4) by (simp_all add: x_def)
    have "os_scanner s2 = sc" "\<not> os_done s2" using line(6) nd by (simp_all add: s2_def)
    then have "list_all2 shows_line (map fst qs) (ys @ [z])"
      using Cons.IH [OF qs(2), of ys] Cons.prems Cons sc(2,3) by simp
    moreover have "shows_line c x" using calls line(1) nd by (simp add: shows_line_def)
    ultimately show ?thesis using qs(1) x Cons by simp
  qed
qed simp

text \<open>The payload's encoding changes nothing else.\<close>

lemma pull_encoded:
  "pull (ollama_recv unm marshal Some rnd) nows s = (ps, Some Eof, s') \<Longrightarrow>
   pull (ollama_recv unm marshal (\<lambda>c. Some (enc c)) rnd) nows s = (map (\<lambda>(c, m). (enc c, m)) ps, Some Eof, s')"
proof (induction nows arbitrary: s ps)
  case (Cons now nows)
  obtain s1 r where r: "ollama_recv unm marshal Some rnd now s = (s1, r)" by fastforce
  have step: "ollama_recv unm marshal (\<lambda>c. Some (enc c)) rnd now s =
      (s1, case r of Got c m \<Rightarrow> Got (enc c) m | Eof \<Rightarrow> Eof | Failed e \<Rightarrow> Failed e)"
    using r by (auto simp: ollama_recv_def end_of_scan_def case_prod_beta split: option.splits prod.splits if_splits)
  show ?case
  proof (cases r)
    case (Got c m)
    with Cons.prems r obtain qs where "ps = (c, m) # qs" "pull (ollama_recv unm marshal Some rnd) nows s1 = (qs, Some Eof, s')"
      by (auto split: prod.splits)
    with Cons.IH [of s1 qs] step Got show ?thesis by simp
  qed (use Cons.prems r step in auto)
qed simp

subsection \<open>Both ways give the same message\<close>

lemma sorted_views:
  assumes "list_all2 shows_line cs ls" and "sorted_wrt (\<lambda>x y. line_calls x = [] \<or> line_text y = []) ls"
  shows "sorted_wrt (\<lambda>a b. snd a = [] \<or> fst b = [])
    (map (\<lambda>c. (d_content (cc_delta (choice_of c)), map tool_view (d_tool_calls (cc_delta (choice_of c))))) cs)"
  using assms
proof (induction cs arbitrary: ls)
  case (Cons c cs)
  then obtain x ys where x: "ls = x # ys" "shows_line c x" "list_all2 shows_line cs ys" by (auto simp: list_all2_Cons1)
  have "line_calls x = [] \<or> d_content (cc_delta (choice_of d)) = []" if d: "d \<in> set cs" for d
  proof -
    obtain y where "y \<in> set ys" "shows_line d y" using x(3) d by (metis in_set_conv_nth list_all2_conv_all_nth)
    with Cons.prems(2) x(1) show ?thesis by (auto simp: shows_line_def)
  qed
  with Cons.IH [OF x(3)] Cons.prems(2) x show ?case by (fastforce simp: shows_line_def)
qed simp

lemma pieces_of_chunks:
  assumes "list_all (\<lambda>c. decode (enc c) = Some (chunk_view c) \<and> length (ck_choices c) = 1) cs"
  shows "stream_pieces decode (map enc cs) =
    concat (map (\<lambda>(t, tcs). (if t = [] then [] else [PText t]) @ map PTool tcs)
      (map (\<lambda>c. (d_content (cc_delta (choice_of c)), map tool_view (d_tool_calls (cc_delta (choice_of c))))) cs))"
    and "List.map_filter decode (map enc cs) = map chunk_view cs"
proof -
  have "concat (map (choice_pieces \<circ> choice_view) (ck_choices c)) =
      (if d_content (cc_delta (choice_of c)) = [] then [] else [PText (d_content (cc_delta (choice_of c)))]) @
      map PTool (map tool_view (d_tool_calls (cc_delta (choice_of c))))" if "length (ck_choices c) = 1" for c
    using that by (cases "ck_choices c") (simp_all add: choice_of_def choice_pieces_def choice_view_def)
  note one = this
  show "stream_pieces decode (map enc cs) =
    concat (map (\<lambda>(t, tcs). (if t = [] then [] else [PText t]) @ map PTool tcs)
      (map (\<lambda>c. (d_content (cc_delta (choice_of c)), map tool_view (d_tool_calls (cc_delta (choice_of c))))) cs))"
    using assms
    by (induction cs) (simp_all add: stream_pieces_def chunk_view_def one del: One_nat_def)
  show "List.map_filter decode (map enc cs) = map chunk_view cs"
    using assms by (induction cs) (simp_all add: List.map_filter_simps)
qed

lemma last_reported:
  assumes "cs \<noteq> []" and "ck_choices (last cs) = [ch]" and "cc_finish ch = Some f" and "ck_usage (last cs) = Some u"
  shows "last_or d (finishes (map chunk_view cs)) = f"
    and "last_or e (usages (map chunk_view cs)) = \<lparr>au_input = u_prompt u, au_output = u_completion u\<rparr>"
proof -
  obtain bs c where "cs = bs @ [c]" using assms(1) by (cases cs rule: rev_cases) simp_all
  with assms show "last_or d (finishes (map chunk_view cs)) = f"
    "last_or e (usages (map chunk_view cs)) = \<lparr>au_input = u_prompt u, au_output = u_completion u\<rparr>"
    by (simp_all add: finishes_def usages_def last_or_def chunk_view_def choice_view_def List.map_filter_def)
qed

text \<open>What a client has of a text and the calls that follow it.\<close>

definition blocks_of :: "string \<Rightarrow> tool_call list \<Rightarrow> read_block list" where
  "blocks_of text calls = (if text = [] then [] else [RText text]) @
     map (\<lambda>tc. RTool (tc_id tc) (fc_name (tc_function tc)) (fc_arguments (tc_function tc))) calls"

lemma chunks_read:
  assumes law: "list_all (\<lambda>c. decode (enc c) = Some (chunk_view c) \<and> length (ck_choices c) = 1) cs"
    and numbered: "well_numbered 0 cs"
    and shown: "list_all2 shows_line cs ls" "sorted_wrt (\<lambda>x y. line_calls x = [] \<or> line_text y = []) ls"
    and texts: "concat (map (\<lambda>c. d_content (cc_delta (choice_of c))) cs) = text"
    and calls: "concat (map (\<lambda>c. map st_call (d_tool_calls (cc_delta (choice_of c)))) cs) = calls"
    and ids: "\<And>tc. tc \<in> set calls \<Longrightarrow> tc_id tc \<noteq> []"
  shows "read_events Waiting (stream_events decode rnd k model (map enc cs)) =
    Some (Finished (blocks_of text calls)
      (if calls \<noteq> [] then stop_tool_use else stop_reason_from_finish (last_or [] (finishes (map chunk_view cs))))
      (last_or \<lparr>au_input = 0, au_output = 0\<rparr> (usages (map chunk_view cs))))"
proof -
  define ts where "ts = filter (\<lambda>t. t \<noteq> []) (map (\<lambda>c. d_content (cc_delta (choice_of c))) cs)"
  define tcs where "tcs = concat (map (\<lambda>c. map tool_view (d_tool_calls (cc_delta (choice_of c)))) cs)"
  have pieces: "stream_pieces decode (map enc cs) = map PText ts @ map PTool tcs"
    unfolding pieces_of_chunks(1) [OF law] pieces_ordered [OF sorted_views [OF shown]]
    by (simp add: ts_def tcs_def comp_def)
  have "map sct_index tcs = concat (map call_indices cs)"
    by (simp add: tcs_def call_indices_def [abs_def] tool_view_def map_concat comp_def)
  moreover have "distinct (map (\<lambda>j. (0::int) + int j) [0..<n])" for n by (simp add: distinct_map inj_on_def)
  ultimately have distinct: "distinct (map sct_index tcs)" using numbered by (metis well_numbered_def)
  have tools: "map (\<lambda>tc. RTool (sct_id tc) (sct_name tc) (sct_args tc)) tcs =
      map (\<lambda>tc. RTool (tc_id tc) (fc_name (tc_function tc)) (fc_arguments (tc_function tc))) calls"
    unfolding calls [symmetric] by (simp add: tcs_def map_concat comp_def tool_view_def)
  have sct_ids: "sct_id tc \<noteq> []" if "tc \<in> set tcs" for tc
  proof -
    have "RTool (sct_id tc) (sct_name tc) (sct_args tc) \<in>
        set (map (\<lambda>tc. RTool (tc_id tc) (fc_name (tc_function tc)) (fc_arguments (tc_function tc))) calls)"
      unfolding tools [symmetric] using that by simp
    then obtain d where "d \<in> set calls" "sct_id tc = tc_id d" by auto
    with ids show ?thesis by simp
  qed
  have "tcs = [] \<longleftrightarrow> calls = []" using arg_cong [OF tools, of length] by auto
  then have any: "(\<exists>tc. PTool tc \<in> set (map PText ts @ map PTool tcs)) \<longleftrightarrow> calls \<noteq> []" by (cases tcs) auto
  obtain blocks where read: "read_events Waiting (stream_events decode rnd k model (map enc cs)) =
      Some (Finished blocks
        (if calls \<noteq> [] then stop_tool_use else stop_reason_from_finish (last_or [] (finishes (map chunk_view cs))))
        (last_or \<lparr>au_input = 0, au_output = 0\<rparr> (usages (map chunk_view cs))))"
    "list_all2 block_of_run blocks (runs (map PText ts @ map PTool tcs))"
    using events_read [of decode rnd k model "map enc cs"]
    unfolding pieces any stream_state_reported pieces_of_chunks(2) [OF law] by blast
  have "blocks = blocks_of text calls"
    using blocks_of_pieces [OF read(2) _ distinct sct_ids] tools texts
    by (simp add: ts_def blocks_of_def concat_filter_nonempty)
  with read(1) show ?thesis by simp
qed

lemma whole_reply_message:
  fixes xs z marshal rnd k valid rnd' k' now model
  defines "calls \<equiv> fst (openai_calls marshal rnd k (concat (map line_calls (xs @ [z]))))"
  defines "m \<equiv> fst (completion_to_anthropic valid rnd' k' (fst (ollama_to_openai marshal rnd now k (whole_reply xs z))) model)"
  shows "am_content m = map (block_read valid) (blocks_of (concat (map line_text (xs @ [z]))) calls)"
    and "am_stop_reason m = Some (if calls \<noteq> [] then stop_tool_use else stop_reason_from_finish (ollama_finish_reason z))"
    and "am_usage m = \<lparr>au_input = u_prompt (ollama_usage z), au_output = u_completion (ollama_usage z)\<rparr>"
proof -
  have ids: "tc_id tc \<noteq> []" if "tc \<in> set calls" for tc using openai_calls_ids that by (auto simp: calls_def)
  have none: "concat (map line_calls (xs @ [z])) = [] \<longleftrightarrow> calls = []"
    using openai_calls_length [of marshal rnd k "concat (map line_calls (xs @ [z]))"]
    unfolding calls_def by (metis length_0_conv)
  note reply = whole_reply_translated [of marshal rnd now k xs z, unfolded none, folded calls_def]
  show "am_content m = map (block_read valid) (blocks_of (concat (map line_text (xs @ [z]))) calls)"
    and "am_stop_reason m = Some (if calls \<noteq> [] then stop_tool_use else stop_reason_from_finish (ollama_finish_reason z))"
    and "am_usage m = \<lparr>au_input = u_prompt (ollama_usage z), au_output = u_completion (ollama_usage z)\<rparr>"
    unfolding m_def completion_to_anthropic_def reply
    by (simp_all add: Let_def case_prod_beta blocks_of_def tool_blocks_ids [OF ids] comp_def)
qed

text \<open>
  C30. For a stream whose last line is the only one marked done, and in which no text follows a tool
  call: a reader of the Anthropic events made of its chunks finishes, and what it has read is
  exactly what \<open>openAIToAnthropic\<close> makes of the translated whole reply: the same blocks in the
  same order, with the ids, names and inputs of the tool calls, the same stop reason and the same
  usage. \<open>decode\<close> is only taken to read of the stream's own chunks what they were written with.
\<close>

theorem anthropic_stream_is_plain:
  assumes "List.map_filter (ollama_line unm) ls = xs @ [z]" and "list_all (\<lambda>l. length l < max_stream_line) ls"
    and "list_all (\<lambda>x. \<not> as_bool (idx x ''done'')) xs" and "as_bool (idx z ''done'')"
    and "line_text z = [] \<or> xs = []" and "length xs + 1 < length nows"
    and "sorted_wrt (\<lambda>x y. line_calls x = [] \<or> line_text y = []) (xs @ [z])"
    and "list_all (\<lambda>p. decode (enc (fst p)) = Some (chunk_view (fst p)))
      (fst (pull (ollama_recv unm marshal Some rnd) nows (new_ollama_stream rnd k ls e)))"
  shows "\<exists>ps s' blocks stop used.
    pull (ollama_recv unm marshal (\<lambda>c. Some (enc c)) rnd) nows (new_ollama_stream rnd k ls e) = (ps, Some Eof, s') \<and>
    read_events Waiting (stream_events decode rnd' k' model (map fst ps)) = Some (Finished blocks stop used) \<and>
    (let m = fst (completion_to_anthropic valid rnd'' k'' (fst (ollama_to_openai marshal rnd now (Suc k) (whole_reply xs z))) model)
     in am_content m = map (block_read valid) blocks \<and> am_stop_reason m = Some stop \<and> am_usage m = used)"
proof -
  let ?lines = "xs @ [z]"
  define calls where "calls = fst (openai_calls marshal rnd (Suc k) (concat (map line_calls ?lines)))"
  define s where "s = new_ollama_stream rnd k ls e"
  have init: "sc_lines (os_scanner s) = ls" "\<not> os_done s" "os_first s" "os_tool_calls s = 0"
    by (simp_all add: s_def new_ollama_stream_def new_completion_id_def)
  obtain ps s' where p: "pull (ollama_recv unm marshal Some rnd) nows s = (ps, Some Eof, s')" "ps \<noteq> []"
    "concat (map (\<lambda>p. d_content (cc_delta (choice_of (fst p)))) ps) = concat (map line_text ?lines)"
    "concat (map (\<lambda>p. map st_call (d_tool_calls (cc_delta (choice_of (fst p))))) ps) = calls"
    "ck_usage (fst (last ps)) = Some (ollama_usage z)"
    "cc_finish (choice_of (fst (last ps))) =
      Some (if concat (map line_calls ?lines) \<noteq> [] then finish_tool_calls else ollama_finish_reason z)"
    unfolding s_def calls_def using stream_of_lines [OF assms(1-6), of marshal rnd k e] by blast
  define cs where "cs = map fst ps"
  have law: "list_all (\<lambda>c. decode (enc c) = Some (chunk_view c) \<and> length (ck_choices c) = 1) cs"
    and numbered: "well_numbered 0 cs"
    using assms(8) p(1) ollama_pull_ok [OF p(1)] init(4)
    by (auto simp: cs_def s_def list_all_iff)
  have shown: "list_all2 shows_line cs ?lines"
    unfolding cs_def using pull_shows_lines [OF p(1), of xs z] assms init by auto
  have last: "cs \<noteq> []" "last cs = fst (last ps)" using p(2) by (simp_all add: cs_def last_map)
  have "length (ck_choices (last cs)) = 1"
    using bspec [OF law [unfolded list_all_iff] last_in_set [OF last(1)]] by (rule conjunct2)
  then have one: "ck_choices (last cs) = [choice_of (last cs)]"
    by (cases "ck_choices (last cs)") (simp_all add: choice_of_def)
  have ids: "tc_id tc \<noteq> []" if "tc \<in> set calls" for tc using openai_calls_ids that by (auto simp: calls_def)
  have none: "concat (map line_calls ?lines) = [] \<longleftrightarrow> calls = []"
    using openai_calls_length [of marshal rnd "Suc k" "concat (map line_calls ?lines)"]
    unfolding calls_def by (metis length_0_conv)
  note ends = last_reported [OF last(1) one p(6) [folded last(2), unfolded none] p(5) [folded last(2)]]
  have "read_events Waiting (stream_events decode rnd' k' model (map enc cs)) =
      Some (Finished (blocks_of (concat (map line_text ?lines)) calls)
        (if calls \<noteq> [] then stop_tool_use else stop_reason_from_finish (ollama_finish_reason z))
        \<lparr>au_input = u_prompt (ollama_usage z), au_output = u_completion (ollama_usage z)\<rparr>)"
    using chunks_read [OF law numbered shown assms(7) _ _ ids, of "concat (map line_text ?lines)" calls rnd' k' model] p(3,4)
    unfolding ends by (simp add: cs_def comp_def)
  moreover have "map fst (map (\<lambda>(c, m). (enc c, m)) ps) = map enc cs" by (simp add: cs_def case_prod_beta comp_def)
  ultimately show ?thesis
    using pull_encoded [OF p(1), of enc] whole_reply_message [of valid rnd'' k'' marshal rnd now "Suc k" xs z model]
    unfolding s_def calls_def Let_def by metis
qed

text \<open>The two lines of \<open>sample_lines\<close>, their chunks written as one letter each.\<close>

definition sample_enc :: "chat_completion_chunk \<Rightarrow> string" where
  "sample_enc c = (if ck_usage c = None then ''1'' else ''2'')"

definition sample_decode :: "string \<Rightarrow> stream_chunk option" where
  "sample_decode l =
     (if l = ''1'' then Some \<lparr>sk_choices = [\<lparr>scc_content = ''Hi'', scc_tools = [], scc_finish = None\<rparr>], sk_usage = None\<rparr>
      else if l = ''2'' then Some \<lparr>sk_choices = [\<lparr>scc_content = [], scc_tools = [], scc_finish = Some ''stop''\<rparr>],
                                 sk_usage = Some \<lparr>u_prompt = 0, u_completion = 2, u_total = 2\<rparr>\<rparr>
      else None)"

lemma sample_pull:
  "list_all (\<lambda>p. sample_decode (sample_enc (fst p)) = Some (chunk_view (fst p)))
     (fst (pull (ollama_recv sample_lines (\<lambda>_. None) Some (\<lambda>_. ''r'')) [1, 2, 3]
       (new_ollama_stream (\<lambda>_. ''r'') 0 [''a'', ''b''] None)))"
proof -
  have "ollama_line sample_lines ''a'' = Some [(''message'', JObj [(''content'', JStr ''Hi'')])]"
    "ollama_line sample_lines ''b'' = Some [(''done'', JBool True), (''eval_count'', JNum 2 0)]" by code_simp+
  then show ?thesis
    by (simp add: ollama_recv_def new_ollama_stream_def new_completion_id_def scan_until_def max_stream_line_def
        ollama_chunk_def format_stream_chunk_def openai_tool_calls_def ollama_usage_def ollama_finish_reason_def
        sample_enc_def sample_decode_def chunk_view_def choice_view_def number_calls_def renumber_def Let_def case_prod_beta
        wrap64_def end_of_scan_def float_to_int_def num_trunc_def in_int64_def finish_stop_def finish_length_def)
qed

lemma anthropic_stream_is_plain_witness:
  "\<exists>ps s' blocks stop used.
     pull (ollama_recv sample_lines (\<lambda>_. None) (\<lambda>c. Some (sample_enc c)) (\<lambda>_. ''r'')) [1, 2, 3]
       (new_ollama_stream (\<lambda>_. ''r'') 0 [''a'', ''b''] None) = (ps, Some Eof, s') \<and>
     read_events Waiting (stream_events sample_decode (\<lambda>_. ''q'') 0 ''m'' (map fst ps)) = Some (Finished blocks stop used) \<and>
     map (block_read (\<lambda>_. True)) blocks = [text_block ''Hi''] \<and> stop = stop_end_turn \<and> used = \<lparr>au_input = 0, au_output = 2\<rparr>"
proof -
  let ?x = "[(''message'', JObj [(''content'', JStr ''Hi'')])]"
  let ?z = "[(''done'', JBool True), (''eval_count'', JNum 2 0)]"
  have "List.map_filter (ollama_line sample_lines) [''a'', ''b''] = [?x] @ [?z]" by code_simp
  moreover have "list_all (\<lambda>l. length l < max_stream_line) [''a'', ''b'']" by (simp add: max_stream_line_def)
  moreover have "list_all (\<lambda>x. \<not> as_bool (idx x ''done'')) [?x]" "as_bool (idx ?z ''done'')" "line_text ?z = []"
    "sorted_wrt (\<lambda>x y. line_calls x = [] \<or> line_text y = []) ([?x] @ [?z])"
    by (simp_all add: line_text_def line_message_def)
  moreover have "length [?x] + 1 < length [1::int, 2, 3]" by simp
  ultimately obtain ps s' blocks stop used where
    "pull (ollama_recv sample_lines (\<lambda>_. None) (\<lambda>c. Some (sample_enc c)) (\<lambda>_. ''r'')) [1, 2, 3]
       (new_ollama_stream (\<lambda>_. ''r'') 0 [''a'', ''b''] None) = (ps, Some Eof, s')"
    "read_events Waiting (stream_events sample_decode (\<lambda>_. ''q'') 0 ''m'' (map fst ps)) = Some (Finished blocks stop used)"
    and m: "let m = fst (completion_to_anthropic (\<lambda>_. True) (\<lambda>_. ''q'') 0
        (fst (ollama_to_openai (\<lambda>_. None) (\<lambda>_. ''r'') 0 (Suc 0) (whole_reply [?x] ?z))) ''m'')
     in am_content m = map (block_read (\<lambda>_. True)) blocks \<and> am_stop_reason m = Some stop \<and> am_usage m = used"
    using anthropic_stream_is_plain [of sample_lines "[''a'', ''b'']" "[?x]" ?z "[1, 2, 3]" sample_decode sample_enc
        "\<lambda>_. None" "\<lambda>_. ''r''" 0 None "\<lambda>_. ''q''" 0 "''m''" "\<lambda>_. True" "\<lambda>_. ''q''" 0 0] sample_pull
    by blast
  moreover have "completion_to_anthropic (\<lambda>_. True) (\<lambda>_. ''q'') 0
        (fst (ollama_to_openai (\<lambda>_. None) (\<lambda>_. ''r'') 0 (Suc 0) (whole_reply [?x] ?z))) ''m'' =
      (\<lparr>am_id = ''msg_'' @ ''q'', am_type = ''message'', am_role = ''assistant'', am_model = ''m'',
        am_content = [text_block ''Hi''], am_stop_reason = Some stop_end_turn, am_stop_sequence = None,
        am_usage = \<lparr>au_input = 0, au_output = 2\<rparr>\<rparr>, Suc 0)"
    by code_simp
  ultimately show ?thesis unfolding m by (auto simp: Let_def)
qed

end
