(* ===== verification/Startup.thy ===== *)
theory Startup
  imports User_Store Auth
begin

section \<open>main.go and db.go: the configuration and what start-up does to the stored accounts\<close>

text \<open>
  The environment is a function that is empty where a variable is unset. Of \<open>createSchema\<close> the
  two steps that change rows are modelled: hashing the plaintext API keys of older builds, and
  seeding the administrator; the tables, columns and search indexes are SQL.
\<close>

subsection \<open>Configuration\<close>

record config =
  cf_db_path :: string
  cf_admin_password :: string
  cf_default_rl :: int
  cf_session_ttl :: int
  cf_max_msg_len :: int
  cf_log_level :: string
  cf_log_file :: string
  cf_port :: string
  cf_tls_cert :: string
  cf_tls_key :: string
  cf_concurrency :: int
  cf_retention_days :: int
  cf_metrics_token :: string
  cf_session_key :: string

definition get_env :: "(string \<Rightarrow> string) \<Rightarrow> string \<Rightarrow> string \<Rightarrow> string" where
  "get_env env key fallback = (if env key \<noteq> [] then env key else fallback)"

definition get_env_int :: "(string \<Rightarrow> string) \<Rightarrow> string \<Rightarrow> int \<Rightarrow> int" where
  "get_env_int env key fallback =
     (if env key \<noteq> [] then (case atoi (env key) of Some i \<Rightarrow> i | None \<Rightarrow> fallback) else fallback)"

definition load_config :: "(string \<Rightarrow> string) \<Rightarrow> config" where
  "load_config env =
     \<lparr>cf_db_path = get_env env ''GW42_DB_PATH'' ''./db/gateway.db'', cf_admin_password = get_env env ''ADMIN_PASSWORD'' [],
      cf_default_rl = get_env_int env ''DEFAULT_RATE_LIMIT'' 10, cf_session_ttl = get_env_int env ''SESSION_TIMEOUT'' 3600,
      cf_max_msg_len = get_env_int env ''MAX_MESSAGE_LENGTH'' 262144, cf_log_level = get_env env ''LOG_LEVEL'' ''INFO'',
      cf_log_file = get_env env ''LOG_FILE'' ''./logs/gateway.log'', cf_port = get_env env ''PORT'' ''7000'',
      cf_tls_cert = get_env env ''TLS_CERT'' [], cf_tls_key = get_env env ''TLS_KEY'' [],
      cf_concurrency = get_env_int env ''GW42_UPSTREAM_CONCURRENCY'' 8,
      cf_retention_days = get_env_int env ''GW42_LOG_RETENTION_DAYS'' 30,
      cf_metrics_token = get_env env ''GW42_METRICS_TOKEN'' [], cf_session_key = get_env env ''GW42_SESSION_KEY'' []\<rparr>"

subsection \<open>The key migration\<close>

definition looks_hashed :: "string \<Rightarrow> bool" where
  "looks_hashed s \<longleftrightarrow>
     length s = 64 \<and> list_all (\<lambda>c. 48 \<le> byte c \<and> byte c \<le> 57 \<or> 97 \<le> byte c \<and> byte c \<le> 102) s"

text \<open>
  The updates of one transaction; \<open>fault\<close> says whether the update of an id fails, and the unique
  index refuses a key another row has. \<open>None\<close>: the transaction is rolled back and start-up ends.
\<close>

fun rehash :: "(string \<Rightarrow> string) \<Rightarrow> (int \<Rightarrow> bool) \<Rightarrow> (int \<times> string) list \<Rightarrow> user_db \<Rightarrow> user_db option" where
  "rehash hash fault [] d = Some d"
| "rehash hash fault ((i, raw) # rest) d =
     (if fault i \<or> list_ex (\<lambda>u. us_id u \<noteq> i \<and> us_api_key u = hash raw) (ud_users d) then None
      else rehash hash fault rest (update_row i (\<lambda>u. u\<lparr>us_api_key := hash raw\<rparr>) d))"

definition plain_keys :: "user_db \<Rightarrow> (int \<times> string) list" where
  "plain_keys d = map (\<lambda>u. (us_id u, us_api_key u)) (filter (\<lambda>u. \<not> looks_hashed (us_api_key u)) (ud_users d))"

definition migrate_keys :: "(string \<Rightarrow> string) \<Rightarrow> (int \<Rightarrow> bool) \<Rightarrow> user_db \<Rightarrow> user_db option" where
  "migrate_keys hash fault d = rehash hash fault (plain_keys d) d"

text \<open>The hash stored for the administrator when the table has none.\<close>

definition seed_admin ::
  "(string \<Rightarrow> string \<Rightarrow> int \<Rightarrow> string) \<Rightarrow> string \<Rightarrow> string \<Rightarrow> string option \<Rightarrow> string option" where
  "seed_admin derive salt configured stored =
     (case stored of
        Some h \<Rightarrow> Some h
      | None \<Rightarrow> Some (hash_password derive salt (if configured = [] then ''admin123'' else configured)))"

subsection \<open>Clients keep their keys\<close>

definition hashed_row :: "(string \<Rightarrow> string) \<Rightarrow> (int \<times> string) list \<Rightarrow> user \<Rightarrow> user" where
  "hashed_row hash ks u = (case map_of ks (us_id u) of None \<Rightarrow> u | Some raw \<Rightarrow> u\<lparr>us_api_key := hash raw\<rparr>)"

lemma rehash_rows:
  assumes "rehash hash fault ks d = Some d'" and "distinct (map fst ks)"
  shows "ud_users d' = map (hashed_row hash ks) (ud_users d) \<and> ud_next d' = ud_next d"
  using assms
proof (induction ks arbitrary: d)
  case Nil
  then show ?case by (simp add: hashed_row_def)
next
  case (Cons k ks)
  obtain i raw where k: "k = (i, raw)" by fastforce
  let ?d = "update_row i (\<lambda>u. u\<lparr>us_api_key := hash raw\<rparr>) d"
  from Cons.prems k have "rehash hash fault ks ?d = Some d'" by (simp split: if_splits)
  with Cons.IH Cons.prems(2) have IH: "ud_users d' = map (hashed_row hash ks) (ud_users ?d)" "ud_next d' = ud_next d"
    by (auto simp: update_row_def)
  have "map_of ks i = None" using Cons.prems(2) k by (simp add: map_of_eq_None_iff)
  then have "hashed_row hash ks (if us_id u = i then u\<lparr>us_api_key := hash raw\<rparr> else u) = hashed_row hash (k # ks) u" for u
    by (simp add: hashed_row_def k)
  with IH show ?case by (simp add: update_row_def)
qed

lemma rehash_keeps_wf:
  "wf_users d \<Longrightarrow> rehash hash fault ks d = Some d' \<Longrightarrow> wf_users d'"
proof (induction ks arbitrary: d)
  case (Cons k ks)
  obtain i raw where k: "k = (i, raw)" by fastforce
  from Cons.prems(2) k have ok: "\<not> list_ex (\<lambda>u. us_id u \<noteq> i \<and> us_api_key u = hash raw) (ud_users d)"
    and rest: "rehash hash fault ks (update_row i (\<lambda>u. u\<lparr>us_api_key := hash raw\<rparr>) d) = Some d'"
    by (auto split: if_splits)
  have "wf_users (update_row i (\<lambda>u. u\<lparr>us_api_key := hash raw\<rparr>) d)"
    using Cons.prems(1) ok by (intro update_row_wf) (auto simp: list_ex_iff)
  from Cons.IH [OF this rest] show ?case .
qed simp

lemma plain_keys_ids: "wf_users d \<Longrightarrow> distinct (map fst (plain_keys d))"
  by (simp add: plain_keys_def wf_users_def o_def distinct_map_filter)

lemma plain_keys_of:
  assumes "wf_users d" and "u \<in> set (ud_users d)"
  shows "map_of (plain_keys d) (us_id u) = (if looks_hashed (us_api_key u) then None else Some (us_api_key u))"
proof -
  have inj: "inj_on us_id (set (ud_users d))" using assms(1) by (simp add: wf_users_def distinct_map)
  show ?thesis
  proof (cases "looks_hashed (us_api_key u)")
    case True
    have "us_id u \<notin> fst ` set (plain_keys d)"
      using True assms(2) inj by (auto simp: plain_keys_def dest: inj_onD)
    with True show ?thesis by (simp add: map_of_eq_None_iff)
  next
    case False
    then have "(us_id u, us_api_key u) \<in> set (plain_keys d)" using assms(2) by (auto simp: plain_keys_def)
    with False plain_keys_ids [OF assms(1)] show ?thesis by (simp add: map_of_is_SomeI)
  qed
qed

lemma migrated_rows:
  assumes "wf_users d" and "migrate_keys hash fault d = Some d'"
  shows "ud_users d' = map (\<lambda>u. if looks_hashed (us_api_key u) then u else u\<lparr>us_api_key := hash (us_api_key u)\<rparr>) (ud_users d)"
  using rehash_rows [OF assms(2) [unfolded migrate_keys_def] plain_keys_ids [OF assms(1)]] plain_keys_of [OF assms(1)]
  by (auto simp: hashed_row_def)

lemma migrated_hashed:
  assumes "wf_users d" and "migrate_keys hash fault d = Some d'" and "\<And>s. looks_hashed (hash s)"
  shows "list_all (\<lambda>u. looks_hashed (us_api_key u)) (ud_users d')"
  using migrated_rows [OF assms(1,2)] assms(3) by (auto simp: list_all_iff)

text \<open>
  A start-up that succeeds leaves only hashed keys, changes nothing but plaintext keys, and
  does nothing the next time; a client whose key was stored in plain text is still found by the
  key it has.
\<close>

theorem key_migration:
  assumes "wf_users d" and "migrate_keys hash fault d = Some d'" and "\<And>s. looks_hashed (hash s)"
  shows "ud_users d' = map (\<lambda>u. if looks_hashed (us_api_key u) then u else u\<lparr>us_api_key := hash (us_api_key u)\<rparr>) (ud_users d) \<and>
    list_all (\<lambda>u. looks_hashed (us_api_key u)) (ud_users d') \<and>
    migrate_keys hash fault d' = Some d' \<and>
    (u \<in> set (ud_users d) \<and> \<not> looks_hashed (us_api_key u) \<longrightarrow>
       find_user (ApiKey (hash (us_api_key u))) d' = Some (u\<lparr>us_api_key := hash (us_api_key u)\<rparr>))"
proof -
  have rows: "ud_users d' = map (\<lambda>u. if looks_hashed (us_api_key u) then u else u\<lparr>us_api_key := hash (us_api_key u)\<rparr>) (ud_users d)"
    using migrated_rows [OF assms(1,2)] .
  have all: "list_all (\<lambda>u. looks_hashed (us_api_key u)) (ud_users d')" using migrated_hashed [OF assms] .
  then have "plain_keys d' = []" by (simp add: plain_keys_def filter_empty_conv list_all_iff)
  then have again: "migrate_keys hash fault d' = Some d'" by (simp add: migrate_keys_def)
  have wf: "wf_users d'" using rehash_keeps_wf [OF assms(1)] assms(2) by (simp add: migrate_keys_def)
  have "find_user (ApiKey (hash (us_api_key u))) d' = Some (u\<lparr>us_api_key := hash (us_api_key u)\<rparr>)"
    if "u \<in> set (ud_users d)" "\<not> looks_hashed (us_api_key u)"
    using that rows wf by (force simp: find_user_iff key_fits_def)
  with rows all again show ?thesis by blast
qed

definition sample_hash :: "string \<Rightarrow> string" where
  "sample_hash s = replicate 64 CHR ''a''"

lemma key_migration_witness:
  "\<exists>d'. migrate_keys sample_hash (\<lambda>_. False) sample_users = Some d' \<and>
        list_all (\<lambda>u. looks_hashed (us_api_key u)) (ud_users d')"
proof -
  have wf: "wf_users sample_users" by (simp add: wf_users_def sample_users_def)
  obtain d' where run: "migrate_keys sample_hash (\<lambda>_. False) sample_users = Some d'"
    by (simp add: migrate_keys_def plain_keys_def sample_users_def looks_hashed_def)
  have "looks_hashed (sample_hash s)" for s by (simp add: looks_hashed_def sample_hash_def list_all_iff)
  from key_migration [OF wf run this] run show ?thesis by blast
qed

text \<open>An administrator who is there is never seeded again.\<close>

lemma seed_admin_once: "seed_admin derive salt pw (seed_admin derive salt' pw' stored) = seed_admin derive salt' pw' stored"
  by (simp add: seed_admin_def split: option.split)

end
