(* ===== verification/Schema.thy ===== *)
theory Schema
  imports Startup "HOL-Library.Monad_Syntax"
begin

section \<open>db.go: the schema, its migrations and the search index\<close>

text \<open>
  \<open>createSchema\<close> as the transaction it is: a chain of statements each of which may fail
  (\<open>fault\<close> says which), ending in \<open>None\<close> when start-up gives up and everything is rolled
  back. Of the database the model keeps what the statements decide on: the columns of every
  table, the indexes and triggers by name, the row ids of the log tables and of their search
  indexes, the users and the administrator. What a statement does is SQLite's documented
  behaviour (\<open>IF NOT EXISTS\<close>, \<open>ALTER TABLE\<close>, triggers).
\<close>

subsection \<open>The database\<close>

datatype stmt =
    CreateTable string | CreateIndex string | TableInfo string | RenameColumn string | AddColumn string string
  | ReadKeys | UpdateKey int | DropTrigger string | DropTable string | CreateFts string | CreateTrigger string
  | Count string | Backfill string | SeedAdmin | Commit

record database =
  da_columns :: "string \<rightharpoonup> string list"
  da_indexes :: "string list"
  da_triggers :: "string list"
  da_rows :: "string \<Rightarrow> nat list" \<comment> \<open>the row ids of a table\<close>
  da_users :: user_db
  da_admin :: "string option" \<comment> \<open>the administrator's password hash\<close>

type_synonym faults = "stmt \<Rightarrow> bool"

definition columns_of :: "string \<Rightarrow> database \<Rightarrow> string list" where
  "columns_of t d = (case da_columns d t of None \<Rightarrow> [] | Some cs \<Rightarrow> cs)"

definition add_name :: "string \<Rightarrow> string list \<Rightarrow> string list" where
  "add_name n ns = (if n \<in> set ns then ns else ns @ [n])"

subsection \<open>Tables and indexes\<close>

definition detail_columns :: "string list" where
  "detail_columns =
     [''request_id'', ''model_requested'', ''model_served'', ''engine_name'', ''engine_type'', ''streamed'', ''ttft_ms'',
      ''duration_ms'', ''in_tokens'', ''out_tokens'', ''stop_reason'', ''outcome'', ''upstream_error'', ''user_agent'']"

definition schema_tables :: "(string \<times> string list) list" where
  "schema_tables =
     [(''users'', [''id'', ''name'', ''api_key'', ''status'', ''rate_limit'', ''created_at'']),
      (''admin_user'', [''id'', ''email'', ''password_hash'', ''created_at'']),
      (''logs'', [''id'', ''user_id'', ''model'', ''prompt'', ''response'', ''ts'']),
      (''settings'', [''key'', ''value'']),
      (''rate_limit_entries'', [''id'', ''user_id'', ''timestamp'']),
      (''request_logs'', [''id'', ''ts'', ''method'', ''path'', ''client_ip'', ''user_name'', ''status_code''] @ detail_columns)]"

definition schema_indexes :: "string list" where
  "schema_indexes =
     [''idx_logs_user_id'', ''idx_users_api_key'', ''idx_rate_limit_user_timestamp'', ''idx_request_logs_ts'', ''idx_logs_ts'',
      ''idx_logs_user_ts'']"

text \<open>\<open>CREATE TABLE IF NOT EXISTS\<close> leaves a table that is there as it is.\<close>

definition create_table :: "string \<times> string list \<Rightarrow> database \<Rightarrow> database" where
  "create_table t d =
     (case da_columns d (fst t) of
        None \<Rightarrow> d\<lparr>da_columns := (da_columns d)(fst t \<mapsto> snd t)\<rparr>
      | Some _ \<Rightarrow> d)"

fun create_tables :: "faults \<Rightarrow> (string \<times> string list) list \<Rightarrow> database \<Rightarrow> database option" where
  "create_tables fault [] d = Some d"
| "create_tables fault (t # ts) d =
     (if fault (CreateTable (fst t)) then None else create_tables fault ts (create_table t d))"

fun create_indexes :: "faults \<Rightarrow> string list \<Rightarrow> database \<Rightarrow> database option" where
  "create_indexes fault [] d = Some d"
| "create_indexes fault (i # is) d =
     (if fault (CreateIndex i) then None else create_indexes fault is (d\<lparr>da_indexes := add_name i (da_indexes d)\<rparr>))"

subsection \<open>Column migrations\<close>

definition table_has_column :: "faults \<Rightarrow> string \<Rightarrow> string \<Rightarrow> database \<Rightarrow> bool option" where
  "table_has_column fault t c d = (if fault (TableInfo t) then None else Some (c \<in> set (columns_of t d)))"

text \<open>\<open>RENAME COLUMN\<close> and \<open>ADD COLUMN\<close>; renaming a column that is not there is an error.\<close>

definition rename_email :: "faults \<Rightarrow> database \<Rightarrow> database option" where
  "rename_email fault d = do {
     has \<leftarrow> table_has_column fault ''users'' ''name'' d;
     if has then Some d
     else if fault (RenameColumn ''email'') \<or> ''email'' \<notin> set (columns_of ''users'' d) then None
     else Some (d\<lparr>da_columns := (da_columns d)(''users'' \<mapsto>
            map (\<lambda>c. if c = ''email'' then ''name'' else c) (columns_of ''users'' d))\<rparr>)
   }"

definition add_column :: "faults \<Rightarrow> string \<Rightarrow> string \<Rightarrow> database \<Rightarrow> database option" where
  "add_column fault t c d = do {
     has \<leftarrow> table_has_column fault t c d;
     if has then Some d
     else if fault (AddColumn t c) \<or> da_columns d t = None then None
     else Some (d\<lparr>da_columns := (da_columns d)(t \<mapsto> columns_of t d @ [c])\<rparr>)
   }"

fun add_columns :: "faults \<Rightarrow> string \<Rightarrow> string list \<Rightarrow> database \<Rightarrow> database option" where
  "add_columns fault t [] d = Some d"
| "add_columns fault t (c # cs) d = add_column fault t c d \<bind> add_columns fault t cs"

definition hash_keys :: "faults \<Rightarrow> (string \<Rightarrow> string) \<Rightarrow> database \<Rightarrow> database option" where
  "hash_keys fault hash d =
     (if fault ReadKeys then None
      else map_option (\<lambda>u. d\<lparr>da_users := u\<rparr>) (migrate_keys hash (\<lambda>i. fault (UpdateKey i)) (da_users d)))"

subsection \<open>The search index\<close>

definition drop_trigger :: "faults \<Rightarrow> string \<Rightarrow> database \<Rightarrow> database option" where
  "drop_trigger fault n d =
     (if fault (DropTrigger n) then None else Some (d\<lparr>da_triggers := filter (\<lambda>m. m \<noteq> n) (da_triggers d)\<rparr>))"

definition drop_table :: "faults \<Rightarrow> string \<Rightarrow> database \<Rightarrow> database option" where
  "drop_table fault t d =
     (if fault (DropTable t) then None
      else Some (d\<lparr>da_columns := (da_columns d)(t := None), da_rows := (da_rows d)(t := [])\<rparr>))"

definition drop_stale_index :: "faults \<Rightarrow> database \<Rightarrow> database option" where
  "drop_stale_index fault d = do {
     has \<leftarrow> table_has_column fault ''request_logs_fts'' ''engine_name'' d;
     if has then Some d
     else drop_trigger fault ''rlogs_ai'' d \<bind> drop_trigger fault ''rlogs_ad'' \<bind> drop_table fault ''request_logs_fts''
   }"

definition fts_tables :: "(string \<times> string list) list" where
  "fts_tables =
     [(''logs_fts'', [''prompt'', ''response'', ''user_name'']),
      (''request_logs_fts'', [''path'', ''client_ip'', ''user_name'', ''model_served'', ''engine_name''])]"

definition fts_stmts :: "stmt list" where
  "fts_stmts =
     map (\<lambda>t. CreateFts (fst t)) fts_tables @ map CreateTrigger [''logs_ai'', ''logs_ad'', ''rlogs_ai'', ''rlogs_ad'']"

definition run_fts :: "stmt \<Rightarrow> database \<Rightarrow> database" where
  "run_fts s d =
     (case s of
        CreateFts t \<Rightarrow> create_table (t, case map_of fts_tables t of None \<Rightarrow> [] | Some cs \<Rightarrow> cs) d
      | CreateTrigger n \<Rightarrow> d\<lparr>da_triggers := add_name n (da_triggers d)\<rparr>
      | _ \<Rightarrow> d)"

text \<open>The first statement that fails ends the set-up; the statements before it stay.\<close>

fun set_up_fts :: "faults \<Rightarrow> stmt list \<Rightarrow> database \<Rightarrow> database \<times> bool" where
  "set_up_fts fault [] d = (d, True)"
| "set_up_fts fault (s # ss) d = (if fault s then (d, False) else set_up_fts fault ss (run_fts s d))"

definition tx_count :: "faults \<Rightarrow> string \<Rightarrow> database \<Rightarrow> nat option" where
  "tx_count fault t d = (if fault (Count t) then None else Some (length (da_rows d t)))"

definition backfill :: "faults \<Rightarrow> string \<Rightarrow> string \<Rightarrow> database \<Rightarrow> database \<times> bool" where
  "backfill fault fts base d =
     (case (tx_count fault fts d, tx_count fault base d) of
        (Some n, Some m) \<Rightarrow>
          if n = 0 \<and> 0 < m then
            if fault (Backfill fts) then (d, False)
            else (d\<lparr>da_rows := (da_rows d)(fts := da_rows d base)\<rparr>, True)
          else (d, True)
      | _ \<Rightarrow> (d, False))"

definition build_index :: "faults \<Rightarrow> database \<Rightarrow> database \<times> bool" where
  "build_index fault d =
     (let (d1, ok) = set_up_fts fault fts_stmts d in
      if \<not> ok then (d1, False)
      else
        let (d2, ok2) = backfill fault ''logs_fts'' ''logs'' d1;
            (d3, ok3) = backfill fault ''request_logs_fts'' ''request_logs'' d2
        in (d3, ok2 \<and> ok3))"

subsection \<open>The administrator, and the whole transaction\<close>

definition seed_administrator ::
  "faults \<Rightarrow> (string \<Rightarrow> string \<Rightarrow> int \<Rightarrow> string) \<Rightarrow> string \<Rightarrow> string \<Rightarrow> database \<Rightarrow> database option" where
  "seed_administrator fault derive salt pw d =
     (if fault (Count ''admin_user'') \<or> da_admin d = None \<and> fault SeedAdmin then None
      else Some (d\<lparr>da_admin := seed_admin derive salt pw (da_admin d)\<rparr>))"

record seed =
  su_hash :: "string \<Rightarrow> string"
  su_derive :: "string \<Rightarrow> string \<Rightarrow> int \<Rightarrow> string"
  su_salt :: string
  su_password :: string

text \<open>With the database it leaves, whether searches use the index (\<open>fts5Enabled\<close>).\<close>

definition create_schema :: "faults \<Rightarrow> seed \<Rightarrow> database \<Rightarrow> (database \<times> bool) option" where
  "create_schema fault su d0 = do {
     d1 \<leftarrow> create_tables fault schema_tables d0;
     d2 \<leftarrow> create_indexes fault schema_indexes d1;
     d3 \<leftarrow> rename_email fault d2;
     d4 \<leftarrow> add_column fault ''logs'' ''model'' d3;
     d5 \<leftarrow> add_columns fault ''request_logs'' detail_columns d4;
     d6 \<leftarrow> hash_keys fault (su_hash su) d5;
     d7 \<leftarrow> drop_stale_index fault d6;
     let (d8, ok) = build_index fault d7;
     d9 \<leftarrow> seed_administrator fault (su_derive su) (su_salt su) (su_password su) d8;
     if fault Commit then None else Some (d9, ok)
   }"

subsection \<open>Rows come and go under the triggers\<close>

text \<open>Of each log table: its search index and the triggers that keep the index in step.\<close>

definition fts_pairs :: "(string \<times> string \<times> string \<times> string) list" where
  "fts_pairs =
     [(''logs'', ''logs_fts'', ''logs_ai'', ''logs_ad''), (''request_logs'', ''request_logs_fts'', ''rlogs_ai'', ''rlogs_ad'')]"

definition insert_row :: "string \<Rightarrow> nat \<Rightarrow> database \<Rightarrow> database" where
  "insert_row t i d =
     (case map_of fts_pairs t of
        None \<Rightarrow> d
      | Some (fts, ai, ad) \<Rightarrow>
          d\<lparr>da_rows := (\<lambda>n. if n = t \<or> n = fts \<and> ai \<in> set (da_triggers d) then da_rows d n @ [i] else da_rows d n)\<rparr>)"

definition delete_row :: "string \<Rightarrow> nat \<Rightarrow> database \<Rightarrow> database" where
  "delete_row t i d =
     (case map_of fts_pairs t of
        None \<Rightarrow> d
      | Some (fts, ai, ad) \<Rightarrow>
          d\<lparr>da_rows := (\<lambda>n. if n = t \<or> n = fts \<and> ad \<in> set (da_triggers d) then filter (\<lambda>j. j \<noteq> i) (da_rows d n)
                            else da_rows d n)\<rparr>)"

subsection \<open>What the steps leave alone\<close>

lemma create_tables_keeps:
  "create_tables fault ts d = Some d' \<Longrightarrow>
     da_rows d' = da_rows d \<and> da_triggers d' = da_triggers d \<and> da_indexes d' = da_indexes d \<and>
     da_users d' = da_users d \<and> da_admin d' = da_admin d"
  by (induction ts arbitrary: d) (auto simp: create_table_def split: if_splits option.splits)

lemma create_tables_columns:
  "create_tables fault ts d = Some d' \<Longrightarrow> distinct (map fst ts) \<Longrightarrow>
     da_columns d' t = (case da_columns d t of Some cs \<Rightarrow> Some cs | None \<Rightarrow> map_of ts t)"
  by (induction ts arbitrary: d)
    (auto simp: create_table_def map_of_eq_None_iff [THEN iffD2] image_iff split: if_splits option.splits)

lemma create_indexes_keeps:
  "create_indexes fault is d = Some d' \<Longrightarrow>
     da_rows d' = da_rows d \<and> da_triggers d' = da_triggers d \<and> da_columns d' = da_columns d \<and>
     da_users d' = da_users d \<and> da_admin d' = da_admin d \<and> set (da_indexes d') = set (da_indexes d) \<union> set is"
  by (induction "is" arbitrary: d) (auto simp: add_name_def split: if_splits)

lemma bind_Some [simp]: "(x \<bind> f = Some y) = (\<exists>z. x = Some z \<and> f z = Some y)"
  by (cases x) auto

lemma rename_email_keeps:
  "rename_email fault d = Some d' \<Longrightarrow>
     da_rows d' = da_rows d \<and> da_triggers d' = da_triggers d \<and> da_indexes d' = da_indexes d \<and>
     da_users d' = da_users d \<and> da_admin d' = da_admin d \<and>
     (\<forall>t. t \<noteq> ''users'' \<longrightarrow> da_columns d' t = da_columns d t)"
  by (auto simp: rename_email_def split: if_splits)

lemma rename_email_users:
  "rename_email fault d = Some d' \<Longrightarrow>
     insert ''name'' (set (columns_of ''users'' d)) - {''email''} \<subseteq> set (columns_of ''users'' d')"
  by (auto simp: rename_email_def table_has_column_def columns_of_def split: if_splits option.splits)

lemma add_column_keeps:
  "add_column fault t c d = Some d' \<Longrightarrow>
     da_rows d' = da_rows d \<and> da_triggers d' = da_triggers d \<and> da_indexes d' = da_indexes d \<and>
     da_users d' = da_users d \<and> da_admin d' = da_admin d \<and>
     (\<forall>u. u \<noteq> t \<longrightarrow> da_columns d' u = da_columns d u) \<and>
     set (columns_of t d') = insert c (set (columns_of t d))"
  by (auto simp: add_column_def table_has_column_def columns_of_def split: if_splits)

lemma add_columns_keeps:
  "add_columns fault t cs d = Some d' \<Longrightarrow>
     da_rows d' = da_rows d \<and> da_triggers d' = da_triggers d \<and> da_indexes d' = da_indexes d \<and>
     da_users d' = da_users d \<and> da_admin d' = da_admin d \<and>
     (\<forall>u. u \<noteq> t \<longrightarrow> da_columns d' u = da_columns d u) \<and>
     set (columns_of t d') = set cs \<union> set (columns_of t d)"
proof (induction cs arbitrary: d)
  case (Cons c cs)
  then obtain d1 where "add_column fault t c d = Some d1" "add_columns fault t cs d1 = Some d'" by auto
  with Cons.IH [of d1] add_column_keeps [of fault t c d d1] show ?case by auto
qed simp

subsection \<open>Every column the program reads is there\<close>

text \<open>A database an older build may have left: only the columns the migrations know may be missing.\<close>

definition migrated_columns :: "string \<Rightarrow> string list" where
  "migrated_columns t =
     (if t = ''users'' then [''name''] else if t = ''logs'' then [''model'']
      else if t = ''request_logs'' then detail_columns else [])"

definition older :: "database \<Rightarrow> bool" where
  "older d \<longleftrightarrow> list_all (\<lambda>(t, cs). case da_columns d t of None \<Rightarrow> True
     | Some cs' \<Rightarrow> set cs \<subseteq> set cs' \<union> set (migrated_columns t)) schema_tables"

definition readable :: "database \<Rightarrow> bool" where
  "readable d \<longleftrightarrow> list_all (\<lambda>(t, cs). set cs \<subseteq> set (columns_of t d)) schema_tables"

lemma drop_stale_keeps:
  assumes "drop_stale_index fault d = Some d'"
  shows "da_indexes d' = da_indexes d \<and> da_users d' = da_users d \<and> da_admin d' = da_admin d \<and>
    (\<forall>t. t \<noteq> ''request_logs_fts'' \<longrightarrow> da_columns d' t = da_columns d t \<and> da_rows d' t = da_rows d t)"
  using assms by (auto simp: drop_stale_index_def drop_trigger_def drop_table_def split: if_splits)

lemma run_fts_keeps:
  "s \<in> set fts_stmts \<Longrightarrow>
     da_rows (run_fts s d) = da_rows d \<and> da_indexes (run_fts s d) = da_indexes d \<and> da_users (run_fts s d) = da_users d \<and>
     da_admin (run_fts s d) = da_admin d \<and> (\<forall>t. t \<notin> fst ` set fts_tables \<longrightarrow> da_columns (run_fts s d) t = da_columns d t) \<and>
     (\<forall>t cs. da_columns d t = Some cs \<longrightarrow> da_columns (run_fts s d) t = Some cs)"
  by (auto simp: fts_stmts_def fts_tables_def run_fts_def create_table_def split: option.split)

lemma set_up_fts_keeps:
  "set_up_fts fault ss d = (d', ok) \<Longrightarrow> set ss \<subseteq> set fts_stmts \<Longrightarrow>
     da_rows d' = da_rows d \<and> da_indexes d' = da_indexes d \<and> da_users d' = da_users d \<and> da_admin d' = da_admin d \<and>
     (\<forall>t. t \<notin> fst ` set fts_tables \<longrightarrow> da_columns d' t = da_columns d t) \<and>
     (\<forall>t cs. da_columns d t = Some cs \<longrightarrow> da_columns d' t = Some cs)"
proof (induction ss arbitrary: d)
  case (Cons s ss)
  show ?case
  proof (cases "fault s")
    case False
    with Cons.prems have run: "set_up_fts fault ss (run_fts s d) = (d', ok)" and s: "s \<in> set fts_stmts" by auto
    from Cons.IH [OF run] Cons.prems(2) run_fts_keeps [OF s, of d] show ?thesis by auto
  qed (use Cons.prems in auto)
qed simp

lemma backfill_keeps:
  "da_indexes (fst (backfill fault fts base d)) = da_indexes d" "da_users (fst (backfill fault fts base d)) = da_users d"
  "da_admin (fst (backfill fault fts base d)) = da_admin d" "da_columns (fst (backfill fault fts base d)) = da_columns d"
  "da_triggers (fst (backfill fault fts base d)) = da_triggers d"
  "t \<noteq> fts \<Longrightarrow> da_rows (fst (backfill fault fts base d)) t = da_rows d t"
  by (auto simp: backfill_def split: option.split)

lemma build_index_keeps:
  assumes "build_index fault d = (d', ok)"
  shows "da_indexes d' = da_indexes d \<and> da_users d' = da_users d \<and> da_admin d' = da_admin d \<and>
    (\<forall>t. t \<notin> fst ` set fts_tables \<longrightarrow> da_columns d' t = da_columns d t \<and> da_rows d' t = da_rows d t)"
proof -
  obtain d1 k where r: "set_up_fts fault fts_stmts d = (d1, k)" by fastforce
  note keep = set_up_fts_keeps [OF r subset_refl]
  have "d' = (if k then fst (backfill fault ''request_logs_fts'' ''request_logs''
                             (fst (backfill fault ''logs_fts'' ''logs'' d1))) else d1)"
    using assms r by (simp add: build_index_def case_prod_beta Let_def split: if_splits)
  with keep show ?thesis by (simp add: backfill_keeps fts_tables_def)
qed

text \<open>The rows of the log tables, and all users but for the form of their keys, survive a start.\<close>

lemma create_schema_steps:
  assumes "create_schema fault su d = Some (d', ok)"
  obtains d1 d2 d3 d4 d5 d6 d7 d8
  where "create_tables fault schema_tables d = Some d1" "create_indexes fault schema_indexes d1 = Some d2"
    "rename_email fault d2 = Some d3" "add_column fault ''logs'' ''model'' d3 = Some d4"
    "add_columns fault ''request_logs'' detail_columns d4 = Some d5" "hash_keys fault (su_hash su) d5 = Some d6"
    "drop_stale_index fault d6 = Some d7" "build_index fault d7 = (d8, ok)"
    "seed_administrator fault (su_derive su) (su_salt su) (su_password su) d8 = Some d'"
proof -
  from assms obtain d1 d2 d3 d4 d5 d6 d7
    where steps: "create_tables fault schema_tables d = Some d1" "create_indexes fault schema_indexes d1 = Some d2"
      "rename_email fault d2 = Some d3" "add_column fault ''logs'' ''model'' d3 = Some d4"
      "add_columns fault ''request_logs'' detail_columns d4 = Some d5" "hash_keys fault (su_hash su) d5 = Some d6"
      "drop_stale_index fault d6 = Some d7"
    and rest: "(let (d8, k) = build_index fault d7 in
        seed_administrator fault (su_derive su) (su_salt su) (su_password su) d8 \<bind>
          (\<lambda>d9. if fault Commit then None else Some (d9, k))) = Some (d', ok)"
    unfolding create_schema_def bind_Some by blast
  obtain d8 k where "build_index fault d7 = (d8, k)" by fastforce
  with rest have "build_index fault d7 = (d8, ok)"
    "seed_administrator fault (su_derive su) (su_salt su) (su_password su) d8 = Some d'"
    by (auto split: if_splits)
  from that [OF steps this] show thesis .
qed

lemma columns_upto_index:
  assumes "create_tables fault schema_tables d = Some d1" "create_indexes fault schema_indexes d1 = Some d2"
    "rename_email fault d2 = Some d3" "add_column fault ''logs'' ''model'' d3 = Some d4"
    "add_columns fault ''request_logs'' detail_columns d4 = Some d5" and "older d"
  shows "readable d5"
proof -
  have d1: "da_columns d1 t = (case da_columns d t of Some cs \<Rightarrow> Some cs | None \<Rightarrow> map_of schema_tables t)" for t
    by (rule create_tables_columns [OF assms(1)]) (simp add: schema_tables_def)
  have old: "set cs \<subseteq> set (columns_of t d1) \<union> set (migrated_columns t)" if "(t, cs) \<in> set schema_tables" for t cs
  proof (cases "da_columns d t")
    case None
    moreover have "map_of schema_tables t = Some cs" using that by (auto simp: schema_tables_def)
    ultimately show ?thesis using d1 [of t] by (simp add: columns_of_def)
  next
    case (Some cs')
    with that \<open>older d\<close> have "set cs \<subseteq> set cs' \<union> set (migrated_columns t)" by (fastforce simp: older_def list_all_iff)
    with d1 [of t] Some show ?thesis by (simp add: columns_of_def)
  qed
  have d2: "columns_of t d2 = columns_of t d1" for t
    using create_indexes_keeps [OF assms(2)] by (simp add: columns_of_def)
  have d3: "t \<noteq> ''users'' \<Longrightarrow> columns_of t d3 = columns_of t d1" for t
    using rename_email_keeps [OF assms(3)] d2 by (simp add: columns_of_def)
  have d5: "t \<noteq> ''logs'' \<Longrightarrow> t \<noteq> ''request_logs'' \<Longrightarrow> columns_of t d5 = columns_of t d3" for t
    using add_column_keeps [OF assms(4)] add_columns_keeps [OF assms(5)] by (simp add: columns_of_def)
  have "columns_of ''logs'' d5 = columns_of ''logs'' d4"
    using add_columns_keeps [OF assms(5)] by (simp add: columns_of_def)
  with add_column_keeps [OF assms(4)] d3 [of "''logs''"]
  have logs: "set (columns_of ''logs'' d5) = insert ''model'' (set (columns_of ''logs'' d1))" by simp
  have "columns_of ''request_logs'' d4 = columns_of ''request_logs'' d3"
    using add_column_keeps [OF assms(4)] by (simp add: columns_of_def)
  with add_columns_keeps [OF assms(5)] d3 [of "''request_logs''"]
  have requests: "set (columns_of ''request_logs'' d5) = set detail_columns \<union> set (columns_of ''request_logs'' d1)" by simp
  have users: "insert ''name'' (set (columns_of ''users'' d1)) - {''email''} \<subseteq> set (columns_of ''users'' d5)"
    using rename_email_users [OF assms(3)] d2 d5 [of "''users''"] by simp
  have "set cs \<subseteq> set (columns_of t d5)" if mem: "(t, cs) \<in> set schema_tables" for t cs
  proof (cases "t \<in> {''users'', ''logs'', ''request_logs''}")
    case True
    moreover have "t = ''users'' \<Longrightarrow> ''email'' \<notin> set cs" using mem by (auto simp: schema_tables_def)
    ultimately show ?thesis using old [OF mem] logs requests users by (auto simp: migrated_columns_def) blast
  next
    case False
    with old [OF mem] d5 [of t] d3 [of t] show ?thesis by (simp add: migrated_columns_def)
  qed
  then show ?thesis by (auto simp: readable_def list_all_iff)
qed

lemma schema_keeps:
  assumes "create_schema fault su d = Some (d', ok)" and "older d"
  shows "readable d' \<and> set schema_indexes \<subseteq> set (da_indexes d') \<and> da_admin d' \<noteq> None \<and>
    migrate_keys (su_hash su) (\<lambda>i. fault (UpdateKey i)) (da_users d) = Some (da_users d') \<and>
    (\<forall>t. t \<notin> fst ` set fts_tables \<longrightarrow> da_rows d' t = da_rows d t)"
proof -
  obtain d1 d2 d3 d4 d5 d6 d7 d8
    where s: "create_tables fault schema_tables d = Some d1" "create_indexes fault schema_indexes d1 = Some d2"
      "rename_email fault d2 = Some d3" "add_column fault ''logs'' ''model'' d3 = Some d4"
      "add_columns fault ''request_logs'' detail_columns d4 = Some d5" "hash_keys fault (su_hash su) d5 = Some d6"
      "drop_stale_index fault d6 = Some d7" "build_index fault d7 = (d8, ok)"
      "seed_administrator fault (su_derive su) (su_salt su) (su_password su) d8 = Some d'"
    using create_schema_steps [OF assms(1)] .
  note keeps = create_tables_keeps [OF s(1)] create_indexes_keeps [OF s(2)] rename_email_keeps [OF s(3)]
    add_column_keeps [OF s(4)] add_columns_keeps [OF s(5)] drop_stale_keeps [OF s(7)] build_index_keeps [OF s(8)]
  have d6: "da_columns d6 = da_columns d5" "da_rows d6 = da_rows d5" "da_indexes d6 = da_indexes d5" "da_admin d6 = da_admin d5"
    "migrate_keys (su_hash su) (\<lambda>i. fault (UpdateKey i)) (da_users d5) = Some (da_users d6)"
    using s(6) by (auto simp: hash_keys_def split: if_splits)
  have d': "da_columns d' = da_columns d8" "da_rows d' = da_rows d8" "da_indexes d' = da_indexes d8"
    "da_users d' = da_users d8" "da_admin d' \<noteq> None"
    using s(9) by (auto simp: seed_administrator_def seed_admin_def split: if_splits option.splits)
  have "columns_of t d' = columns_of t d5" if "(t, cs) \<in> set schema_tables" for t cs
  proof -
    have "t \<notin> fst ` set fts_tables" using that by (auto simp: schema_tables_def fts_tables_def)
    then show ?thesis using keeps(6,7) d6 d' by (simp add: columns_of_def fts_tables_def)
  qed
  with columns_upto_index [OF s(1-5) assms(2)] have "readable d'" by (fastforce simp: readable_def list_all_iff)
  with keeps d6 d' show ?thesis by (simp add: fts_tables_def)
qed

subsection \<open>The search index holds the rows of its table\<close>

definition in_step :: "database \<Rightarrow> string \<times> string \<times> string \<times> string \<Rightarrow> bool" where
  "in_step d p \<longleftrightarrow> (case p of (base, fts, ai, ad) \<Rightarrow>
     ai \<in> set (da_triggers d) \<and> ad \<in> set (da_triggers d) \<and> da_rows d fts = da_rows d base)"

definition not_built :: "database \<Rightarrow> string \<times> string \<times> string \<times> string \<Rightarrow> bool" where
  "not_built d p \<longleftrightarrow> (case p of (base, fts, ai, ad) \<Rightarrow>
     ai \<notin> set (da_triggers d) \<and> ad \<notin> set (da_triggers d) \<and> da_rows d fts = [])"

definition index_sound :: "database \<Rightarrow> bool" where
  "index_sound d \<longleftrightarrow> list_all (\<lambda>p. in_step d p \<or> not_built d p) fts_pairs"

definition index_complete :: "database \<Rightarrow> bool" where
  "index_complete d \<longleftrightarrow> list_all (in_step d) fts_pairs"

text \<open>No statement of the index set-up fails.\<close>

definition quiet_index :: "faults \<Rightarrow> bool" where
  "quiet_index fault \<longleftrightarrow> list_all (\<lambda>s. \<not> fault s) fts_stmts \<and>
     list_all (\<lambda>(base, fts, _). \<not> fault (Count fts) \<and> \<not> fault (Count base) \<and> \<not> fault (Backfill fts)) fts_pairs"

lemma set_up_fts_quiet:
  "list_all (\<lambda>s. \<not> fault s) ss \<Longrightarrow> set_up_fts fault ss d = (foldl (\<lambda>d s. run_fts s d) d ss, True)"
  by (induction ss arbitrary: d) auto

lemma fts_steps_state:
  "set ss \<subseteq> set fts_stmts \<Longrightarrow>
     da_rows (foldl (\<lambda>d s. run_fts s d) d ss) = da_rows d \<and>
     set (da_triggers (foldl (\<lambda>d s. run_fts s d) d ss)) = set (da_triggers d) \<union> {n. CreateTrigger n \<in> set ss}"
proof (induction ss arbitrary: d)
  case (Cons s ss)
  have "set (da_triggers (run_fts s d)) = set (da_triggers d) \<union> {n. CreateTrigger n = s}"
    by (auto simp: run_fts_def create_table_def add_name_def split: stmt.split option.split)
  with Cons.IH [of "run_fts s d"] Cons.prems run_fts_keeps [of s d] show ?case by auto
qed simp

lemma fts_set_up_state:
  "da_rows (foldl (\<lambda>d s. run_fts s d) d fts_stmts) = da_rows d"
  "set (da_triggers (foldl (\<lambda>d s. run_fts s d) d fts_stmts)) =
     set (da_triggers d) \<union> {''logs_ai'', ''logs_ad'', ''rlogs_ai'', ''rlogs_ad''}"
proof -
  have "{n. CreateTrigger n \<in> set fts_stmts} = {''logs_ai'', ''logs_ad'', ''rlogs_ai'', ''rlogs_ad''}"
    by (auto simp: fts_stmts_def)
  with fts_steps_state [OF subset_refl, of d]
  show "da_rows (foldl (\<lambda>d s. run_fts s d) d fts_stmts) = da_rows d"
    "set (da_triggers (foldl (\<lambda>d s. run_fts s d) d fts_stmts)) =
       set (da_triggers d) \<union> {''logs_ai'', ''logs_ad'', ''rlogs_ai'', ''rlogs_ad''}" by simp_all
qed

lemma backfill_rows:
  "da_rows (fst (backfill fault fts base d)) fts =
     (if da_rows d fts = [] \<and> \<not> fault (Count fts) \<and> \<not> fault (Count base) \<and> \<not> fault (Backfill fts)
      then da_rows d base else da_rows d fts)"
  "snd (backfill fault fts base d) \<longleftrightarrow>
     \<not> fault (Count fts) \<and> \<not> fault (Count base) \<and> (da_rows d fts = [] \<and> da_rows d base \<noteq> [] \<longrightarrow> \<not> fault (Backfill fts))"
  by (auto simp: backfill_def tx_count_def)

text \<open>The state the index set-up finds: as before the start, or with the stale index dropped.\<close>

lemma before_index:
  assumes "create_schema fault su d = Some (d', ok)"
  obtains d7 d8 where "build_index fault d7 = (d8, ok)" "da_rows d' = da_rows d8" "da_triggers d' = da_triggers d8"
    and "da_rows d7 ''logs'' = da_rows d ''logs''" "da_rows d7 ''logs_fts'' = da_rows d ''logs_fts''"
      "da_rows d7 ''request_logs'' = da_rows d ''request_logs''"
      "da_triggers d7 = da_triggers d \<and> da_rows d7 ''request_logs_fts'' = da_rows d ''request_logs_fts'' \<or>
       da_triggers d7 = filter (\<lambda>n. n \<noteq> ''rlogs_ai'' \<and> n \<noteq> ''rlogs_ad'') (da_triggers d) \<and> da_rows d7 ''request_logs_fts'' = []"
proof -
  obtain d1 d2 d3 d4 d5 d6 d7 d8
    where s: "create_tables fault schema_tables d = Some d1" "create_indexes fault schema_indexes d1 = Some d2"
      "rename_email fault d2 = Some d3" "add_column fault ''logs'' ''model'' d3 = Some d4"
      "add_columns fault ''request_logs'' detail_columns d4 = Some d5" "hash_keys fault (su_hash su) d5 = Some d6"
      "drop_stale_index fault d6 = Some d7" "build_index fault d7 = (d8, ok)"
      "seed_administrator fault (su_derive su) (su_salt su) (su_password su) d8 = Some d'"
    using create_schema_steps [OF assms] .
  have d6: "da_rows d6 = da_rows d" "da_triggers d6 = da_triggers d"
    using create_tables_keeps [OF s(1)] create_indexes_keeps [OF s(2)] rename_email_keeps [OF s(3)]
      add_column_keeps [OF s(4)] add_columns_keeps [OF s(5)] s(6) by (auto simp: hash_keys_def split: if_splits)
  have d': "da_rows d' = da_rows d8" "da_triggers d' = da_triggers d8"
    using s(9) by (auto simp: seed_administrator_def split: if_splits)
  have "da_triggers d7 = da_triggers d6 \<and> da_rows d7 ''request_logs_fts'' = da_rows d6 ''request_logs_fts'' \<or>
       da_triggers d7 = filter (\<lambda>n. n \<noteq> ''rlogs_ai'' \<and> n \<noteq> ''rlogs_ad'') (da_triggers d6) \<and> da_rows d7 ''request_logs_fts'' = []"
    using s(7) by (auto simp: drop_stale_index_def drop_trigger_def drop_table_def conj_commute split: if_splits)
  with d6 d' s(8) drop_stale_keeps [OF s(7)] show thesis by (intro that [of d7 d8]) auto
qed

text \<open>The two backfills, once the set-up has gone through.\<close>

definition filled :: "faults \<Rightarrow> string \<Rightarrow> string \<Rightarrow> database \<Rightarrow> nat list" where
  "filled fault fts base d =
     (if da_rows d fts = [] \<and> \<not> fault (Count fts) \<and> \<not> fault (Count base) \<and> \<not> fault (Backfill fts)
      then da_rows d base else da_rows d fts)"

lemma build_index_rows:
  assumes "list_all (\<lambda>s. \<not> fault s) fts_stmts" and "build_index fault d = (d', ok)"
  shows "set (da_triggers d') = set (da_triggers d) \<union> {''logs_ai'', ''logs_ad'', ''rlogs_ai'', ''rlogs_ad''} \<and>
    da_rows d' ''logs'' = da_rows d ''logs'' \<and> da_rows d' ''request_logs'' = da_rows d ''request_logs'' \<and>
    da_rows d' ''logs_fts'' = filled fault ''logs_fts'' ''logs'' d \<and>
    da_rows d' ''request_logs_fts'' = filled fault ''request_logs_fts'' ''request_logs'' d \<and>
    (quiet_index fault \<longrightarrow> ok)"
proof -
  define d1 where "d1 = foldl (\<lambda>d s. run_fts s d) d fts_stmts"
  define d2 where "d2 = fst (backfill fault ''logs_fts'' ''logs'' d1)"
  define d3 where "d3 = fst (backfill fault ''request_logs_fts'' ''request_logs'' d2)"
  have rows: "da_rows d1 = da_rows d"
    and trig: "set (da_triggers d1) = set (da_triggers d) \<union> {''logs_ai'', ''logs_ad'', ''rlogs_ai'', ''rlogs_ad''}"
    unfolding d1_def by (rule fts_set_up_state)+
  have out: "d' = d3" "ok = (snd (backfill fault ''logs_fts'' ''logs'' d1) \<and>
      snd (backfill fault ''request_logs_fts'' ''request_logs'' d2))"
    using assms(2) set_up_fts_quiet [OF assms(1), of d] unfolding d3_def d2_def d1_def
    by (auto simp: build_index_def case_prod_beta Let_def)
  have r2: "t \<noteq> ''logs_fts'' \<Longrightarrow> da_rows d2 t = da_rows d t" for t
    unfolding d2_def using rows by (simp add: backfill_keeps)
  have r3: "t \<noteq> ''request_logs_fts'' \<Longrightarrow> da_rows d3 t = da_rows d2 t" for t
    unfolding d3_def by (simp add: backfill_keeps)
  have logs: "da_rows d2 ''logs_fts'' = filled fault ''logs_fts'' ''logs'' d"
    unfolding d2_def filled_def backfill_rows(1) rows ..
  have requests: "da_rows d3 ''request_logs_fts'' = filled fault ''request_logs_fts'' ''request_logs'' d"
    unfolding d3_def filled_def backfill_rows(1) using r2 by simp
  have "da_triggers d3 = da_triggers d1" unfolding d3_def d2_def by (simp add: backfill_keeps)
  moreover have "quiet_index fault \<longrightarrow> ok"
    unfolding out(2) backfill_rows(2) by (simp add: quiet_index_def fts_pairs_def)
  ultimately show ?thesis unfolding out(1) using trig r2 r3 logs requests by simp
qed

lemma boot_completes_index:
  assumes "create_schema fault su d = Some (d', ok)" and "quiet_index fault" and "index_sound d"
  shows "ok \<and> index_complete d'"
proof -
  obtain d7 d8 where b: "build_index fault d7 = (d8, ok)" "da_rows d' = da_rows d8" "da_triggers d' = da_triggers d8"
    and same: "da_rows d7 ''logs'' = da_rows d ''logs''" "da_rows d7 ''logs_fts'' = da_rows d ''logs_fts''"
      "da_rows d7 ''request_logs'' = da_rows d ''request_logs''"
      "da_triggers d7 = da_triggers d \<and> da_rows d7 ''request_logs_fts'' = da_rows d ''request_logs_fts'' \<or>
       da_triggers d7 = filter (\<lambda>n. n \<noteq> ''rlogs_ai'' \<and> n \<noteq> ''rlogs_ad'') (da_triggers d) \<and> da_rows d7 ''request_logs_fts'' = []"
    using before_index [OF assms(1)] .
  have no_fault: "list_all (\<lambda>s. \<not> fault s) fts_stmts" using assms(2) by (simp add: quiet_index_def)
  have quiet: "filled fault fts base e = (if da_rows e fts = [] then da_rows e base else da_rows e fts)"
    if "(base, fts, x) \<in> set fts_pairs" for fts base x e
    using assms(2) that by (auto simp: quiet_index_def filled_def list_all_iff)
  note q = build_index_rows [OF no_fault b(1)]
  have logs: "da_rows d ''logs_fts'' = da_rows d ''logs'' \<or> da_rows d ''logs_fts'' = []"
    and reqs: "da_rows d ''request_logs_fts'' = da_rows d ''request_logs'' \<or> da_rows d ''request_logs_fts'' = []"
    using assms(3) by (auto simp: index_sound_def in_step_def not_built_def fts_pairs_def)
  have "da_rows d8 ''logs_fts'' = da_rows d8 ''logs''" using q quiet logs same(1,2) by (auto simp: fts_pairs_def)
  moreover have "da_rows d8 ''request_logs_fts'' = da_rows d8 ''request_logs''"
    using q quiet reqs same(3,4) by (auto simp: fts_pairs_def)
  ultimately show ?thesis using q assms(2) by (simp add: index_complete_def in_step_def fts_pairs_def b(2,3))
qed

lemma in_step_rows:
  "index_complete d \<Longrightarrow> index_complete (insert_row t i d)" "index_complete d \<Longrightarrow> index_complete (delete_row t i d)"
  "index_sound d \<Longrightarrow> index_sound (insert_row t i d)" "index_sound d \<Longrightarrow> index_sound (delete_row t i d)"
  by (auto simp: index_complete_def index_sound_def in_step_def not_built_def insert_row_def delete_row_def fts_pairs_def)

lemma complete_sound: "index_complete d \<Longrightarrow> index_sound d"
  by (simp add: index_complete_def index_sound_def list_all_iff)

inductive db_run :: "database \<Rightarrow> database \<Rightarrow> bool \<Rightarrow> bool" for d0 where
  found: "db_run d0 d0 False"
| boot: "db_run d0 d k \<Longrightarrow> quiet_index fault \<Longrightarrow> create_schema fault su d = Some (d', ok) \<Longrightarrow> db_run d0 d' ok"
| row_in: "db_run d0 d k \<Longrightarrow> db_run d0 (insert_row t i d) k"
| row_out: "db_run d0 d k \<Longrightarrow> db_run d0 (delete_row t i d) k"



subsection \<open>A second start changes nothing\<close>

lemma create_tables_again:
  "list_all (\<lambda>t. da_columns d (fst t) \<noteq> None) ts \<Longrightarrow> create_tables (\<lambda>_. False) ts d = Some d"
  by (induction ts) (auto simp: create_table_def)

lemma create_indexes_again: "set is \<subseteq> set (da_indexes d) \<Longrightarrow> create_indexes (\<lambda>_. False) is d = Some d"
  by (induction "is") (auto simp: add_name_def)

lemma add_column_again: "c \<in> set (columns_of t d) \<Longrightarrow> add_column (\<lambda>_. False) t c d = Some d"
  by (simp add: add_column_def table_has_column_def)

lemma add_columns_again: "set cs \<subseteq> set (columns_of t d) \<Longrightarrow> add_columns (\<lambda>_. False) t cs d = Some d"
  by (induction cs) (simp_all add: add_column_again)

definition index_tables :: "database \<Rightarrow> bool" where
  "index_tables d \<longleftrightarrow> da_columns d ''logs_fts'' \<noteq> None \<and> ''engine_name'' \<in> set (columns_of ''request_logs_fts'' d)"

lemma fts_again:
  assumes "index_complete d" and "index_tables d"
  shows "set_up_fts (\<lambda>_. False) fts_stmts d = (d, True)"
proof -
  obtain cs cs' where "da_columns d ''logs_fts'' = Some cs" "da_columns d ''request_logs_fts'' = Some cs'"
    using assms(2) by (fastforce simp: index_tables_def columns_of_def split: option.splits)
  then have "run_fts s d = d" if "s \<in> set fts_stmts" for s
    using that assms(1)
    by (auto simp: fts_stmts_def fts_tables_def run_fts_def create_table_def add_name_def
        index_complete_def in_step_def fts_pairs_def)
  moreover have "set_up_fts (\<lambda>_. False) ss d = (d, True)" if "\<forall>s \<in> set ss. run_fts s d = d" for ss
    using that by (induction ss) auto
  ultimately show ?thesis by blast
qed

lemma backfill_again: "da_rows d fts = da_rows d base \<Longrightarrow> backfill (\<lambda>_. False) fts base d = (d, True)"
  by (auto simp: backfill_def tx_count_def)

lemma create_schema_again:
  assumes "readable d" and "set schema_indexes \<subseteq> set (da_indexes d)" and "plain_keys (da_users d) = []"
    and "da_admin d \<noteq> None" and "index_complete d" and "index_tables d"
  shows "create_schema (\<lambda>_. False) su d = Some (d, True)"
proof -
  have cols: "(t, cs) \<in> set schema_tables \<Longrightarrow> set cs \<subseteq> set (columns_of t d)" for t cs
    using assms(1) by (auto simp: readable_def list_all_iff)
  have "da_columns d t \<noteq> None" if "(t, cs) \<in> set schema_tables" for t cs
  proof -
    have "cs \<noteq> []" using that by (auto simp: schema_tables_def)
    with cols [OF that] show ?thesis by (cases "da_columns d t") (auto simp: columns_of_def)
  qed
  then have "list_all (\<lambda>t. da_columns d (fst t) \<noteq> None) schema_tables" by (auto simp: list_all_iff)
  then have tables: "create_tables (\<lambda>_. False) schema_tables d = Some d" by (rule create_tables_again)
  have users: "rename_email (\<lambda>_. False) d = Some d"
    using cols [of "''users''"] by (simp add: rename_email_def table_has_column_def schema_tables_def)
  have logs: "add_column (\<lambda>_. False) ''logs'' ''model'' d = Some d"
    using cols [of "''logs''"] by (intro add_column_again) (simp add: schema_tables_def)
  have requests: "add_columns (\<lambda>_. False) ''request_logs'' detail_columns d = Some d"
    using cols [of "''request_logs''"] by (intro add_columns_again) (simp add: schema_tables_def)
  have keys: "hash_keys (\<lambda>_. False) (su_hash su) d = Some d"
    using assms(3) by (simp add: hash_keys_def migrate_keys_def)
  have stale: "drop_stale_index (\<lambda>_. False) d = Some d"
    using assms(6) by (simp add: drop_stale_index_def table_has_column_def index_tables_def)
  have index: "build_index (\<lambda>_. False) d = (d, True)"
    using assms(5) fts_again [OF assms(5,6)] backfill_again
    by (simp add: build_index_def index_complete_def in_step_def fts_pairs_def)
  have admin: "seed_administrator (\<lambda>_. False) (su_derive su) (su_salt su) (su_password su) d = Some d"
    using assms(4) by (auto simp: seed_administrator_def seed_admin_def)
  show ?thesis
    by (simp add: create_schema_def tables create_indexes_again [OF assms(2)] users logs requests keys stale index admin)
qed

lemma set_up_tables:
  assumes "list_all (\<lambda>s. \<not> fault s) fts_stmts" and "drop_stale_index fault d = Some d7" and "build_index fault d7 = (d8, ok)"
  shows "index_tables d8"
proof -
  let ?d = "foldl (\<lambda>d s. run_fts s d) d7 fts_stmts"
  have "da_columns d8 = da_columns ?d"
    using assms(3) set_up_fts_quiet [OF assms(1), of d7] by (auto simp: build_index_def case_prod_beta Let_def backfill_keeps)
  moreover have "da_columns ?d = (let c = da_columns (create_table (''request_logs_fts'', the (map_of fts_tables ''request_logs_fts''))
      (create_table (''logs_fts'', the (map_of fts_tables ''logs_fts'')) d7)) in c)"
    by (simp add: fts_stmts_def fts_tables_def run_fts_def)
  moreover have "''engine_name'' \<in> set (columns_of ''request_logs_fts'' d7) \<or> da_columns d7 ''request_logs_fts'' = None"
    using assms(2) by (auto simp: drop_stale_index_def drop_trigger_def drop_table_def table_has_column_def split: if_splits)
  ultimately show ?thesis
    by (auto simp: index_tables_def columns_of_def create_table_def fts_tables_def Let_def split: option.splits)
qed

text \<open>
  C37. A start on what an older build left ends with every column the program reads, no API key in
  plain text, an administrator and the log rows as they were, and a start after it changes
  nothing.
\<close>

theorem schema_ready:
  assumes "create_schema fault su d = Some (d', ok)" and "older d" and "quiet_index fault" and "index_sound d"
    and "wf_users (da_users d)" and "\<And>k. looks_hashed (su_hash su k)"
  shows "readable d' \<and> list_all (\<lambda>u. looks_hashed (us_api_key u)) (ud_users (da_users d')) \<and> da_admin d' \<noteq> None \<and>
    da_rows d' ''logs'' = da_rows d ''logs'' \<and> da_rows d' ''request_logs'' = da_rows d ''request_logs'' \<and>
    create_schema (\<lambda>_. False) later d' = Some (d', True)"
proof -
  note keeps = schema_keeps [OF assms(1,2)]
  have hashed: "list_all (\<lambda>u. looks_hashed (us_api_key u)) (ud_users (da_users d'))"
    using migrated_hashed [where hash = "su_hash su", OF assms(5) _ assms(6)] keeps by blast
  then have plain: "plain_keys (da_users d') = []" by (simp add: plain_keys_def filter_empty_conv list_all_iff)
  obtain d1 d2 d3 d4 d5 d6 d7 d8
    where s: "create_tables fault schema_tables d = Some d1" "create_indexes fault schema_indexes d1 = Some d2"
      "rename_email fault d2 = Some d3" "add_column fault ''logs'' ''model'' d3 = Some d4"
      "add_columns fault ''request_logs'' detail_columns d4 = Some d5" "hash_keys fault (su_hash su) d5 = Some d6"
      "drop_stale_index fault d6 = Some d7" "build_index fault d7 = (d8, ok)"
      "seed_administrator fault (su_derive su) (su_salt su) (su_password su) d8 = Some d'"
    using create_schema_steps [OF assms(1)] .
  have "index_tables d8" using set_up_tables [OF _ s(7,8)] assms(3) by (simp add: quiet_index_def)
  moreover have "da_columns d' = da_columns d8" using s(9) by (auto simp: seed_administrator_def split: if_splits)
  ultimately have "index_tables d'" by (simp add: index_tables_def columns_of_def)
  moreover have "index_complete d'" using boot_completes_index [OF assms(1,3,4)] ..
  ultimately have "create_schema (\<lambda>_. False) later d' = Some (d', True)"
    using keeps plain by (intro create_schema_again) auto
  with keeps hashed show ?thesis by (simp add: fts_tables_def)
qed

subsection \<open>initDB\<close>

text \<open>
  The sizes of the write-ahead log and its shared memory, where they exist. A write-ahead log of
  no bytes is removed with its shared memory before the database is opened; \<open>opens\<close> says
  whether the directory can be made and both pools open.
\<close>

record db_files =
  fl_wal :: "nat option"
  fl_shm :: "nat option"

definition clear_wal :: "bool \<Rightarrow> bool \<Rightarrow> db_files \<Rightarrow> db_files \<times> bool" where
  "clear_wal wal_fault shm_fault fl =
     (if fl_wal fl \<noteq> Some 0 then (fl, True)
      else if wal_fault then (fl, False)
      else let fl1 = fl\<lparr>fl_wal := None\<rparr> in
        if fl_shm fl = None then (fl1, True)
        else if shm_fault then (fl1, False)
        else (fl1\<lparr>fl_shm := None\<rparr>, True))"

definition init_db ::
  "bool \<Rightarrow> bool \<Rightarrow> bool \<Rightarrow> bool \<Rightarrow> bool \<Rightarrow> faults \<Rightarrow> seed \<Rightarrow> db_files \<times> database \<Rightarrow> (db_files \<times> database) \<times> bool option" where
  "init_db dir_fault wal_fault shm_fault open_fault read_fault fault su fd =
     (if dir_fault then (fd, None)
      else let (fl, clean) = clear_wal wal_fault shm_fault (fst fd) in
        if \<not> clean \<or> open_fault then ((fl, snd fd), None)
        else case create_schema fault su (snd fd) of
          None \<Rightarrow> ((fl, snd fd), None)
        | Some (d, fts) \<Rightarrow> ((fl, d), if read_fault then None else Some fts))"

lemma init_db_clears_wal:
  "snd (init_db dir_fault wal_fault shm_fault open_fault read_fault fault su fd) \<noteq> None \<Longrightarrow>
     fl_wal (fst (fst (init_db dir_fault wal_fault shm_fault open_fault read_fault fault su fd))) \<noteq> Some 0"
  by (auto simp: init_db_def clear_wal_def Let_def case_prod_beta split: if_splits option.split)

subsection \<open>A first start, an old database, and a failed backfill\<close>

definition old_database :: database where
  "old_database =
     \<lparr>da_columns = [''users'' \<mapsto> [''id'', ''email'', ''api_key'', ''status'', ''rate_limit'', ''created_at''],
                    ''logs'' \<mapsto> [''id'', ''user_id'', ''prompt'', ''response'', ''ts'']],
      da_indexes = [], da_triggers = [], da_rows = (\<lambda>t. if t = ''logs'' then [1] else []), da_users = sample_users,
      da_admin = Some ''x''\<rparr>"

definition sample_seed :: seed where
  "sample_seed = \<lparr>su_hash = sample_hash, su_derive = (\<lambda>p s n. p), su_salt = [], su_password = []\<rparr>"

lemma old_database_ok: "older old_database" "index_sound old_database" "wf_users (da_users old_database)"
  by (simp_all add: older_def schema_tables_def old_database_def migrated_columns_def index_sound_def not_built_def
      fts_pairs_def wf_users_def sample_users_def)

lemma old_database_starts:
  "case create_schema (\<lambda>_. False) sample_seed old_database of None \<Rightarrow> False
   | Some (d, ok) \<Rightarrow> ok \<and> da_rows d ''logs_fts'' = [1]"
  by code_simp

lemma broken_run:
  "case create_schema (\<lambda>s. s = Backfill ''logs_fts'') sample_seed old_database of None \<Rightarrow> False
   | Some (d1, k) \<Rightarrow> create_schema (\<lambda>_. False) sample_seed (insert_row ''logs'' 2 d1) \<noteq> None"
  by code_simp

lemma quiet_none: "quiet_index (\<lambda>_. False)"
  by (simp add: quiet_index_def list_all_iff case_prod_beta)

lemma sample_hash_looks: "looks_hashed (su_hash sample_seed k)"
  by (simp add: sample_seed_def looks_hashed_def sample_hash_def list_all_iff)

lemma schema_ready_witness:
  "\<exists>d'. create_schema (\<lambda>_. False) sample_seed old_database = Some (d', True) \<and> readable d' \<and>
     create_schema (\<lambda>_. False) sample_seed d' = Some (d', True)"
proof -
  obtain d' where run: "create_schema (\<lambda>_. False) sample_seed old_database = Some (d', True)"
    using old_database_starts by (auto split: option.splits)
  from schema_ready [OF run old_database_ok(1) quiet_none old_database_ok(2,3) sample_hash_looks] run show ?thesis by blast
qed



end

