(* ===== verification/Server.thy ===== *)
theory Server
  imports Startup Log_Store
begin

section \<open>main.go: the process, from its configuration to its shutdown\<close>

text \<open>
  What \<open>main\<close> derives from the configuration, the background tasks it starts, and the order
  in which it ends. A run of the process is a sequence of steps of \<open>server\<close>: requests begin
  and end, the two log writers work, a signal arrives, \<open>Shutdown\<close> returns because no request
  is left or because its 30 seconds are over, the writers are told to drain and the database is
  closed. The writers are their event histories (theory Log\_Writer). Listening itself, TLS and
  the signals are net/http and os.
\<close>

subsection \<open>What the configuration decides\<close>

text \<open>Where log lines go, and the error \<open>main\<close> reports about the file.\<close>

datatype sink = Stderr | LogFile string

definition open_log_output :: "string option \<Rightarrow> string option \<Rightarrow> bool \<Rightarrow> string \<Rightarrow> sink list \<times> string option" where
  "open_log_output mkdir_error open_error same_file path =
     (if path = [] then ([Stderr], None)
      else case mkdir_error of
        Some e \<Rightarrow> ([Stderr], Some e)
      | None \<Rightarrow>
          (case open_error of
             Some e \<Rightarrow> ([Stderr], Some e)
           | None \<Rightarrow> if same_file then ([Stderr], None) else ([Stderr, LogFile path], None)))"

text \<open>The hash and the block key of the cookie store; \<open>fresh\<close> are two draws of 32 bytes.\<close>

definition session_keys :: "(string \<Rightarrow> string) \<Rightarrow> string \<times> string \<Rightarrow> config \<Rightarrow> string \<times> string" where
  "session_keys sha256 fresh cf =
     (if cf_session_key cf \<noteq> []
      then (sha256 (cf_session_key cf @ ''|hash''), sha256 (cf_session_key cf @ ''|block'')) else fresh)"

lemma session_keys_survive: "cf_session_key cf \<noteq> [] \<Longrightarrow> session_keys sha256 fresh cf = session_keys sha256 later cf"
  by (simp add: session_keys_def)

datatype same_site = Lax | Strict

record cookie_options =
  co_max_age :: int
  co_http_only :: bool
  co_secure :: bool
  co_path :: string
  co_same_site :: same_site

definition serves_tls :: "config \<Rightarrow> bool" where
  "serves_tls cf \<longleftrightarrow> cf_tls_cert cf \<noteq> [] \<and> cf_tls_key cf \<noteq> []"

definition cookie_settings :: "config \<Rightarrow> cookie_options" where
  "cookie_settings cf =
     \<lparr>co_max_age = cf_session_ttl cf, co_http_only = True, co_secure = serves_tls cf, co_path = ''/'', co_same_site = Lax\<rparr>"

subsection \<open>Background tasks\<close>

datatype task = SweepLimiters | PruneLogs

text \<open>Each with whether it runs at once, and its period.\<close>

definition background_tasks :: "config \<Rightarrow> (task \<times> bool \<times> int) list" where
  "background_tasks cf =
     [(SweepLimiters, False, 5 * ns_minute)] @
     (if 0 < cf_retention_days cf then [(PruneLogs, True, 60 * ns_minute)] else [])"

definition run_log_prune ::
  "(nat \<Rightarrow> bool) \<Rightarrow> (nat \<Rightarrow> bool) \<Rightarrow> config \<Rightarrow> (int \<Rightarrow> string) \<Rightarrow> log_store \<Rightarrow> log_store" where
  "run_log_prune fault1 fault2 cf cutoff st = fst (prune_logs fault1 fault2 (cf_retention_days cf) cutoff st)"

definition run_task ::
  "(nat \<Rightarrow> bool) \<Rightarrow> (nat \<Rightarrow> bool) \<Rightarrow> config \<Rightarrow> (int \<Rightarrow> string) \<Rightarrow> int \<Rightarrow> task \<Rightarrow>
   'b limiters \<times> log_store \<Rightarrow> 'b limiters \<times> log_store" where
  "run_task fault1 fault2 cf cutoff now t ls =
     (case t of
        SweepLimiters \<Rightarrow> (sweep_idle_limiters now (fst ls), snd ls)
      | PruneLogs \<Rightarrow> (fst ls, run_log_prune fault1 fault2 cf cutoff (snd ls)))"

text \<open>The legacy rate-limit rows go once at start-up; a failure is only logged.\<close>

definition truncate_legacy_rate_limit_table :: "bool \<Rightarrow> 'r list \<Rightarrow> 'r list" where
  "truncate_legacy_rate_limit_table fault rows = (if fault then rows else [])"

subsection \<open>The life of the process\<close>

datatype stage = Serving | Draining | Stopping | Closed | Failed

record server =
  sv_stage :: stage
  sv_running :: nat
  sv_late :: bool \<comment> \<open>\<open>Shutdown\<close> gave up on requests that were still running\<close>
  sv_inter :: "interaction_entry writer_event list"
  sv_reqs :: "request_entry writer_event list"

definition new_server :: server where
  "new_server = \<lparr>sv_stage = Serving, sv_running = 0, sv_late = False, sv_inter = [], sv_reqs = []\<rparr>"

definition alive :: "server \<Rightarrow> bool" where
  "alive s \<longleftrightarrow> sv_stage s \<noteq> Closed \<and> sv_stage s \<noteq> Failed"

text \<open>
  A request that ends has put its entries in the queues. Only the writers' own events stand in
  \<open>works\<close>; they are told to stop (\<open>Done\<close>) once \<open>Shutdown\<close> has returned.
\<close>

definition works :: "'e writer_event \<Rightarrow> bool" where
  "works ev \<longleftrightarrow> ev = Receive \<or> ev = Timer"

inductive server_step :: "server \<Rightarrow> server \<Rightarrow> bool" where
  request_begins: "sv_stage s = Serving \<Longrightarrow> server_step s (s\<lparr>sv_running := Suc (sv_running s)\<rparr>)"
| request_ends: "alive s \<Longrightarrow> sv_running s = Suc n \<Longrightarrow>
    server_step s (s\<lparr>sv_running := n, sv_inter := sv_inter s @ map Send es, sv_reqs := sv_reqs s @ map Send rs\<rparr>)"
| inter_works: "alive s \<Longrightarrow> works ev \<Longrightarrow> server_step s (s\<lparr>sv_inter := sv_inter s @ [ev]\<rparr>)"
| reqs_works: "alive s \<Longrightarrow> works ev \<Longrightarrow> server_step s (s\<lparr>sv_reqs := sv_reqs s @ [ev]\<rparr>)"
| listen_fails: "sv_stage s = Serving \<Longrightarrow> server_step s (s\<lparr>sv_stage := Failed\<rparr>)"
| signal: "sv_stage s = Serving \<Longrightarrow> server_step s (s\<lparr>sv_stage := Draining\<rparr>)"
| drained: "sv_stage s = Draining \<Longrightarrow> sv_running s = 0 \<Longrightarrow> server_step s (s\<lparr>sv_stage := Stopping\<rparr>)"
| gave_up: "sv_stage s = Draining \<Longrightarrow> server_step s (s\<lparr>sv_stage := Stopping, sv_late := True\<rparr>)"
| inter_stops: "sv_stage s = Stopping \<Longrightarrow> server_step s (s\<lparr>sv_inter := sv_inter s @ [Done]\<rparr>)"
| reqs_stops: "sv_stage s = Stopping \<Longrightarrow> server_step s (s\<lparr>sv_reqs := sv_reqs s @ [Done]\<rparr>)"
| closes: "sv_stage s = Stopping \<Longrightarrow> wr_stopped (run_writer (sv_inter s)) \<Longrightarrow> wr_stopped (run_writer (sv_reqs s)) \<Longrightarrow>
    server_step s (s\<lparr>sv_stage := Closed\<rparr>)"

abbreviation serves :: "server \<Rightarrow> server \<Rightarrow> bool" where
  "serves \<equiv> server_step\<^sup>*\<^sup>*"

inductive_cases server_stepE: "server_step s s'"

subsection \<open>What the writers have written\<close>

definition written :: "'e writer_event list \<Rightarrow> 'e list" where
  "written evs = concat (wr_flushed (run_writer evs))"

lemma run_writer_snoc [simp]: "run_writer (evs @ [ev]) = writer_step ev (run_writer evs)"
  by (simp add: run_writer_def)

text \<open>A writer that has stopped takes no event but an entry, which it only queues.\<close>

lemma stopped_step:
  "wr_stopped w \<Longrightarrow> wr_stopped (writer_step ev w) \<and> wr_flushed (writer_step ev w) = wr_flushed w \<and>
     wr_batch (writer_step ev w) = wr_batch w"
  by (cases ev) (simp_all add: enqueue_def)

lemma stopped_run:
  "wr_stopped (run_writer evs) \<Longrightarrow> wr_stopped (run_writer (evs @ rest)) \<and>
     wr_flushed (run_writer (evs @ rest)) = wr_flushed (run_writer evs)"
proof (induction rest rule: rev_induct)
  case (snoc ev rest)
  then show ?case
    using stopped_step [of "run_writer (evs @ rest)" ev] run_writer_snoc [of "evs @ rest" ev] by simp
qed simp

lemma not_stopped_step: "ev \<noteq> Done \<Longrightarrow> wr_stopped (writer_step ev w) = wr_stopped w"
  by (cases ev) (simp_all add: enqueue_def receive_def timer_fired_def flush_shape Let_def split: list.split)

lemma not_stopped_sends: "wr_stopped (run_writer (evs @ map Send es)) = wr_stopped (run_writer evs)"
proof (induction es rule: rev_induct)
  case (snoc e es)
  then show ?case using run_writer_snoc [of "evs @ map Send es" "Send e"] not_stopped_step [of "Send e"] by simp
qed simp

definition settled :: "server \<Rightarrow> 'e writer_event list \<Rightarrow> bool" where
  "settled s evs \<longleftrightarrow> wr_stopped (run_writer evs) \<longrightarrow> sv_stage s \<in> {Stopping, Closed} \<and>
     (\<not> sv_late s \<longrightarrow> wr_queue (run_writer evs) = [] \<and> wr_batch (run_writer evs) = [])"

definition server_inv :: "server \<Rightarrow> bool" where
  "server_inv s \<longleftrightarrow> settled s (sv_inter s) \<and> settled s (sv_reqs s) \<and>
     (sv_stage s \<in> {Stopping, Closed} \<and> \<not> sv_late s \<longrightarrow> sv_running s = 0) \<and>
     (sv_stage s = Closed \<longrightarrow> wr_stopped (run_writer (sv_inter s)) \<and> wr_stopped (run_writer (sv_reqs s)))"

lemma stopped_ignores: "wr_stopped w \<Longrightarrow> works ev \<or> ev = Done \<Longrightarrow> writer_step ev w = w"
  by (auto simp: works_def)

lemma done_empties:
  "\<not> wr_stopped w \<Longrightarrow> wr_stopped (writer_step Done w) \<and> wr_queue (writer_step Done w) = [] \<and> wr_batch (writer_step Done w) = []"
  by (simp add: shut_down_def flush_shape)

lemma settled_works:
  assumes "settled s evs" and "works ev"
  shows "settled (s\<lparr>sv_inter := xs\<rparr>) (evs @ [ev]) \<and> settled (s\<lparr>sv_reqs := ys\<rparr>) (evs @ [ev])"
proof -
  have "ev \<noteq> Done" using assms(2) by (auto simp: works_def)
  with assms stopped_ignores [of "run_writer evs" ev] not_stopped_step [of ev "run_writer evs"] show ?thesis
    by (auto simp: settled_def)
qed

lemma settled_done:
  assumes "settled s evs" and "sv_stage s = Stopping"
  shows "settled (s\<lparr>sv_inter := xs\<rparr>) (evs @ [Done]) \<and> settled (s\<lparr>sv_reqs := ys\<rparr>) (evs @ [Done])"
proof (cases "wr_stopped (run_writer evs)")
  case True
  then show ?thesis using assms stopped_ignores [of "run_writer evs" Done] by (simp add: settled_def)
next
  case False
  then show ?thesis using assms done_empties [of "run_writer evs"] by (simp add: settled_def del: writer_step.simps)
qed

lemma settled_other [simp]:
  "settled (s\<lparr>sv_inter := xs\<rparr>) evs = settled s evs" "settled (s\<lparr>sv_reqs := ys\<rparr>) evs = settled s evs"
  "settled (s\<lparr>sv_running := n\<rparr>) evs = settled s evs"
  by (simp_all add: settled_def)

lemma settled_sends:
  assumes "settled s evs" and "\<not> sv_late s \<Longrightarrow> sv_stage s \<notin> {Stopping, Closed}"
  shows "settled s (evs @ map Send es)"
  using assms not_stopped_sends [of evs es] by (auto simp: settled_def)

lemma server_step_inv: "server_step s s' \<Longrightarrow> server_inv s \<Longrightarrow> server_inv s'"
proof (induction rule: server_step.induct)
  case (request_ends s n es rs)
  then have "\<not> sv_late s \<Longrightarrow> sv_stage s \<notin> {Stopping, Closed}" by (auto simp: server_inv_def)
  with request_ends settled_sends [of s "sv_inter s"] settled_sends [of s "sv_reqs s"] show ?case by (auto simp: server_inv_def alive_def)
next
  case (inter_works s ev)
  then show ?case using settled_works [of s "sv_inter s" ev] by (auto simp: server_inv_def alive_def)
next
  case (reqs_works s ev)
  then show ?case using settled_works [of s "sv_reqs s" ev] by (auto simp: server_inv_def alive_def)
next
  case (inter_stops s)
  then show ?case using settled_done [of s "sv_inter s"] by (auto simp: server_inv_def)
next
  case (reqs_stops s)
  then show ?case using settled_done [of s "sv_reqs s"] by (auto simp: server_inv_def)
qed (auto simp: server_inv_def settled_def alive_def)

lemma server_reach_inv: "serves new_server s \<Longrightarrow> server_inv s"
proof (induction rule: rtranclp_induct)
  case base
  show ?case by (simp add: server_inv_def settled_def new_server_def run_writer_def new_writer_def)
next
  case (step s s')
  then show ?case using server_step_inv by blast
qed

lemma new_writer_ok: "writer_inv new_writer" "holding new_writer = []"
  by (simp_all add: writer_inv_def holding_def new_writer_def)

lemma run_holding: "holding (run_writer evs) = accepted evs new_writer"
  using writer_run [OF new_writer_ok(1), of evs] by (simp add: run_writer_def new_writer_ok)

lemma drained_written: "wr_queue (run_writer evs) = [] \<Longrightarrow> wr_batch (run_writer evs) = [] \<Longrightarrow> written evs = accepted evs new_writer"
  using run_holding [of evs] by (simp add: holding_def written_def)

text \<open>The batches as they reach a database that takes every row.\<close>

definition store_batches :: "request_entry list list \<Rightarrow> request_log list \<Rightarrow> request_log list" where
  "store_batches bs t = foldl (\<lambda>t b. flush_request_batch False (\<lambda>_. False) b t) t bs"

lemma store_batches: "store_batches bs t = t @ map request_row (concat bs)"
  unfolding store_batches_def by (induction bs arbitrary: t) (simp_all add: flush_request_batch_def)


subsection \<open>What is said of dropped entries\<close>

text \<open>The minute ticker: the counter is swapped for zero and a positive count is reported.\<close>

definition report_drops :: "'e writer \<Rightarrow> 'e writer \<times> nat list" where
  "report_drops w = (w\<lparr>wr_dropped := 0\<rparr>, if 0 < wr_dropped w then [wr_dropped w] else [])"

text \<open>A writer and its reports; \<open>None\<close> is a tick.\<close>

fun watch_writer :: "'e writer_event option list \<Rightarrow> 'e writer \<Rightarrow> 'e writer \<times> nat list" where
  "watch_writer [] w = (w, [])"
| "watch_writer (None # evs) w =
     (let (w1, r) = report_drops w; (w2, rs) = watch_writer evs w1 in (w2, r @ rs))"
| "watch_writer (Some ev # evs) w = watch_writer evs (writer_step ev w)"

lemma step_drops: "wr_dropped w \<le> wr_dropped (writer_step ev w)"
  by (cases ev) (simp_all add: enqueue_def receive_def timer_fired_def shut_down_def flush_shape Let_def split: list.split)

lemma step_ignores_drops: "writer_step ev (w\<lparr>wr_dropped := n\<rparr>) =
    (writer_step ev w)\<lparr>wr_dropped := n + (wr_dropped (writer_step ev w) - wr_dropped w)\<rparr>"
  by (cases ev) (simp_all add: enqueue_def receive_def timer_fired_def shut_down_def flush_def Let_def split: list.split)

lemma run_ignores_drops:
  "wr_dropped w \<le> wr_dropped (foldl (\<lambda>w ev. writer_step ev w) w evs) \<and>
   foldl (\<lambda>w ev. writer_step ev w) (w\<lparr>wr_dropped := n\<rparr>) evs =
     (foldl (\<lambda>w ev. writer_step ev w) w evs)\<lparr>wr_dropped := n + (wr_dropped (foldl (\<lambda>w ev. writer_step ev w) w evs) - wr_dropped w)\<rparr>"
proof (induction evs arbitrary: w n)
  case (Cons ev evs)
  let ?w = "writer_step ev w"
  from Cons [of ?w "n + (wr_dropped ?w - wr_dropped w)"] step_drops [of w ev] show ?case
    by (simp add: step_ignores_drops del: writer_step.simps)
qed simp

text \<open>
  However the ticks fall, the reports and what still awaits one add up to the entries the queue
  has dropped, and nothing else of the writer depends on the ticks.
\<close>

lemma drops_reported:
  assumes "watch_writer evs w = (w', rs)"
  defines "run \<equiv> foldl (\<lambda>w ev. writer_step ev w) w (List.map_filter (\<lambda>x. x) evs)"
  shows "sum_list rs + wr_dropped w' = wr_dropped run \<and> w' = run\<lparr>wr_dropped := wr_dropped w'\<rparr> \<and> 0 \<notin> set rs"
  using assms(1) unfolding run_def
proof (induction evs w arbitrary: w' rs rule: watch_writer.induct)
  case (2 evs w)
  let ?run = "foldl (\<lambda>w ev. writer_step ev w) w (List.map_filter (\<lambda>x. x) evs)"
  obtain w2 rs2 where w2: "watch_writer evs (w\<lparr>wr_dropped := 0\<rparr>) = (w2, rs2)" by fastforce
  with 2(2) have out: "w' = w2" "rs = (if 0 < wr_dropped w then [wr_dropped w] else []) @ rs2"
    by (simp_all add: report_drops_def)
  have "sum_list rs2 + wr_dropped w2 = wr_dropped ?run - wr_dropped w \<and> w2 = ?run\<lparr>wr_dropped := wr_dropped w2\<rparr> \<and> 0 \<notin> set rs2"
    using 2(1) [OF _ refl, unfolded report_drops_def, OF refl w2] run_ignores_drops [of w "List.map_filter (\<lambda>x. x) evs" 0] by simp
  with out run_ignores_drops [of w "List.map_filter (\<lambda>x. x) evs" 0] show ?case by (auto simp: List.map_filter_simps)
qed (simp_all add: List.map_filter_simps del: writer_step.simps)

definition sample_entry :: request_entry where
  "sample_entry =
     \<lparr>re_ts = ''t'', re_method = ''POST'', re_path = ''/v1/messages'', re_client_ip = [], re_user_name = ''ann'', re_status = 200,
      re_detail = None\<rparr>"

text \<open>A request comes, the signal arrives, the request ends, and the process shuts down.\<close>

definition sample_end :: server where
  "sample_end =
     \<lparr>sv_stage = Closed, sv_running = 0, sv_late = False, sv_inter = [Done], sv_reqs = [Send sample_entry, Done]\<rparr>"

lemma sample_shutdown: "serves new_server sample_end"
proof -
  let ?s = "\<lambda>st n is rs. \<lparr>sv_stage = st, sv_running = n, sv_late = False, sv_inter = is, sv_reqs = rs\<rparr>"
  have "serves new_server (?s Serving 1 [] [])"
    using r_into_rtranclp [of server_step, OF request_begins [of new_server]] by (simp add: new_server_def)
  also have "serves (?s Serving 1 [] []) (?s Draining 1 [] [])"
    using r_into_rtranclp [of server_step, OF signal [of "?s Serving 1 [] []"]] by simp
  also have "serves (?s Draining 1 [] []) (?s Draining 0 [] [Send sample_entry])"
    using r_into_rtranclp [of server_step, OF request_ends [where s = "?s Draining 1 [] []" and n = 0 and es = "[]" and rs = "[sample_entry]"]] by (simp add: alive_def)
  also have "serves (?s Draining 0 [] [Send sample_entry]) (?s Stopping 0 [] [Send sample_entry])"
    using r_into_rtranclp [of server_step, OF drained [of "?s Draining 0 [] [Send sample_entry]"]] by simp
  also have "serves (?s Stopping 0 [] [Send sample_entry]) (?s Stopping 0 [Done] [Send sample_entry])"
    using r_into_rtranclp [of server_step, OF inter_stops [of "?s Stopping 0 [] [Send sample_entry]"]] by simp
  also have "serves (?s Stopping 0 [Done] [Send sample_entry]) (?s Stopping 0 [Done] [Send sample_entry, Done])"
    using r_into_rtranclp [of server_step, OF reqs_stops [of "?s Stopping 0 [Done] [Send sample_entry]"]] by simp
  also have "serves (?s Stopping 0 [Done] [Send sample_entry, Done]) sample_end"
    using r_into_rtranclp [of server_step, OF closes [of "?s Stopping 0 [Done] [Send sample_entry, Done]"]]
    by (simp add: sample_end_def run_writer_def new_writer_def shut_down_def)
  finally show ?thesis .
qed


text \<open>
  A request that outlives the 30 seconds of \<open>Shutdown\<close> may end after the writers have: its
  entries are accepted by the queue, count as neither dropped nor failed, and are never written.
\<close>

lemma step_appends: "server_step s s' \<Longrightarrow> \<exists>r. sv_reqs s' = sv_reqs s @ r"
  by (induction rule: server_step.induct) auto

lemma serves_appends: "serves s s' \<Longrightarrow> \<exists>r. sv_reqs s' = sv_reqs s @ r"
  by (induction rule: rtranclp_induct) (auto dest!: step_appends)

theorem late_entries_lost:
  assumes "wr_stopped (run_writer (sv_reqs s))" and "sv_running s = Suc n" and "alive s"
  shows "\<exists>s1. server_step s s1 \<and> sv_reqs s1 = sv_reqs s @ [Send e] \<and>
    (\<forall>s2. serves s1 s2 \<longrightarrow> written (sv_reqs s2) = written (sv_reqs s))"
proof (intro exI conjI allI impI)
  let ?s1 = "s\<lparr>sv_running := n, sv_inter := sv_inter s @ map Send [], sv_reqs := sv_reqs s @ map Send [e]\<rparr>"
  show "server_step s ?s1" by (rule request_ends [OF assms(3,2)])
  show "sv_reqs ?s1 = sv_reqs s @ [Send e]" by simp
  fix s2
  assume "serves ?s1 s2"
  then obtain r where "sv_reqs s2 = sv_reqs s @ (Send e # r)" using serves_appends by fastforce
  then show "written (sv_reqs s2) = written (sv_reqs s)"
    using stopped_run [OF assms(1), of "Send e # r"] by (simp add: written_def)
qed

end
